(* ===== verification/Prelude.thy ===== *)
theory Prelude
  imports Main "HOL-Library.Word" "HOL-Library.Monad_Syntax" "HOL-Library.While_Combinator"
begin

text \<open>
  What every component of the development shares.

  \<^item> The names of the machine types of the Rust sources and of byte strings.
  \<^item> The result type of a fallible Rust function.  A Rust panic is the value
    \<^term>\<open>None\<close> of an \<^typ>\<open>'a option\<close>, so a definition that can panic returns an option
    (\<open>panics\<close>), and \<^term>\<open>Option.bind\<close> propagates the panic.
  \<^item> The conversions between integers and byte strings of the standard library
    (\<^verbatim>\<open>to_le_bytes\<close>, \<^verbatim>\<open>from_le_bytes\<close> and the big-endian pair), their round trips in both
    directions, and sub-slices \<^verbatim>\<open>src[a..b]\<close>.
  \<^item> The collections \<open>wire_simps\<close> (evaluation of slices of concatenated fields) and
    \<open>wf_intros\<close> (preservation of the well-formedness predicates of the components).

  Integer arithmetic is that of the release profile of the workspace: unsigned addition and
  subtraction wrap around at the width of the type.
\<close>

unbundle bit_operations_syntax

named_theorems wire_simps
named_theorems wf_intros

section \<open>Types\<close>

type_synonym u8 = "8 word"
type_synonym u16 = "16 word"
type_synonym u32 = "32 word"
type_synonym u64 = "64 word"
type_synonym bytes = "u8 list"

type_synonym 'a panics = "'a option"

datatype ('a, 'e) result = Ok 'a | Err 'e

fun is_ok :: "('a, 'e) result \<Rightarrow> bool" where
  "is_ok (Ok _) = True"
| "is_ok (Err _) = False"

lemma is_ok_iff: "is_ok r \<longleftrightarrow> (\<exists>x. r = Ok x)"
  by (cases r) auto

section \<open>Sub-slices\<close>

definition slice :: "'a list \<Rightarrow> nat \<Rightarrow> nat \<Rightarrow> 'a list" where
  "slice xs a b = take (b - a) (drop a xs)"

lemma length_slice [simp]: "b \<le> length xs \<Longrightarrow> length (slice xs a b) = b - a"
  by (simp add: slice_def)

lemma slice_append1 [wire_simps]: "b \<le> length xs \<Longrightarrow> slice (xs @ ys) a b = slice xs a b"
  by (simp add: slice_def)

lemma slice_append2 [wire_simps]:
  "length xs \<le> a \<Longrightarrow> slice (xs @ ys) a b = slice ys (a - length xs) (b - length xs)"
  by (simp add: slice_def)

lemma slice_all [wire_simps]: "length xs \<le> b \<Longrightarrow> slice xs 0 b = xs"
  by (simp add: slice_def)

lemma slice_glue: "a \<le> b \<Longrightarrow> b \<le> c \<Longrightarrow> slice xs a b @ slice xs b c = slice xs a c"
proof -
  assume "a \<le> b" "b \<le> c"
  then have "take (c - a) (drop a xs) = take (b - a) (drop a xs) @ take (c - b) (drop (b - a) (drop a xs))"
    using take_add [of "b - a" "c - b" "drop a xs"] by simp
  then show ?thesis using \<open>a \<le> b\<close> by (simp add: slice_def)
qed

lemma slice_to_end: "slice xs a (length xs) = drop a xs"
  by (simp add: slice_def)

lemma nth_slice: "i < b - a \<Longrightarrow> b \<le> length xs \<Longrightarrow> slice xs a b ! i = xs ! (a + i)"
  by (simp add: slice_def)

section \<open>Integers as byte strings\<close>

definition word_to_le :: "nat \<Rightarrow> 'a::len word \<Rightarrow> bytes" where
  "word_to_le n w = map (\<lambda>i. ucast (drop_bit (8 * i) w)) [0..<n]"

primrec word_of_le :: "bytes \<Rightarrow> 'a::len word" where
  "word_of_le [] = 0"
| "word_of_le (b # bs) = ucast b OR push_bit 8 (word_of_le bs)"

definition word_to_be :: "nat \<Rightarrow> 'a::len word \<Rightarrow> bytes" where
  "word_to_be n w = rev (word_to_le n w)"

definition word_of_be :: "bytes \<Rightarrow> 'a::len word" where
  "word_of_be bs = word_of_le (rev bs)"

lemma length_word_to_le [simp]: "length (word_to_le n w) = n"
  by (simp add: word_to_le_def)

lemma length_word_to_be [simp]: "length (word_to_be n w) = n"
  by (simp add: word_to_be_def)

lemma bit_word_of_le:
  "bit (word_of_le bs :: 'a::len word) i \<longleftrightarrow>
     i < LENGTH('a) \<and> i div 8 < length bs \<and> bit (bs ! (i div 8)) (i mod 8)"
proof (induction bs arbitrary: i)
  case Nil
  show ?case by simp
next
  case (Cons b bs)
  show ?case
  proof (cases "i < 8")
    case True
    then show ?thesis by (auto simp: bit_simps)
  next
    case False
    then obtain j where "i = j + 8" using le_Suc_ex by (metis add.commute not_less)
    moreover have "\<not> bit b (j + 8)"
      using bit_imp_le_length [of b "j + 8"] by auto
    moreover have "(j + 8) div 8 = Suc (j div 8)" by simp
    ultimately show ?thesis using Cons.IH [of j] by (auto simp: bit_simps)
  qed
qed

lemma bit_nth_word_to_le:
  "i < n \<Longrightarrow> bit (word_to_le n w ! i) j \<longleftrightarrow> j < 8 \<and> bit w (8 * i + j)"
  by (auto simp: word_to_le_def bit_simps)

lemma word_of_le_to_le:
  "LENGTH('a) \<le> 8 * n \<Longrightarrow> word_of_le (word_to_le n w) = (w :: 'a::len word)"
  by (rule bit_word_eqI) (auto simp: bit_word_of_le bit_nth_word_to_le less_mult_imp_div_less mult.commute)

lemma word_to_le_of_le:
  assumes "length bs = n" and "8 * n \<le> LENGTH('a::len)"
  shows "word_to_le n (word_of_le bs :: 'a word) = bs"
proof (rule nth_equalityI)
  fix i assume i: "i < length (word_to_le n (word_of_le bs :: 'a word))"
  show "word_to_le n (word_of_le bs :: 'a word) ! i = bs ! i"
  proof (rule bit_word_eqI)
    fix j assume "j < LENGTH(8)"
    then have j: "j < 8" by simp
    with i assms have "8 * i + j < LENGTH('a)" by simp
    with i j assms show "bit (word_to_le n (word_of_le bs :: 'a word) ! i) j = bit (bs ! i) j"
      by (simp add: bit_nth_word_to_le bit_word_of_le)
  qed
qed (use assms in simp)

lemma word_of_be_to_be:
  "LENGTH('a) \<le> 8 * n \<Longrightarrow> word_of_be (word_to_be n w) = (w :: 'a::len word)"
  by (simp add: word_of_be_def word_to_be_def word_of_le_to_le)

lemmas le_round_trip [simp] =
  word_of_le_to_le [where 'a = 32 and n = 4, simplified]
  word_of_le_to_le [where 'a = 64 and n = 8, simplified]

lemmas be_round_trip [simp] =
  word_of_be_to_be [where 'a = 32 and n = 4, simplified]
  word_of_be_to_be [where 'a = 64 and n = 8, simplified]

lemma word_to_le_inj:
  assumes "word_to_le n w = word_to_le n w'" and "LENGTH('a) \<le> 8 * n"
  shows "w = (w' :: 'a::len word)"
  by (metis assms word_of_le_to_le)

lemma unat_bound: "unat (w :: 'a::len word) < 2 ^ LENGTH('a)"
  by (rule unsigned_less)

lemmas unat_u64_bound = unat_bound [where 'a = 64, simplified]

lemma mod_shift: "(n + i) mod m = (n + j) mod m \<longleftrightarrow> i mod m = j mod (m :: nat)"
proof -
  have "int ((n + i) mod m) = int ((n + j) mod m) \<longleftrightarrow> int (i mod m) = int (j mod m)"
    by (simp add: zmod_int mod_eq_dvd_iff)
  then show ?thesis by simp
qed

section \<open>Loops\<close>

text \<open>
  A \<^verbatim>\<open>while\<close> loop is \<^term>\<open>while_option\<close>, whose value \<^term>\<open>None\<close> means that the loop does not
  end.  Total correctness of a loop with an invariant and a decreasing measure:
\<close>

lemma while_option_total:
  fixes f :: "'s \<Rightarrow> nat"
  assumes "P s" and "\<And>s. P s \<Longrightarrow> b s \<Longrightarrow> P (c s) \<and> f (c s) < f s"
  obtains t where "while_option b c s = Some t" "P t" "\<not> b t"
proof -
  obtain t where t: "while_option b c s = Some t"
    using measure_while_option_Some [of P b c f s] assms by metis
  have "P t" by (rule while_option_rule [OF _ t]) (use assms in auto)
  with t show ?thesis by (rule that) (rule while_option_stop [OF t])
qed

section \<open>Operations that accept each key at most once\<close>

text \<open>
  The contract of a replay filter.  A state \<open>s\<close> stands for the set of keys accepted so far
  (\<open>inv s S\<close>); a step either accepts a fresh key and records it, or refuses and keeps the set.
  Every run of such a filter accepts each key at most once.
\<close>

fun accepted :: "('s \<Rightarrow> 'k \<Rightarrow> bool \<times> 's) \<Rightarrow> 's \<Rightarrow> 'k list \<Rightarrow> 'k list" where
  "accepted step s [] = []"
| "accepted step s (k # ks) =
     (let (b, s') = step s k in (if b then [k] else []) @ accepted step s' ks)"

locale replay_filter =
  fixes step :: "'s \<Rightarrow> 'k \<Rightarrow> bool \<times> 's"
    and inv :: "'s \<Rightarrow> 'k set \<Rightarrow> bool"
    and dom :: "'k \<Rightarrow> bool"
  assumes accept_fresh: "inv s S \<Longrightarrow> dom k \<Longrightarrow> step s k = (True, s') \<Longrightarrow> k \<notin> S"
    and accept_inv: "inv s S \<Longrightarrow> dom k \<Longrightarrow> step s k = (True, s') \<Longrightarrow> inv s' (insert k S)"
    and refuse_inv: "inv s S \<Longrightarrow> dom k \<Longrightarrow> step s k = (False, s') \<Longrightarrow> inv s' S"
begin

lemma accepted_distinct_aux:
  "inv s S \<Longrightarrow> (\<And>k. k \<in> set ks \<Longrightarrow> dom k) \<Longrightarrow>
     distinct (accepted step s ks) \<and> set (accepted step s ks) \<inter> S = {}"
proof (induction ks arbitrary: s S)
  case Nil
  then show ?case by simp
next
  case (Cons k ks)
  obtain b s' where st: "step s k = (b, s')" by force
  show ?case
  proof (cases b)
    case True
    have "k \<notin> S" "inv s' (insert k S)"
      using accept_fresh [of s S k s'] accept_inv [of s S k s'] Cons.prems st True by simp_all
    with Cons.IH [of s' "insert k S"] Cons.prems show ?thesis
      by (auto simp: st True)
  next
    case False
    have "inv s' S" using refuse_inv [of s S k s'] Cons.prems st False by simp
    with Cons.IH [of s' S] Cons.prems show ?thesis by (auto simp: st False)
  qed
qed

lemma accepted_distinct:
  "inv s S \<Longrightarrow> (\<And>k. k \<in> set ks \<Longrightarrow> dom k) \<Longrightarrow> distinct (accepted step s ks)"
  using accepted_distinct_aux by blast

lemma replay_refused:
  assumes "inv s S" "dom k" "step s k = (True, s')"
  shows "fst (step s' k) = False"
  using assms accept_fresh accept_inv
  by (metis (full_types) insertI1 prod.collapse)

end

text \<open>
  A filter with keys that reset it: accepting one of them forgets what was accepted before.  A run then accepts a
  key again only after such a reset.
\<close>

locale resetting_filter = replay_filter step inv "\<lambda>k. \<not> resets k"
  for step :: "'s \<Rightarrow> 'k \<Rightarrow> bool \<times> 's" and inv :: "'s \<Rightarrow> 'k set \<Rightarrow> bool" and resets :: "'k \<Rightarrow> bool" +
  assumes accept_reset: "inv s S \<Longrightarrow> resets k \<Longrightarrow> step s k = (True, s') \<Longrightarrow> inv s' {}"
    and refuse_reset: "inv s S \<Longrightarrow> resets k \<Longrightarrow> step s k = (False, s') \<Longrightarrow> inv s' S"
begin

lemma refuse_any: "inv s S \<Longrightarrow> step s k = (False, s') \<Longrightarrow> inv s' S"
  using refuse_inv refuse_reset by blast

lemma accept_any: "inv s S \<Longrightarrow> step s k = (True, s') \<Longrightarrow> \<exists>S'. inv s' S'"
  using accept_inv accept_reset by blast

lemma known_after_reset:
  "inv s S \<Longrightarrow> k \<in> S \<Longrightarrow> \<not> resets k \<Longrightarrow> accepted step s ks = zs @ k # ys \<Longrightarrow> \<exists>z \<in> set zs. resets z"
proof (induction ks arbitrary: s S zs)
  case (Cons a ks)
  obtain b s' where st: "step s a = (b, s')" by force
  show ?case
  proof (cases b)
    case False
    with Cons.IH [of s' S zs] Cons.prems st refuse_any [of s S a s'] show ?thesis by simp
  next
    case True
    then have eq: "a # accepted step s' ks = zs @ k # ys" using Cons.prems(4) st by simp
    show ?thesis
    proof (cases zs)
      case Nil
      then show ?thesis using eq accept_fresh [of s S a s'] Cons.prems st True by simp
    next
      case (Cons z zs')
      show ?thesis
      proof (cases "resets a")
        case False
        then have "inv s' (insert a S)" using accept_inv [of s S a s'] Cons.prems st True by simp
        from Cons.IH [OF this, of zs'] Cons.prems eq Cons show ?thesis by auto
      qed (use eq Cons in auto)
    qed
  qed
qed simp

lemma accepted_again:
  "inv s S \<Longrightarrow> accepted step s ks = xs @ k # zs @ k # ys \<Longrightarrow> resets k \<or> (\<exists>z \<in> set zs. resets z)"
proof (induction ks arbitrary: s S xs)
  case (Cons a ks)
  obtain b s' where st: "step s a = (b, s')" by force
  show ?case
  proof (cases b)
    case False
    with Cons.IH [of s' S xs] Cons.prems st refuse_any [of s S a s'] show ?thesis by simp
  next
    case True
    then have eq: "a # accepted step s' ks = xs @ k # zs @ k # ys" using Cons.prems(2) st by simp
    show ?thesis
    proof (cases xs)
      case Nil
      then show ?thesis
        using eq known_after_reset [of s' "insert k S" k ks zs ys] accept_inv [of s S a s'] Cons.prems st True by auto
    next
      case (Cons x xs')
      then show ?thesis using eq Cons.IH [of s' _ xs'] accept_any [of s S a s'] Cons.prems st True by auto
    qed
  qed
qed simp

end

text \<open>
  The contract of a registry of notifiers: as long as there is room, a new reference is good; it stays good through
  later changes; and triggering or stopping what a good reference denotes never panics.
\<close>

locale notifier_registry =
  fixes good :: "'q \<Rightarrow> 'r \<Rightarrow> bool"
    and room :: "'q \<Rightarrow> bool"
    and create :: "'q \<Rightarrow> 'h \<Rightarrow> 'w \<Rightarrow> ('r, 'e) result \<times> 'q \<times> 'w"
    and trigger :: "'q \<Rightarrow> 'r \<Rightarrow> 'v \<Rightarrow> 'v option"
    and stop :: "'q \<Rightarrow> 'r \<Rightarrow> 'v \<Rightarrow> 'v option"
    and change :: "'r \<Rightarrow> 'q \<Rightarrow> 'q \<Rightarrow> bool"
  assumes created: "room q \<Longrightarrow> create q h w = (Ok r, q', w') \<Longrightarrow> good q' r"
    and kept: "change r q q' \<Longrightarrow> good q r \<Longrightarrow> good q' r"
    and usable: "good q r \<Longrightarrow> trigger q r v \<noteq> None \<and> stop q r v \<noteq> None"
begin

lemma kept_by_all: "(change r)\<^sup>*\<^sup>* q q' \<Longrightarrow> good q r \<Longrightarrow> good q' r"
  by (induction rule: rtranclp_induct) (auto dest: kept)

lemma stays_usable:
  "room q \<Longrightarrow> create q h w = (Ok r, q1, w1) \<Longrightarrow> (change r)\<^sup>*\<^sup>* q1 q2 \<Longrightarrow>
     trigger q2 r v \<noteq> None \<and> stop q2 r v \<noteq> None"
  by (rule usable [OF kept_by_all [OF _ created]])

end

end
