(* ===== verification/SleepyInstant.thy ===== *)
theory SleepyInstant
  imports Prelude
begin

text \<open>
  The clock of the program (\<^verbatim>\<open>sleepyinstant/mod.rs\<close>, \<^verbatim>\<open>sleepyinstant/unix.rs\<close>) and the
  environment the other components read.

  An \<open>instant\<close> is the \<^verbatim>\<open>TimeSpec\<close> that \<^verbatim>\<open>clock_gettime\<close> returned, and a
  \<^verbatim>\<open>std::time::Duration\<close> is its number of nanoseconds.  The environment \<open>world\<close> holds the
  readings that successive calls of \<^verbatim>\<open>Instant::now\<close> and \<^verbatim>\<open>SystemTime::now\<close> return and the
  byte stream of \<^verbatim>\<open>OsRng\<close>.  Each call takes the next reading, so two readings inside one
  operation may differ, as they may in the program.  \<open>monotone_clock\<close> is what the operating
  system documents of \<^verbatim>\<open>CLOCK_BOOTTIME\<close> and \<^verbatim>\<open>CLOCK_MONOTONIC\<close>.
\<close>

section \<open>Durations\<close>

type_synonym duration = nat

definition NANOS_PER_SEC :: nat where
  "NANOS_PER_SEC = 1000000000"

definition Duration_new :: "nat \<Rightarrow> nat \<Rightarrow> duration" where
  "Duration_new secs nanos = secs * NANOS_PER_SEC + nanos"

definition from_secs :: "nat \<Rightarrow> duration" where
  "from_secs s = Duration_new s 0"

definition from_mins :: "nat \<Rightarrow> duration" where
  "from_mins m = from_secs (60 * m)"

definition as_secs :: "duration \<Rightarrow> nat" where
  "as_secs d = d div NANOS_PER_SEC"

definition as_millis :: "duration \<Rightarrow> nat" where
  "as_millis d = d div 1000000"

definition subsec_nanos :: "duration \<Rightarrow> nat" where
  "subsec_nanos d = d mod NANOS_PER_SEC"

definition checked_sub :: "duration \<Rightarrow> duration \<Rightarrow> duration option" where
  "checked_sub a b = (if b \<le> a then Some (a - b) else None)"

lemma checked_sub_Some [simp]: "b \<le> a \<Longrightarrow> checked_sub a b = Some (a - b)"
  by (simp add: checked_sub_def)

lemma checked_sub_None_iff: "checked_sub a b = None \<longleftrightarrow> a < b"
  by (auto simp: checked_sub_def)

section \<open>Instants\<close>

record instant =
  tv_sec :: int
  tv_nsec :: int

definition checked_duration_since :: "instant \<Rightarrow> instant \<Rightarrow> duration option" where
  "checked_duration_since self earlier =
     (let (sec, nsec) =
        (if tv_nsec self < tv_nsec earlier
         then (tv_sec self - tv_sec earlier - 1, tv_nsec self - tv_nsec earlier + 1000000000)
         else (tv_sec self - tv_sec earlier, tv_nsec self - tv_nsec earlier))
      in if sec < 0 then None else Some (Duration_new (nat sec) (nat nsec)))"

definition duration_since :: "instant \<Rightarrow> instant \<Rightarrow> duration" where
  "duration_since self earlier =
     (case checked_duration_since self earlier of None \<Rightarrow> 0 | Some d \<Rightarrow> d)"

definition wf_instant :: "instant \<Rightarrow> bool" where
  "wf_instant t \<longleftrightarrow> 0 \<le> tv_sec t \<and> 0 \<le> tv_nsec t \<and> tv_nsec t < 1000000000"

definition instant_ns :: "instant \<Rightarrow> int" where
  "instant_ns t = tv_sec t * 1000000000 + tv_nsec t"

lemma checked_duration_since_ns:
  assumes "wf_instant a" and "wf_instant b"
  shows "checked_duration_since a b =
    (if instant_ns b \<le> instant_ns a then Some (nat (instant_ns a - instant_ns b)) else None)"
proof -
  have *: "Duration_new (nat s) (nat n) = nat (s * 1000000000 + n)" if "0 \<le> s" "0 \<le> n" for s n :: int
    using that by (simp add: Duration_new_def NANOS_PER_SEC_def nat_add_distrib nat_mult_distrib)
  show ?thesis
  proof (cases "tv_nsec a < tv_nsec b")
    case True
    then have "(tv_sec a - tv_sec b - 1 < 0) \<longleftrightarrow> \<not> instant_ns b \<le> instant_ns a"
      using assms by (auto simp: instant_ns_def wf_instant_def)
    moreover have "(tv_sec a - tv_sec b - 1) * 1000000000 + (tv_nsec a - tv_nsec b + 1000000000)
        = instant_ns a - instant_ns b"
      by (simp add: instant_ns_def algebra_simps)
    ultimately show ?thesis
      using True assms *[of "tv_sec a - tv_sec b - 1" "tv_nsec a - tv_nsec b + 1000000000"]
      by (auto simp: checked_duration_since_def wf_instant_def)
  next
    case False
    then have "(tv_sec a - tv_sec b < 0) \<longleftrightarrow> \<not> instant_ns b \<le> instant_ns a"
      using assms by (auto simp: instant_ns_def wf_instant_def)
    moreover have "(tv_sec a - tv_sec b) * 1000000000 + (tv_nsec a - tv_nsec b)
        = instant_ns a - instant_ns b"
      by (simp add: instant_ns_def algebra_simps)
    ultimately show ?thesis
      using False assms *[of "tv_sec a - tv_sec b" "tv_nsec a - tv_nsec b"]
      by (auto simp: checked_duration_since_def)
  qed
qed

lemma duration_since_ns:
  "wf_instant a \<Longrightarrow> wf_instant b \<Longrightarrow> duration_since a b = nat (instant_ns a - instant_ns b)"
  by (auto simp: duration_since_def checked_duration_since_ns)

lemma duration_since_mono:
  "wf_instant a \<Longrightarrow> wf_instant b \<Longrightarrow> wf_instant c \<Longrightarrow> instant_ns a \<le> instant_ns b \<Longrightarrow>
   duration_since a c \<le> duration_since b c"
  by (simp add: duration_since_ns)

section \<open>The environment\<close>

record world =
  clock :: "nat \<Rightarrow> instant"
  clock_pos :: nat
  system_clock :: "nat \<Rightarrow> int"
  system_pos :: nat
  rng :: "nat \<Rightarrow> u8"
  rng_pos :: nat

definition Instant_now :: "'a world_scheme \<Rightarrow> instant \<times> 'a world_scheme" where
  "Instant_now w = (clock w (clock_pos w), w\<lparr>clock_pos := Suc (clock_pos w)\<rparr>)"

definition Instant_elapsed :: "instant \<Rightarrow> 'a world_scheme \<Rightarrow> duration \<times> 'a world_scheme" where
  "Instant_elapsed t w = (let (now, w) = Instant_now w in (duration_since now t, w))"

text \<open>
  \<^verbatim>\<open>SystemTime::now().duration_since(UNIX_EPOCH)\<close>: \<^term>\<open>None\<close> is the error of a wall clock set
  before 1970.
\<close>

definition SystemTime_since_epoch :: "'a world_scheme \<Rightarrow> duration option \<times> 'a world_scheme" where
  "SystemTime_since_epoch w =
     (let t = system_clock w (system_pos w)
      in (if 0 \<le> t then Some (nat t) else None, w\<lparr>system_pos := Suc (system_pos w)\<rparr>))"

definition OsRng_bytes :: "nat \<Rightarrow> 'a world_scheme \<Rightarrow> bytes \<times> 'a world_scheme" where
  "OsRng_bytes n w =
     (map (rng w) [rng_pos w ..< rng_pos w + n], w\<lparr>rng_pos := rng_pos w + n\<rparr>)"

definition OsRng_next_u32 :: "'a world_scheme \<Rightarrow> u32 \<times> 'a world_scheme" where
  "OsRng_next_u32 w = (let (bs, w) = OsRng_bytes 4 w in (word_of_le bs, w))"

definition monotone_clock :: "'a world_scheme \<Rightarrow> bool" where
  "monotone_clock w \<longleftrightarrow>
     (\<forall>i. wf_instant (clock w i)) \<and>
     (\<forall>i j. i \<le> j \<longrightarrow> instant_ns (clock w i) \<le> instant_ns (clock w j))"

text \<open>
  \<open>world_le w w'\<close>: \<open>w'\<close> is \<open>w\<close> after some more readings.  Every operation of the model relates
  its input and output worlds by it.
\<close>

definition world_le :: "'a world_scheme \<Rightarrow> 'b world_scheme \<Rightarrow> bool" where
  "world_le w w' \<longleftrightarrow>
     clock w' = clock w \<and> clock_pos w \<le> clock_pos w' \<and>
     system_clock w' = system_clock w \<and> system_pos w \<le> system_pos w' \<and>
     rng w' = rng w \<and> rng_pos w \<le> rng_pos w'"

lemma world_le_refl [simp, intro]: "world_le w w"
  by (simp add: world_le_def)

lemma world_le_trans [trans]: "world_le a b \<Longrightarrow> world_le b c \<Longrightarrow> world_le a c"
  by (auto simp: world_le_def)

lemma world_le_Instant_now: "Instant_now w = (t, w') \<Longrightarrow> world_le w w'"
  by (auto simp: Instant_now_def world_le_def)

lemma world_le_OsRng_bytes: "OsRng_bytes n w = (b, w') \<Longrightarrow> world_le w w'"
  by (auto simp: OsRng_bytes_def world_le_def)

lemma world_le_SystemTime: "SystemTime_since_epoch w = (t, w') \<Longrightarrow> world_le w w'"
  by (auto simp: SystemTime_since_epoch_def world_le_def Let_def)

lemma monotone_clock_le: "world_le w w' \<Longrightarrow> monotone_clock w \<Longrightarrow> monotone_clock w'"
  by (simp add: world_le_def monotone_clock_def)

lemma length_OsRng_bytes: "OsRng_bytes n w = (b, w') \<Longrightarrow> length b = n"
  by (auto simp: OsRng_bytes_def)

text \<open>The time since \<open>t0\<close> that the next reading of the clock will give.\<close>

definition since :: "instant \<Rightarrow> 'a world_scheme \<Rightarrow> duration" where
  "since t0 w = duration_since (clock w (clock_pos w)) t0"

lemma since_mono:
  assumes "monotone_clock w" and "world_le w w'" and "wf_instant t0"
  shows "since t0 w \<le> since t0 w'"
  using assms by (simp add: since_def world_le_def monotone_clock_def duration_since_mono)

lemma Instant_now_since: "Instant_now w = (t, w') \<Longrightarrow> duration_since t t0 = since t0 w"
  by (auto simp: Instant_now_def since_def)

text \<open>A concrete environment: a clock that ticks once a second and a counting byte stream.\<close>

definition sample_world :: "nat \<Rightarrow> world" where
  "sample_world k =
     \<lparr>clock = (\<lambda>i. \<lparr>tv_sec = 100 + int i, tv_nsec = 0\<rparr>), clock_pos = 0,
      system_clock = (\<lambda>_. 1700000000000000000), system_pos = 0,
      rng = (\<lambda>i. of_nat (i + k)), rng_pos = 0\<rparr>"

lemma sample_world_monotone: "monotone_clock (sample_world k)"
  by (simp add: monotone_clock_def sample_world_def wf_instant_def instant_ns_def)

text \<open>
  On well-formed instants \<^verbatim>\<open>Instant::duration_since\<close> is the difference of the two clock
  readings in nanoseconds, and zero when the argument is later: the borrow from the seconds is
  handled correctly and a clock that went backwards never makes the subtraction panic or wrap.
\<close>

theorem duration_since_saturates:
  assumes "wf_instant a" and "wf_instant b"
  shows "int (duration_since a b) = max 0 (instant_ns a - instant_ns b)"
  using assms by (simp add: duration_since_ns)

theorem duration_since_saturates_witness:
  "int (duration_since \<lparr>tv_sec = 7, tv_nsec = 100\<rparr> \<lparr>tv_sec = 5, tv_nsec = 999999999\<rparr>) = 1000000101
   \<and> int (duration_since \<lparr>tv_sec = 5, tv_nsec = 0\<rparr> \<lparr>tv_sec = 5, tv_nsec = 1\<rparr>) = 0"
  using duration_since_saturates [of "\<lparr>tv_sec = 7, tv_nsec = 100\<rparr>" "\<lparr>tv_sec = 5, tv_nsec = 999999999\<rparr>"]
    duration_since_saturates [of "\<lparr>tv_sec = 5, tv_nsec = 0\<rparr>" "\<lparr>tv_sec = 5, tv_nsec = 1\<rparr>"]
  by (simp add: wf_instant_def instant_ns_def)

end
