(* ===== verification/Wire.thy ===== *)
theory Wire
  imports Prelude
begin

text \<open>
  The messages of the WireGuard protocol as bytes on the wire: the error type
  (\<^verbatim>\<open>noise/errors.rs\<close>), the four message kinds, the parser \<^verbatim>\<open>Tunn::parse_incoming_packet\<close> and
  the routing helper \<^verbatim>\<open>Tunn::dst_address\<close> (\<^verbatim>\<open>noise/mod.rs\<close>).

  \<open>encode_packet\<close> is the reference layout of a message, given the fields the parser extracts
  and, for the two handshake messages, the MAC trailer the parser leaves to the rate limiter.
  The lemmas show that parsing inverts it in both directions and that the parser accepts
  exactly the four documented combinations of type and length.
\<close>

section \<open>Errors and results\<close>

datatype WireGuardError =
    DestinationBufferTooSmall
  | IncorrectPacketLength
  | UnexpectedPacket
  | WrongPacketType
  | WrongIndex
  | WrongKey
  | WrongTai64nTimestamp
  | InvalidMac
  | InvalidAeadTag
  | InvalidCounter
  | DuplicateCounter
  | InvalidPacket
  | NoCurrentSession
  | LockFailed
  | ConnectionExpired
  | UnderLoad

text \<open>An address is its octets: four for \<open>V4\<close>, sixteen for \<open>V6\<close>.\<close>

datatype ip_addr = V4 bytes | V6 bytes

fun wf_ip :: "ip_addr \<Rightarrow> bool" where
  "wf_ip (V4 a) = (length a = 4)"
| "wf_ip (V6 a) = (length a = 16)"

datatype TunnResult =
    TunnDone
  | TunnErr WireGuardError
  | WriteToNetwork bytes
  | WriteToTunnelV4 bytes bytes
  | WriteToTunnelV6 bytes bytes

section \<open>Constants\<close>

definition IPV4_MIN_HEADER_SIZE :: nat where "IPV4_MIN_HEADER_SIZE = 20"
definition IPV4_LEN_OFF :: nat where "IPV4_LEN_OFF = 2"
definition IPV4_SRC_IP_OFF :: nat where "IPV4_SRC_IP_OFF = 12"
definition IPV4_DST_IP_OFF :: nat where "IPV4_DST_IP_OFF = 16"
definition IPV4_IP_SZ :: nat where "IPV4_IP_SZ = 4"
definition IPV6_MIN_HEADER_SIZE :: nat where "IPV6_MIN_HEADER_SIZE = 40"
definition IPV6_LEN_OFF :: nat where "IPV6_LEN_OFF = 4"
definition IPV6_SRC_IP_OFF :: nat where "IPV6_SRC_IP_OFF = 8"
definition IPV6_DST_IP_OFF :: nat where "IPV6_DST_IP_OFF = 24"
definition IPV6_IP_SZ :: nat where "IPV6_IP_SZ = 16"
definition IP_LEN_SZ :: nat where "IP_LEN_SZ = 2"
definition MAX_QUEUE_DEPTH :: nat where "MAX_QUEUE_DEPTH = 256"
definition N_SESSIONS :: nat where "N_SESSIONS = 8"
definition PEER_HANDSHAKE_RATE_LIMIT :: u64 where "PEER_HANDSHAKE_RATE_LIMIT = 10"

definition HANDSHAKE_INIT :: u32 where "HANDSHAKE_INIT = 1"
definition HANDSHAKE_RESP :: u32 where "HANDSHAKE_RESP = 2"
definition COOKIE_REPLY :: u32 where "COOKIE_REPLY = 3"
definition DATA :: u32 where "DATA = 4"

definition HANDSHAKE_INIT_SZ :: nat where "HANDSHAKE_INIT_SZ = 148"
definition HANDSHAKE_RESP_SZ :: nat where "HANDSHAKE_RESP_SZ = 92"
definition COOKIE_REPLY_SZ :: nat where "COOKIE_REPLY_SZ = 64"
definition DATA_OVERHEAD_SZ :: nat where "DATA_OVERHEAD_SZ = 32"

lemmas ip_const_defs =
  IPV4_MIN_HEADER_SIZE_def IPV4_LEN_OFF_def IPV4_SRC_IP_OFF_def IPV4_DST_IP_OFF_def IPV4_IP_SZ_def
  IPV6_MIN_HEADER_SIZE_def IPV6_LEN_OFF_def IPV6_SRC_IP_OFF_def IPV6_DST_IP_OFF_def IPV6_IP_SZ_def
  IP_LEN_SZ_def

lemmas msg_const_defs =
  HANDSHAKE_INIT_def HANDSHAKE_RESP_def COOKIE_REPLY_def DATA_def
  HANDSHAKE_INIT_SZ_def HANDSHAKE_RESP_SZ_def COOKIE_REPLY_SZ_def DATA_OVERHEAD_SZ_def

section \<open>Messages\<close>

record handshake_init =
  hi_sender_idx :: u32
  hi_unencrypted_ephemeral :: bytes
  hi_encrypted_static :: bytes
  hi_encrypted_timestamp :: bytes

record handshake_response =
  hr_sender_idx :: u32
  hr_receiver_idx :: u32
  hr_unencrypted_ephemeral :: bytes
  hr_encrypted_nothing :: bytes

record packet_cookie_reply =
  cr_receiver_idx :: u32
  cr_nonce :: bytes
  cr_encrypted_cookie :: bytes

record packet_data =
  pd_receiver_idx :: u32
  pd_counter :: u64
  pd_encrypted_encapsulated_packet :: bytes

datatype packet =
    HandshakeInit handshake_init
  | HandshakeResponse handshake_response
  | PacketCookieReply packet_cookie_reply
  | PacketData packet_data

definition parse_incoming_packet :: "bytes \<Rightarrow> (packet, WireGuardError) result" where
  "parse_incoming_packet src =
     (if length src < 4 then Err InvalidPacket
      else let packet_type = (word_of_le (slice src 0 4) :: u32)
      in if packet_type = HANDSHAKE_INIT \<and> length src = HANDSHAKE_INIT_SZ then
           Ok (HandshakeInit
             \<lparr>hi_sender_idx = word_of_le (slice src 4 8),
              hi_unencrypted_ephemeral = slice src 8 40,
              hi_encrypted_static = slice src 40 88,
              hi_encrypted_timestamp = slice src 88 116\<rparr>)
         else if packet_type = HANDSHAKE_RESP \<and> length src = HANDSHAKE_RESP_SZ then
           Ok (HandshakeResponse
             \<lparr>hr_sender_idx = word_of_le (slice src 4 8),
              hr_receiver_idx = word_of_le (slice src 8 12),
              hr_unencrypted_ephemeral = slice src 12 44,
              hr_encrypted_nothing = slice src 44 60\<rparr>)
         else if packet_type = COOKIE_REPLY \<and> length src = COOKIE_REPLY_SZ then
           Ok (PacketCookieReply
             \<lparr>cr_receiver_idx = word_of_le (slice src 4 8),
              cr_nonce = slice src 8 32,
              cr_encrypted_cookie = slice src 32 64\<rparr>)
         else if packet_type = DATA \<and> DATA_OVERHEAD_SZ \<le> length src then
           Ok (PacketData
             \<lparr>pd_receiver_idx = word_of_le (slice src 4 8),
              pd_counter = word_of_le (slice src 8 16),
              pd_encrypted_encapsulated_packet = drop 16 src\<rparr>)
         else Err InvalidPacket)"

text \<open>The high nibble of the first byte of an IP packet: \<^verbatim>\<open>packet[0] >> 4\<close>.\<close>

definition ip_version :: "bytes \<Rightarrow> u8" where
  "ip_version packet = drop_bit 4 (packet ! 0)"

definition dst_address :: "bytes \<Rightarrow> ip_addr option" where
  "dst_address packet =
     (if packet = [] then None
      else if ip_version packet = 4 \<and> IPV4_MIN_HEADER_SIZE \<le> length packet then
        Some (V4 (slice packet IPV4_DST_IP_OFF (IPV4_DST_IP_OFF + IPV4_IP_SZ)))
      else if ip_version packet = 6 \<and> IPV6_MIN_HEADER_SIZE \<le> length packet then
        Some (V6 (slice packet IPV6_DST_IP_OFF (IPV6_DST_IP_OFF + IPV6_IP_SZ)))
      else None)"

lemma dst_address_wf: "dst_address p = Some a \<Longrightarrow> wf_ip a"
  by (auto simp: dst_address_def ip_const_defs split: if_splits)

section \<open>Reference layout\<close>

fun wf_packet :: "packet \<Rightarrow> bool" where
  "wf_packet (HandshakeInit p) =
     (length (hi_unencrypted_ephemeral p) = 32 \<and> length (hi_encrypted_static p) = 48
      \<and> length (hi_encrypted_timestamp p) = 28)"
| "wf_packet (HandshakeResponse p) =
     (length (hr_unencrypted_ephemeral p) = 32 \<and> length (hr_encrypted_nothing p) = 16)"
| "wf_packet (PacketCookieReply p) =
     (length (cr_nonce p) = 24 \<and> length (cr_encrypted_cookie p) = 32)"
| "wf_packet (PacketData p) = (16 \<le> length (pd_encrypted_encapsulated_packet p))"

fun trailer_len :: "packet \<Rightarrow> nat" where
  "trailer_len (HandshakeInit _) = 32"
| "trailer_len (HandshakeResponse _) = 32"
| "trailer_len (PacketCookieReply _) = 0"
| "trailer_len (PacketData _) = 0"

fun encode_packet :: "packet \<Rightarrow> bytes \<Rightarrow> bytes" where
  "encode_packet (HandshakeInit p) macs =
     word_to_le 4 HANDSHAKE_INIT @ word_to_le 4 (hi_sender_idx p) @ hi_unencrypted_ephemeral p
     @ hi_encrypted_static p @ hi_encrypted_timestamp p @ macs"
| "encode_packet (HandshakeResponse p) macs =
     word_to_le 4 HANDSHAKE_RESP @ word_to_le 4 (hr_sender_idx p) @ word_to_le 4 (hr_receiver_idx p)
     @ hr_unencrypted_ephemeral p @ hr_encrypted_nothing p @ macs"
| "encode_packet (PacketCookieReply p) macs =
     word_to_le 4 COOKIE_REPLY @ word_to_le 4 (cr_receiver_idx p) @ cr_nonce p
     @ cr_encrypted_cookie p @ macs"
| "encode_packet (PacketData p) macs =
     word_to_le 4 DATA @ word_to_le 4 (pd_receiver_idx p) @ word_to_le 8 (pd_counter p)
     @ pd_encrypted_encapsulated_packet p @ macs"

lemma parse_encode:
  assumes "wf_packet p" and "length macs = trailer_len p"
  shows "parse_incoming_packet (encode_packet p macs) = Ok p"
  using assms
  by (cases p)
    (simp_all add: parse_incoming_packet_def msg_const_defs wire_simps)

lemma parse_ok_cases:
  assumes "parse_incoming_packet src = Ok p"
  obtains (init) h where "p = HandshakeInit h" "length src = 148"
      "word_of_le (slice src 0 4) = HANDSHAKE_INIT"
    | (resp) h where "p = HandshakeResponse h" "length src = 92"
      "word_of_le (slice src 0 4) = HANDSHAKE_RESP"
    | (cookie) c where "p = PacketCookieReply c" "length src = 64"
      "word_of_le (slice src 0 4) = COOKIE_REPLY"
    | (data) d where "p = PacketData d" "32 \<le> length src"
      "word_of_le (slice src 0 4) = DATA"
  using assms
  by (auto simp: parse_incoming_packet_def msg_const_defs Let_def split: if_splits)

lemma wf_parsed: "parse_incoming_packet src = Ok p \<Longrightarrow> wf_packet p"
  by (auto simp: parse_incoming_packet_def msg_const_defs Let_def split: if_splits)

lemma slice4_of_le:
  assumes "b \<le> length src" "b = a + 4"
  shows "word_to_le 4 (word_of_le (slice src a b) :: u32) = slice src a b"
  using assms by (intro word_to_le_of_le) auto

lemma slice8_of_le:
  assumes "b \<le> length src" "b = a + 8"
  shows "word_to_le 8 (word_of_le (slice src a b) :: u64) = slice src a b"
  using assms by (intro word_to_le_of_le) auto

lemma type_field:
  assumes "word_of_le (slice src 0 4) = (t :: u32)" and "4 \<le> length src"
  shows "word_to_le 4 t = slice src 0 4"
  using slice4_of_le [of 4 src 0] assms by simp

lemma slice_split_rest:
  assumes "a \<le> b"
  shows "slice src a b @ drop b src = drop a src"
proof -
  have "drop b src = drop (b - a) (drop a src)" using assms by simp
  then show ?thesis by (simp add: slice_def del: drop_drop)
qed

lemma encode_parsed:
  assumes "parse_incoming_packet src = Ok p"
  shows "encode_packet p (drop (length src - trailer_len p) src) = src"
  using assms
proof (cases rule: parse_ok_cases)
  case (init h)
  then have h: "h = \<lparr>hi_sender_idx = word_of_le (slice src 4 8),
      hi_unencrypted_ephemeral = slice src 8 40, hi_encrypted_static = slice src 40 88,
      hi_encrypted_timestamp = slice src 88 116\<rparr>"
    using assms by (simp add: parse_incoming_packet_def msg_const_defs)
  show ?thesis
    using init by (simp add: h type_field slice4_of_le slice_split_rest)
next
  case (resp h)
  then have h: "h = \<lparr>hr_sender_idx = word_of_le (slice src 4 8),
      hr_receiver_idx = word_of_le (slice src 8 12), hr_unencrypted_ephemeral = slice src 12 44,
      hr_encrypted_nothing = slice src 44 60\<rparr>"
    using assms by (simp add: parse_incoming_packet_def msg_const_defs)
  show ?thesis
    using resp by (simp add: h type_field slice4_of_le slice_split_rest)
next
  case (cookie c)
  then have c: "c = \<lparr>cr_receiver_idx = word_of_le (slice src 4 8),
      cr_nonce = slice src 8 32, cr_encrypted_cookie = slice src 32 64\<rparr>"
    using assms by (simp add: parse_incoming_packet_def msg_const_defs)
  show ?thesis
    using cookie slice_split_rest [of 32 64 src] slice_split_rest [of 8 32 src]
    by (simp add: c type_field slice4_of_le slice_split_rest)
next
  case (data d)
  then have d: "d = \<lparr>pd_receiver_idx = word_of_le (slice src 4 8),
      pd_counter = word_of_le (slice src 8 16), pd_encrypted_encapsulated_packet = drop 16 src\<rparr>"
    using assms by (simp add: parse_incoming_packet_def msg_const_defs)
  show ?thesis
    using data by (simp add: d type_field slice4_of_le slice8_of_le slice_split_rest)
qed

text \<open>
  C20.  The parser accepts a datagram as message \<open>p\<close> exactly when the datagram is the documented
  wire layout of \<open>p\<close>: the four-byte type with its reserved zeros, the fields of \<open>p\<close> at their
  fixed widths, and for a handshake message a 32-byte MAC trailer.  Every other byte string, of
  any length, is refused with \<open>InvalidPacket\<close>.
\<close>

theorem parse_incoming_packet_iff:
  "(parse_incoming_packet src = Ok p \<longleftrightarrow>
     wf_packet p \<and> (\<exists>macs. length macs = trailer_len p \<and> src = encode_packet p macs))
   \<and> (\<exists>q. parse_incoming_packet src \<in> {Ok q, Err InvalidPacket})"
proof -
  have "\<exists>macs. length macs = trailer_len p \<and> src = encode_packet p macs"
    if "parse_incoming_packet src = Ok p"
  proof (intro exI conjI)
    show "src = encode_packet p (drop (length src - trailer_len p) src)"
      using encode_parsed [OF that] by simp
    show "length (drop (length src - trailer_len p) src) = trailer_len p"
      using that by (cases rule: parse_ok_cases) auto
  qed
  moreover have "\<exists>q. parse_incoming_packet src \<in> {Ok q, Err InvalidPacket}"
    by (simp add: parse_incoming_packet_def Let_def)
  ultimately show ?thesis by (auto intro: wf_parsed simp: parse_encode)
qed

end
