(* ===== verification/Crypto.thy ===== *)
theory Crypto
  imports Wire
begin

text \<open>
  The cryptographic helpers of \<^verbatim>\<open>noise/handshake.rs\<close> over the third-party primitives they call.

  The primitives (\<^verbatim>\<open>blake2\<close>, \<^verbatim>\<open>hmac\<close>, \<^verbatim>\<open>ring\<close>, \<^verbatim>\<open>chacha20poly1305\<close>, \<^verbatim>\<open>x25519-dalek\<close>) are not
  part of the repository: they are the fields of a record \<open>crypto\<close> that every definition which
  uses them takes as its first argument.  \<open>crypto_laws\<close> collects what the program relies on:
  output lengths, decryption of what was encrypted under the same key, nonce and associated
  data, and commutativity of Diffie-Hellman.  No secrecy assumption is made.

  The record also has the width of \<^verbatim>\<open>usize\<close>, which the target fixes: 32 or 64 bits on the targets of the README.  A
  value of type \<^verbatim>\<open>usize\<close> that the program also uses as a \<^verbatim>\<open>u64\<close> is a \<open>u64\<close>, and \<open>usize\<close> wraps it at that width.
\<close>

section \<open>The primitives\<close>

record crypto =
  blake2s256 :: "bytes \<Rightarrow> bytes"
  hmac_blake2s :: "bytes \<Rightarrow> bytes \<Rightarrow> bytes"
  blake2s_mac :: "nat \<Rightarrow> bytes \<Rightarrow> bytes \<Rightarrow> bytes"
  chacha_seal :: "bytes \<Rightarrow> bytes \<Rightarrow> bytes \<Rightarrow> bytes \<Rightarrow> bytes \<times> bytes"
  chacha_open :: "bytes \<Rightarrow> bytes \<Rightarrow> bytes \<Rightarrow> bytes \<Rightarrow> bytes option"
  xchacha_encrypt :: "bytes \<Rightarrow> bytes \<Rightarrow> bytes \<Rightarrow> bytes \<Rightarrow> bytes \<times> bytes"
  xchacha_decrypt :: "bytes \<Rightarrow> bytes \<Rightarrow> bytes \<Rightarrow> bytes \<Rightarrow> bytes \<Rightarrow> bytes option"
  x25519_public :: "bytes \<Rightarrow> bytes"
  x25519_dh :: "bytes \<Rightarrow> bytes \<Rightarrow> bytes"
  usize_bits :: nat

definition crypto_laws :: "crypto \<Rightarrow> bool" where
  "crypto_laws c \<longleftrightarrow>
     (\<forall>d. length (blake2s256 c d) = 32) \<and>
     (\<forall>k d. length (hmac_blake2s c k d) = 32) \<and>
     (\<forall>n k d. length (blake2s_mac c n k d) = n) \<and>
     (\<forall>k n a d ct tag. chacha_seal c k n a d = (ct, tag) \<longrightarrow>
        length ct = length d \<and> length tag = 16 \<and> chacha_open c k n a (ct @ tag) = Some d) \<and>
     (\<forall>k n a d pt. chacha_open c k n a d = Some pt \<longrightarrow> length d = length pt + 16) \<and>
     (\<forall>k n a d ct tag. xchacha_encrypt c k n a d = (ct, tag) \<longrightarrow>
        length ct = length d \<and> length tag = 16 \<and> xchacha_decrypt c k n a ct tag = Some d) \<and>
     (\<forall>k n a ct tag pt. xchacha_decrypt c k n a ct tag = Some pt \<longrightarrow> length pt = length ct) \<and>
     (\<forall>s. length (x25519_public c s) = 32) \<and>
     (\<forall>s p. length (x25519_dh c s p) = 32) \<and>
     (\<forall>a b. x25519_dh c a (x25519_public c b) = x25519_dh c b (x25519_public c a)) \<and>
     (usize_bits c = 32 \<or> usize_bits c = 64)"

definition usize :: "crypto \<Rightarrow> u64 \<Rightarrow> u64" where
  "usize c x = take_bit (usize_bits c) x"

section \<open>Hashes, MACs and key derivation\<close>

definition LABEL_MAC1 :: bytes where
  "LABEL_MAC1 = [109, 97, 99, 49, 45, 45, 45, 45]"

definition LABEL_COOKIE :: bytes where
  "LABEL_COOKIE = [99, 111, 111, 107, 105, 101, 45, 45]"

definition KEY_LEN :: nat where "KEY_LEN = 32"
definition TIMESTAMP_LEN :: nat where "TIMESTAMP_LEN = 12"

definition INITIAL_CHAIN_KEY :: bytes where
  "INITIAL_CHAIN_KEY =
     [96, 226, 109, 174, 243, 39, 239, 192, 46, 195, 53, 226, 160, 37, 210, 208, 22, 235, 66, 6, 248,
      114, 119, 245, 45, 56, 209, 152, 139, 120, 205, 54]"

definition INITIAL_CHAIN_HASH :: bytes where
  "INITIAL_CHAIN_HASH =
     [34, 17, 179, 97, 8, 26, 197, 102, 105, 18, 67, 219, 69, 138, 213, 50, 45, 156, 108, 102, 34,
      147, 232, 183, 14, 225, 156, 101, 186, 7, 158, 243]"

definition b2s_hash :: "crypto \<Rightarrow> bytes \<Rightarrow> bytes \<Rightarrow> bytes" where
  "b2s_hash c data1 data2 = blake2s256 c (data1 @ data2)"

definition b2s_hmac :: "crypto \<Rightarrow> bytes \<Rightarrow> bytes \<Rightarrow> bytes" where
  "b2s_hmac c key data1 = hmac_blake2s c key data1"

definition b2s_hmac2 :: "crypto \<Rightarrow> bytes \<Rightarrow> bytes \<Rightarrow> bytes \<Rightarrow> bytes" where
  "b2s_hmac2 c key data1 data2 = hmac_blake2s c key (data1 @ data2)"

definition b2s_kdf1 :: "crypto \<Rightarrow> bytes \<Rightarrow> bytes \<Rightarrow> bytes" where
  "b2s_kdf1 c key input = b2s_hmac c (b2s_hmac c key input) [1]"

definition b2s_kdf2 :: "crypto \<Rightarrow> bytes \<Rightarrow> bytes \<Rightarrow> bytes \<times> bytes" where
  "b2s_kdf2 c key input =
     (let temp = b2s_hmac c key input;
          out1 = b2s_hmac c temp [1];
          out2 = b2s_hmac2 c temp out1 [2]
      in (out1, out2))"

definition b2s_kdf3 :: "crypto \<Rightarrow> bytes \<Rightarrow> bytes \<Rightarrow> bytes \<times> bytes \<times> bytes" where
  "b2s_kdf3 c key input =
     (let temp = b2s_hmac c key input;
          out1 = b2s_hmac c temp [1];
          out2 = b2s_hmac2 c temp out1 [2];
          out3 = b2s_hmac2 c temp out2 [3]
      in (out1, out2, out3))"

definition b2s_keyed_mac_16 :: "crypto \<Rightarrow> bytes \<Rightarrow> bytes \<Rightarrow> bytes" where
  "b2s_keyed_mac_16 c key data1 = blake2s_mac c 16 key data1"

definition b2s_keyed_mac_16_2 :: "crypto \<Rightarrow> bytes \<Rightarrow> bytes \<Rightarrow> bytes \<Rightarrow> bytes" where
  "b2s_keyed_mac_16_2 c key data1 data2 = blake2s_mac c 16 key (data1 @ data2)"

definition b2s_mac_24 :: "crypto \<Rightarrow> bytes \<Rightarrow> bytes \<Rightarrow> bytes" where
  "b2s_mac_24 c key data1 = blake2s_mac c 24 key data1"

section \<open>AEAD wrappers\<close>

text \<open>
  The twelve-byte nonce of a counter: four zero bytes and the counter, little endian.
  \<open>aead_chacha20_seal\<close> returns the contents of the \<open>ciphertext\<close> buffer of \<open>ct_len\<close> bytes;
  \<open>aead_chacha20_open\<close> the contents of the \<open>buffer\<close> of \<open>buf_len\<close> bytes.  Copying between slices
  of different lengths panics, as does a message longer than the scratch array.
\<close>

definition aead_nonce :: "u64 \<Rightarrow> bytes" where
  "aead_nonce counter = replicate 4 0 @ word_to_le 8 counter"

definition aead_chacha20_seal_inner ::
  "crypto \<Rightarrow> nat \<Rightarrow> bytes \<Rightarrow> bytes \<Rightarrow> bytes \<Rightarrow> bytes \<Rightarrow> bytes panics" where
  "aead_chacha20_seal_inner c ct_len key nonce data aad =
     (if ct_len < length data then None
      else let (ct, tag) = chacha_seal c key nonce aad data
      in if ct_len - length data = length tag then Some (ct @ tag) else None)"

definition aead_chacha20_seal ::
  "crypto \<Rightarrow> nat \<Rightarrow> bytes \<Rightarrow> u64 \<Rightarrow> bytes \<Rightarrow> bytes \<Rightarrow> bytes panics" where
  "aead_chacha20_seal c ct_len key counter data aad =
     aead_chacha20_seal_inner c ct_len key (aead_nonce counter) data aad"

definition aead_chacha20_open_inner ::
  "crypto \<Rightarrow> nat \<Rightarrow> bytes \<Rightarrow> bytes \<Rightarrow> bytes \<Rightarrow> bytes \<Rightarrow> (bytes, unit) result panics" where
  "aead_chacha20_open_inner c buf_len key nonce data aad =
     (case chacha_open c key nonce aad data of
        None \<Rightarrow> Some (Err ())
      | Some plaintext \<Rightarrow> if buf_len = length plaintext then Some (Ok plaintext) else None)"

definition aead_chacha20_open ::
  "crypto \<Rightarrow> nat \<Rightarrow> bytes \<Rightarrow> u64 \<Rightarrow> bytes \<Rightarrow> bytes \<Rightarrow> (bytes, WireGuardError) result panics" where
  "aead_chacha20_open c buf_len key counter data aad =
     (if 48 < length data then None
      else case aead_chacha20_open_inner c buf_len key (aead_nonce counter) data aad of
        None \<Rightarrow> None
      | Some (Err _) \<Rightarrow> Some (Err InvalidAeadTag)
      | Some (Ok plaintext) \<Rightarrow> Some (Ok plaintext))"

lemma length_aead_nonce [simp]: "length (aead_nonce n) = 12"
  by (simp add: aead_nonce_def)

lemma aead_nonce_inj: "aead_nonce m = aead_nonce n \<longleftrightarrow> m = n"
  by (auto simp: aead_nonce_def dest: word_to_le_inj)

section \<open>Consequences of the laws\<close>

named_theorems crypto_len

lemma crypto_lengths [crypto_len]:
  assumes "crypto_laws c"
  shows "length (blake2s256 c d) = 32" "length (hmac_blake2s c k d) = 32"
    "length (blake2s_mac c n k d) = n" "length (x25519_public c s) = 32"
    "length (x25519_dh c s p) = 32"
  using assms by (simp_all add: crypto_laws_def)

lemma b2s_lengths [crypto_len]:
  assumes "crypto_laws c"
  shows "length (b2s_hash c d1 d2) = 32" "length (b2s_hmac c k d1) = 32"
    "length (b2s_hmac2 c k d1 d2) = 32" "length (b2s_kdf1 c k d1) = 32"
    "length (b2s_keyed_mac_16 c k d1) = 16" "length (b2s_keyed_mac_16_2 c k d1 d2) = 16"
    "length (b2s_mac_24 c k d1) = 24"
  using assms
  by (simp_all add: b2s_hash_def b2s_hmac_def b2s_hmac2_def b2s_kdf1_def b2s_keyed_mac_16_def
      b2s_keyed_mac_16_2_def b2s_mac_24_def crypto_lengths)

lemma kdf2_kdf1: "fst (b2s_kdf2 c k d) = b2s_kdf1 c k d"
  by (simp add: b2s_kdf2_def b2s_kdf1_def Let_def)

lemma chacha_seal_laws:
  assumes "crypto_laws c" and "chacha_seal c k n a d = (ct, tag)"
  shows "length ct = length d" "length tag = 16" "chacha_open c k n a (ct @ tag) = Some d"
  using assms by (auto simp: crypto_laws_def)

lemma chacha_open_length:
  "crypto_laws c \<Longrightarrow> chacha_open c k n a d = Some pt \<Longrightarrow> length d = length pt + 16"
  by (simp add: crypto_laws_def)

lemma xchacha_laws:
  assumes "crypto_laws c" and "xchacha_encrypt c k n a d = (ct, tag)"
  shows "length ct = length d" "length tag = 16" "xchacha_decrypt c k n a ct tag = Some d"
  using assms by (auto simp: crypto_laws_def)

lemma xchacha_decrypt_length:
  "crypto_laws c \<Longrightarrow> xchacha_decrypt c k n a ct tag = Some pt \<Longrightarrow> length pt = length ct"
  by (simp add: crypto_laws_def)

lemma dh_commutes:
  "crypto_laws c \<Longrightarrow> x25519_dh c a (x25519_public c b) = x25519_dh c b (x25519_public c a)"
  by (simp add: crypto_laws_def)

lemma unat_usize:
  assumes "crypto_laws c"
  shows "unat (usize c (of_nat n)) = n mod 2 ^ usize_bits c"
proof -
  have "(2 :: nat) ^ usize_bits c dvd 2 ^ 64" using assms by (auto simp: crypto_laws_def)
  then show ?thesis
    unfolding usize_def unsigned_take_bit_eq unat_of_nat by (simp add: take_bit_eq_mod mod_mod_cancel)
qed

lemma seal_some:
  assumes "crypto_laws c" and "n = length data + 16"
  obtains ct where "aead_chacha20_seal c n key counter data aad = Some ct" "length ct = n"
    "length data \<le> 32 \<Longrightarrow>
       aead_chacha20_open c (length data) key counter ct aad = Some (Ok data)"
proof -
  obtain ct tag where s: "chacha_seal c key (aead_nonce counter) aad data = (ct, tag)"
    by (cases "chacha_seal c key (aead_nonce counter) aad data")
  note l = chacha_seal_laws [OF assms(1) s]
  show ?thesis
  proof (rule that [of "ct @ tag"])
    show "aead_chacha20_seal c n key counter data aad = Some (ct @ tag)"
      using assms l by (simp add: aead_chacha20_seal_def aead_chacha20_seal_inner_def s)
    show "length (ct @ tag) = n" using assms l by simp
    show "aead_chacha20_open c (length data) key counter (ct @ tag) aad = Some (Ok data)"
      if "length data \<le> 32"
      using that l by (simp add: aead_chacha20_open_def aead_chacha20_open_inner_def)
  qed
qed

lemma seal_open:
  assumes "crypto_laws c" "length data = b" "n = b + 16" "b \<le> 32"
  obtains ct where "aead_chacha20_seal c n key counter data aad = Some ct" "length ct = n"
    "aead_chacha20_open c b key counter ct aad = Some (Ok data)"
proof (rule seal_some [of c n data key counter aad])
  fix ct
  assume "aead_chacha20_seal c n key counter data aad = Some ct" "length ct = n"
    "length data \<le> 32 \<Longrightarrow> aead_chacha20_open c (length data) key counter ct aad = Some (Ok data)"
  with assms show thesis by (intro that [of ct]) auto
qed (use assms in auto)

lemma open_no_panic:
  assumes "crypto_laws c" and "length data = buf_len + 16" and "buf_len \<le> 32"
  obtains (ok) pt where "aead_chacha20_open c buf_len key counter data aad = Some (Ok pt)"
      "length pt = buf_len"
    | (bad) "aead_chacha20_open c buf_len key counter data aad = Some (Err InvalidAeadTag)"
proof (cases "chacha_open c key (aead_nonce counter) aad data")
  case None
  then show ?thesis
    using bad assms by (simp add: aead_chacha20_open_def aead_chacha20_open_inner_def)
next
  case (Some pt)
  with assms have "length pt = buf_len" using chacha_open_length by fastforce
  with Some ok show ?thesis
    using assms by (simp add: aead_chacha20_open_def aead_chacha20_open_inner_def)
qed

lemma open_not_None:
  assumes "crypto_laws c" "length data = buf_len + 16" "buf_len \<le> 32"
  shows "aead_chacha20_open c buf_len key counter data aad \<noteq> None"
  by (rule open_no_panic [OF assms, of key counter aad]) auto

section \<open>A concrete instance\<close>

text \<open>
  An executable record that satisfies the laws: it shows that they can hold together and serves
  as the concrete parameter of the witnesses.  It is not a cipher.
\<close>

definition pad_to :: "nat \<Rightarrow> bytes \<Rightarrow> bytes" where
  "pad_to n d = take n (d @ replicate n 0)"

definition sample_crypto :: crypto where
  "sample_crypto =
     \<lparr>blake2s256 = pad_to 32,
      hmac_blake2s = (\<lambda>k d. pad_to 32 (d @ k)),
      blake2s_mac = (\<lambda>n k d. pad_to n (k @ d)),
      chacha_seal = (\<lambda>k n a d. (d, replicate 16 0)),
      chacha_open = (\<lambda>k n a d.
        if 16 \<le> length d \<and> drop (length d - 16) d = replicate 16 0
        then Some (take (length d - 16) d) else None),
      xchacha_encrypt = (\<lambda>k n a d. (d, replicate 16 0)),
      xchacha_decrypt = (\<lambda>k n a ct tag. if tag = replicate 16 0 then Some ct else None),
      x25519_public = pad_to 32,
      x25519_dh = (\<lambda>s p. map2 (XOR) (pad_to 32 s) (pad_to 32 p)),
      usize_bits = 64\<rparr>"

lemma length_pad_to [simp]: "length (pad_to n d) = n"
  by (simp add: pad_to_def)

lemma pad_to_idem [simp]: "pad_to n (pad_to n d) = pad_to n d"
  by (simp add: pad_to_def)

lemma sample_crypto_laws: "crypto_laws sample_crypto"
proof -
  have "map2 (XOR) xs ys = map2 (XOR) ys xs" for xs ys :: bytes
    by (rule nth_equalityI) (auto simp: ac_simps)
  then show ?thesis
    by (auto simp: crypto_laws_def sample_crypto_def split: if_splits)
qed

end
