(* ===== verification/Replay.thy ===== *)
theory Replay
  imports Wire
begin

text \<open>
  The sliding replay window \<^verbatim>\<open>ReceivingKeyCounterValidator\<close> of \<^verbatim>\<open>noise/session.rs\<close>: a 1024-bit
  bitmap over the counters below \<^verbatim>\<open>next\<close>, with the three clearing loops of
  \<^verbatim>\<open>mark_did_receive\<close> kept as loops.

  The specification is a set of accepted counters and the highest one plus one; \<open>window_inv\<close>
  relates a bitmap to it.  \<open>mark_did_receive\<close> always terminates, and for all
  but the last 1024 counters refines the specification, which never accepts a counter twice.  Counters are 64-bit
  words whose additions wrap: the largest one makes the window forget what it has seen, and the locale
  \<open>resetting_filter\<close> of theory \<open>Prelude\<close> gives what is left of the guarantee.
\<close>

section \<open>The bitmap\<close>

definition WORD_SIZE :: u64 where "WORD_SIZE = 64"
definition N_WORDS :: u64 where "N_WORDS = 16"
definition N_BITS :: u64 where "N_BITS = WORD_SIZE * N_WORDS"

record ReceivingKeyCounterValidator =
  nxt :: u64
  receive_cnt :: u64
  bitmap :: "u64 list"

definition validator_default :: ReceivingKeyCounterValidator where
  "validator_default = \<lparr>nxt = 0, receive_cnt = 0, bitmap = replicate 16 0\<rparr>"

definition set_bit_v :: "ReceivingKeyCounterValidator \<Rightarrow> u64 \<Rightarrow> ReceivingKeyCounterValidator" where
  "set_bit_v v idx =
     (let bit_idx = idx mod N_BITS;
          word = unat (bit_idx div WORD_SIZE);
          bit = unat (bit_idx mod WORD_SIZE)
      in v\<lparr>bitmap := (bitmap v)[word := (bitmap v ! word) OR push_bit bit 1]\<rparr>)"

definition clear_bit_v :: "ReceivingKeyCounterValidator \<Rightarrow> u64 \<Rightarrow> ReceivingKeyCounterValidator" where
  "clear_bit_v v idx =
     (let bit_idx = idx mod N_BITS;
          word = unat (bit_idx div WORD_SIZE);
          bit = unat (bit_idx mod WORD_SIZE)
      in v\<lparr>bitmap := (bitmap v)[word := (bitmap v ! word) AND NOT (push_bit bit 1)]\<rparr>)"

definition clear_word_v :: "ReceivingKeyCounterValidator \<Rightarrow> u64 \<Rightarrow> ReceivingKeyCounterValidator" where
  "clear_word_v v idx =
     (let bit_idx = idx mod N_BITS;
          word = unat (bit_idx div WORD_SIZE)
      in v\<lparr>bitmap := (bitmap v)[word := 0]\<rparr>)"

definition check_bit_v :: "ReceivingKeyCounterValidator \<Rightarrow> u64 \<Rightarrow> bool" where
  "check_bit_v v idx \<longleftrightarrow>
     (let bit_idx = idx mod N_BITS;
          word = unat (bit_idx div WORD_SIZE);
          bit = unat (bit_idx mod WORD_SIZE)
      in drop_bit bit (bitmap v ! word) AND 1 = 1)"

definition will_accept :: "ReceivingKeyCounterValidator \<Rightarrow> u64 \<Rightarrow> (unit, WireGuardError) result" where
  "will_accept v counter =
     (if nxt v \<le> counter then Ok ()
      else if counter + N_BITS < nxt v then Err InvalidCounter
      else if check_bit_v v counter then Err DuplicateCounter
      else Ok ())"

section \<open>Marking a counter\<close>

text \<open>The three loops over the skipped counters, each on the pair of the validator and \<^verbatim>\<open>i\<close>.\<close>

definition clear_to_alignment where
  "clear_to_alignment counter =
     while_option (\<lambda>(v, i). i mod WORD_SIZE \<noteq> 0 \<and> i < counter)
       (\<lambda>(v, i). (clear_bit_v v i, i + 1))"

definition clear_whole_words where
  "clear_whole_words counter =
     while_option (\<lambda>(v, i). i + WORD_SIZE < counter)
       (\<lambda>(v, i). (clear_word_v v i, (i + WORD_SIZE) AND (0 - WORD_SIZE)))"

definition clear_remaining where
  "clear_remaining counter =
     while_option (\<lambda>(v, i). i < counter) (\<lambda>(v, i). (clear_bit_v v i, i + 1))"

definition mark_did_receive ::
  "ReceivingKeyCounterValidator \<Rightarrow> u64
     \<Rightarrow> ((unit, WireGuardError) result \<times> ReceivingKeyCounterValidator) option" where
  "mark_did_receive v counter =
     (if counter + N_BITS < nxt v then Some (Err InvalidCounter, v)
      else if counter = nxt v then
        Some (Ok (), (set_bit_v v counter)\<lparr>nxt := nxt v + 1\<rparr>)
      else if counter < nxt v then
        (if check_bit_v v counter then Some (Err InvalidCounter, v)
         else Some (Ok (), set_bit_v v counter))
      else do {
        v' \<leftarrow> (if N_BITS \<le> counter - nxt v
               then Some (v\<lparr>bitmap := map (\<lambda>_. 0) (bitmap v)\<rparr>)
               else do {
                 s1 \<leftarrow> clear_to_alignment counter (v, nxt v);
                 s2 \<leftarrow> clear_whole_words counter s1;
                 s3 \<leftarrow> clear_remaining counter s2;
                 Some (fst s3)
               });
        Some (Ok (), (set_bit_v v' counter)\<lparr>nxt := counter + 1\<rparr>)
      })"

section \<open>Reading the bitmap at natural-number positions\<close>

definition vbit :: "ReceivingKeyCounterValidator \<Rightarrow> nat \<Rightarrow> bool" where
  "vbit v n \<longleftrightarrow> bit (bitmap v ! (n div 64 mod 16)) (n mod 64)"

definition wf_validator :: "ReceivingKeyCounterValidator \<Rightarrow> bool" where
  "wf_validator v \<longleftrightarrow> length (bitmap v) = 16"

lemma N_BITS_1024: "N_BITS = 1024"
  by (simp add: N_BITS_def WORD_SIZE_def N_WORDS_def)

lemma mod_1024: "(n::nat) mod 1024 = 64 * (n div 64 mod 16) + n mod 64"
  using mod_mult2_eq [of n 64 16] by simp

lemma word_index:
  "unat (idx mod N_BITS div WORD_SIZE) = unat idx div 64 mod 16"
  "unat (idx mod N_BITS mod WORD_SIZE) = unat idx mod 64"
proof -
  have "unat (idx mod N_BITS div WORD_SIZE) = unat idx mod 1024 div 64"
    by (simp add: N_BITS_1024 WORD_SIZE_def unat_div unat_mod)
  then show "unat (idx mod N_BITS div WORD_SIZE) = unat idx div 64 mod 16"
    by (simp add: mod_1024)
  have "unat (idx mod N_BITS mod WORD_SIZE) = unat idx mod 1024 mod 64"
    by (simp add: N_BITS_1024 WORD_SIZE_def unat_mod)
  then show "unat (idx mod N_BITS mod WORD_SIZE) = unat idx mod 64"
    by (simp add: mod_1024)
qed

lemma check_bit_vbit: "check_bit_v v idx = vbit v (unat idx)"
  by (simp add: check_bit_v_def vbit_def word_index Let_def and_one_eq bit_iff_odd_drop_bit
      mod_2_eq_odd)

text \<open>Two positions share a bit exactly when they agree modulo 1024.\<close>

lemma same_bit_iff: "a div 64 mod 16 = b div 64 mod 16 \<and> a mod 64 = b mod 64 \<longleftrightarrow> a mod 1024 = (b::nat) mod 1024"
proof
  assume "a mod 1024 = b mod 1024"
  then have e: "64 * (a div 64 mod 16) + a mod 64 = 64 * (b div 64 mod 16) + b mod 64"
    by (simp add: mod_1024)
  have "(64 * (a div 64 mod 16) + a mod 64) div 64 = a div 64 mod 16"
    "(64 * (b div 64 mod 16) + b mod 64) div 64 = b div 64 mod 16" by simp_all
  with e show "a div 64 mod 16 = b div 64 mod 16 \<and> a mod 64 = b mod 64" by simp
qed (simp add: mod_1024)

lemma vbit_set:
  assumes "wf_validator v"
  shows "vbit (set_bit_v v idx) n \<longleftrightarrow> n mod 1024 = unat idx mod 1024 \<or> vbit v n"
proof -
  have "n mod 64 < 64" by simp
  with assms show ?thesis
    unfolding same_bit_iff [symmetric]
    by (auto simp: vbit_def set_bit_v_def word_index Let_def wf_validator_def nth_list_update
        bit_simps)
qed

lemma vbit_clear:
  assumes "wf_validator v"
  shows "vbit (clear_bit_v v idx) n \<longleftrightarrow> n mod 1024 \<noteq> unat idx mod 1024 \<and> vbit v n"
proof -
  have "n mod 64 < 64" by simp
  with assms show ?thesis
    unfolding same_bit_iff [symmetric]
    by (auto simp: vbit_def clear_bit_v_def word_index Let_def wf_validator_def nth_list_update
        bit_simps)
qed

lemma vbit_clear_word:
  assumes "wf_validator v"
  shows "vbit (clear_word_v v idx) n \<longleftrightarrow> n div 64 mod 16 \<noteq> unat idx div 64 mod 16 \<and> vbit v n"
  using assms
  by (auto simp: vbit_def clear_word_v_def word_index Let_def wf_validator_def nth_list_update)

lemma validator_frame [simp]:
  "wf_validator (set_bit_v v i) = wf_validator v" "nxt (set_bit_v v i) = nxt v"
  "receive_cnt (set_bit_v v i) = receive_cnt v"
  "wf_validator (clear_bit_v v i) = wf_validator v" "nxt (clear_bit_v v i) = nxt v"
  "receive_cnt (clear_bit_v v i) = receive_cnt v"
  "wf_validator (clear_word_v v i) = wf_validator v" "nxt (clear_word_v v i) = nxt v"
  "receive_cnt (clear_word_v v i) = receive_cnt v"
  "wf_validator (v\<lparr>nxt := x\<rparr>) = wf_validator v" "vbit (v\<lparr>nxt := x\<rparr>) = vbit v"
  "wf_validator (v\<lparr>receive_cnt := y\<rparr>) = wf_validator v" "vbit (v\<lparr>receive_cnt := y\<rparr>) = vbit v"
  by (simp_all add: set_bit_v_def clear_bit_v_def clear_word_v_def Let_def wf_validator_def
      vbit_def fun_eq_iff)

section \<open>The clearing loops\<close>

text \<open>
  \<open>cleared v0 i0 v i\<close>: \<open>v\<close> is \<open>v0\<close> with the bits of the counters from \<open>i0\<close> up to but excluding
  \<open>i\<close> cleared.  Each loop extends the cleared range; together they clear everything between the
  old \<^verbatim>\<open>next\<close> and the new counter.
\<close>

definition cleared :: "ReceivingKeyCounterValidator \<Rightarrow> nat \<Rightarrow> ReceivingKeyCounterValidator \<Rightarrow> nat \<Rightarrow> bool" where
  "cleared v0 i0 v i \<longleftrightarrow>
     wf_validator v \<and> nxt v = nxt v0 \<and> receive_cnt v = receive_cnt v0 \<and>
     (\<forall>m. vbit v m \<longleftrightarrow> vbit v0 m \<and> (\<forall>j. i0 \<le> j \<and> j < i \<longrightarrow> j mod 1024 \<noteq> m mod 1024))"

lemma cleared_start: "wf_validator v \<Longrightarrow> cleared v i v i"
  by (auto simp: cleared_def)

lemma cleared_bit:
  assumes "cleared v0 i0 v (unat i)" "i0 \<le> unat i"
  shows "cleared v0 i0 (clear_bit_v v i) (Suc (unat i))"
  using assms by (auto simp: cleared_def vbit_clear less_Suc_eq)

lemma aligned_block:
  fixes q :: nat
  shows "(\<forall>j. 64 * q \<le> j \<and> j < 64 * q + 64 \<longrightarrow> j mod 1024 \<noteq> m mod 1024) \<longleftrightarrow>
    m div 64 mod 16 \<noteq> q mod 16"
proof
  assume *: "\<forall>j. 64 * q \<le> j \<and> j < 64 * q + 64 \<longrightarrow> j mod 1024 \<noteq> m mod 1024"
  have "(64 * q + m mod 64) div 64 = q" "(64 * q + m mod 64) mod 64 = m mod 64" by simp_all
  moreover have "(64 * q + m mod 64) mod 1024 \<noteq> m mod 1024" using * by simp
  ultimately show "m div 64 mod 16 \<noteq> q mod 16"
    using same_bit_iff [of "64 * q + m mod 64" m] by auto
next
  assume *: "m div 64 mod 16 \<noteq> q mod 16"
  show "\<forall>j. 64 * q \<le> j \<and> j < 64 * q + 64 \<longrightarrow> j mod 1024 \<noteq> m mod 1024"
  proof (intro allI impI)
    fix j assume "64 * q \<le> j \<and> j < 64 * q + 64"
    then have "j div 64 = q" by auto
    with * show "j mod 1024 \<noteq> m mod 1024" using same_bit_iff [of j m] by auto
  qed
qed

lemma range_split:
  fixes a b c :: nat
  assumes "a \<le> b" "b \<le> c"
  shows "(\<forall>j. a \<le> j \<and> j < c \<longrightarrow> P j) \<longleftrightarrow>
    (\<forall>j. a \<le> j \<and> j < b \<longrightarrow> P j) \<and> (\<forall>j. b \<le> j \<and> j < c \<longrightarrow> P j)"
  using assms le_less_linear by (meson le_trans less_le_trans)

lemma cleared_word:
  assumes "cleared v0 i0 v (unat i)" "i0 \<le> unat i" "unat i mod 64 = 0"
  shows "cleared v0 i0 (clear_word_v v i) (unat i + 64)"
proof -
  obtain q where q: "unat i = 64 * q" using assms(3) by (metis mod_0_imp_dvd dvd_def)
  have split: "(\<forall>j. i0 \<le> j \<and> j < 64 * q + 64 \<longrightarrow> P j) \<longleftrightarrow>
      (\<forall>j. i0 \<le> j \<and> j < 64 * q \<longrightarrow> P j) \<and> (\<forall>j. 64 * q \<le> j \<and> j < 64 * q + 64 \<longrightarrow> P j)" for P
    using assms(2) q by (intro range_split) simp_all
  have d: "unat i div 64 = q" using q by simp
  have wf: "wf_validator v" using assms(1) by (simp add: cleared_def)
  have old: "vbit v m \<longleftrightarrow> vbit v0 m \<and> (\<forall>j. i0 \<le> j \<and> j < 64 * q \<longrightarrow> j mod 1024 \<noteq> m mod 1024)" for m
    using assms(1) unfolding cleared_def q by blast
  have new: "vbit (clear_word_v v i) m \<longleftrightarrow> m div 64 mod 16 \<noteq> q mod 16 \<and> vbit v m" for m
    using vbit_clear_word [OF wf, of i m] unfolding d .
  show ?thesis
    unfolding cleared_def q split aligned_block new old
    using assms(1) wf unfolding cleared_def by auto
qed

lemma unat_succ: "i < (counter :: u64) \<Longrightarrow> unat (i + 1) = Suc (unat i)"
  using unat_u64_bound [of counter] by (simp add: word_less_nat_alt unat_word_ariths)

lemma unat_add_64: "unat (i :: u64) + 64 < 2 ^ 64 \<Longrightarrow> unat (i + 64) = unat i + 64"
  by (simp add: unat_word_ariths)

lemma mod_64_word: "(i :: u64) mod WORD_SIZE = 0 \<longleftrightarrow> unat i mod 64 = 0"
  by (simp add: WORD_SIZE_def unat_eq_zero [symmetric] unat_mod del: unat_eq_zero)

lemma and_minus_64: "unat (x :: u64) mod 64 = 0 \<Longrightarrow> x AND (0 - WORD_SIZE) = x"
proof -
  assume "unat x mod 64 = 0"
  then have "x mod 64 = 0" using mod_64_word [of x] by (simp add: WORD_SIZE_def)
  then have "take_bit 6 x = 0" by (simp add: take_bit_eq_mod)
  then have low: "\<not> bit x n" if "n < 6" for n
    using that by (metis bit_0_eq bit_take_bit_iff bot_apply bot_bool_def)
  have "(0 - WORD_SIZE :: u64) = NOT (mask 6)"
    by (simp add: WORD_SIZE_def mask_eq_exp_minus_1)
  then show ?thesis
    by (auto intro!: bit_word_eqI simp: bit_simps) (use low not_le in blast)
qed

lemma clear_to_alignment_total:
  assumes "cleared v0 i0 v (unat i)" "i0 \<le> unat i" "unat i \<le> unat counter"
  obtains v' i' where "clear_to_alignment counter (v, i) = Some (v', i')"
    "cleared v0 i0 v' (unat i')" "i0 \<le> unat i'" "unat i' \<le> unat counter"
    "unat i' mod 64 = 0 \<or> i' = counter"
proof -
  let ?P = "\<lambda>(v, i). cleared v0 i0 v (unat i) \<and> i0 \<le> unat i \<and> unat i \<le> unat counter"
  obtain t where t: "clear_to_alignment counter (v, i) = Some t" "?P t"
    "\<not> (case t of (v, i) \<Rightarrow> i mod WORD_SIZE \<noteq> 0 \<and> i < counter)"
    unfolding clear_to_alignment_def
  proof (rule while_option_total [where P = ?P and f = "\<lambda>(v, i). unat counter - unat i"])
    show "?P (v, i)" using assms by simp
    show "?P (case s of (v, i) \<Rightarrow> (clear_bit_v v i, i + 1)) \<and>
        (case (case s of (v, i) \<Rightarrow> (clear_bit_v v i, i + 1)) of (v, i) \<Rightarrow> unat counter - unat i)
          < (case s of (v, i) \<Rightarrow> unat counter - unat i)"
      if "?P s" "case s of (v, i) \<Rightarrow> i mod WORD_SIZE \<noteq> 0 \<and> i < counter" for s
      using that by (cases s) (auto simp: unat_succ cleared_bit word_less_nat_alt)
  qed
  obtain v' i' where t': "t = (v', i')" by force
  have "unat i' mod 64 = 0 \<or> i' = counter"
    using t mod_64_word [of i'] unfolding t' by (auto simp: word_less_nat_alt word_unat_eq_iff)
  with t that show ?thesis unfolding t' by simp
qed

lemma clear_whole_words_total:
  assumes "cleared v0 i0 v (unat i)" "i0 \<le> unat i" "unat i \<le> unat counter"
    and "unat i mod 64 = 0 \<or> i = counter" and "unat counter + 64 < 2 ^ 64"
  obtains v' i' where "clear_whole_words counter (v, i) = Some (v', i')"
    "cleared v0 i0 v' (unat i')" "i0 \<le> unat i'" "unat i' \<le> unat counter"
proof -
  let ?P = "\<lambda>(v, i). cleared v0 i0 v (unat i) \<and> i0 \<le> unat i \<and> unat i \<le> unat counter
    \<and> (unat i mod 64 = 0 \<or> i = counter)"
  have next_word: "unat ((i + WORD_SIZE) AND (0 - WORD_SIZE)) = unat i + 64
      \<and> unat i + 64 < unat counter \<and> unat i mod 64 = 0"
    if "unat i \<le> unat counter" "unat i mod 64 = 0 \<or> i = counter" "i + WORD_SIZE < counter" for i
  proof -
    have u: "unat (i + WORD_SIZE) = unat i + 64"
      using that(1) assms(5) unat_add_64 [of i] by (simp add: WORD_SIZE_def)
    with that(3) have lt: "unat i + 64 < unat counter" by (simp add: word_less_nat_alt)
    with that(2) have al: "unat i mod 64 = 0" by auto
    with u have "unat (i + WORD_SIZE) mod 64 = 0" by simp
    then show ?thesis using u lt al and_minus_64 [of "i + WORD_SIZE"] by simp
  qed
  obtain t where t: "clear_whole_words counter (v, i) = Some t" "?P t"
    unfolding clear_whole_words_def
  proof (rule while_option_total [where P = ?P and f = "\<lambda>(v, i). unat counter - unat i"])
    show "?P (v, i)" using assms by simp
    show "?P (case s of (v, i) \<Rightarrow> (clear_word_v v i, (i + WORD_SIZE) AND (0 - WORD_SIZE))) \<and>
        (case (case s of (v, i) \<Rightarrow> (clear_word_v v i, (i + WORD_SIZE) AND (0 - WORD_SIZE)))
          of (v, i) \<Rightarrow> unat counter - unat i) < (case s of (v, i) \<Rightarrow> unat counter - unat i)"
      if "?P s" "case s of (v, i) \<Rightarrow> i + WORD_SIZE < counter" for s
    proof (cases s)
      case (Pair v i)
      note n = next_word [of i] and c = cleared_word [of v0 i0 v i]
      show ?thesis using that n c unfolding Pair by auto
    qed
  qed
  obtain v' i' where "t = (v', i')" by force
  with t that show ?thesis by simp
qed

lemma clear_remaining_total:
  assumes "cleared v0 i0 v (unat i)" "i0 \<le> unat i" "unat i \<le> unat counter"
  obtains v' where "clear_remaining counter (v, i) = Some (v', counter)"
    "cleared v0 i0 v' (unat counter)"
proof -
  let ?P = "\<lambda>(v, i). cleared v0 i0 v (unat i) \<and> i0 \<le> unat i \<and> unat i \<le> unat counter"
  obtain t where t: "clear_remaining counter (v, i) = Some t" "?P t"
    "\<not> (case t of (v, i) \<Rightarrow> i < counter)"
    unfolding clear_remaining_def
  proof (rule while_option_total [where P = ?P and f = "\<lambda>(v, i). unat counter - unat i"])
    show "?P (v, i)" using assms by simp
    show "?P (case s of (v, i) \<Rightarrow> (clear_bit_v v i, i + 1)) \<and>
        (case (case s of (v, i) \<Rightarrow> (clear_bit_v v i, i + 1)) of (v, i) \<Rightarrow> unat counter - unat i)
          < (case s of (v, i) \<Rightarrow> unat counter - unat i)"
      if "?P s" "case s of (v, i) \<Rightarrow> i < counter" for s
      using that by (cases s) (auto simp: unat_succ cleared_bit word_less_nat_alt)
  qed
  obtain v' i' where t': "t = (v', i')" by force
  have "i' = counter" using t unfolding t' by (auto simp: word_less_nat_alt word_unat_eq_iff)
  with t that show ?thesis unfolding t' by simp
qed

text \<open>The loops together: they end, and exactly the skipped counters are cleared.\<close>

lemma clear_skipped:
  assumes "wf_validator v" "nxt v < counter" "unat counter + 64 < 2 ^ 64"
  obtains v' where
    "do { s1 \<leftarrow> clear_to_alignment counter (v, nxt v); s2 \<leftarrow> clear_whole_words counter s1;
          s3 \<leftarrow> clear_remaining counter s2; Some (fst s3) } = Some v'"
    "cleared v (unat (nxt v)) v' (unat counter)"
proof -
  have le: "unat (nxt v) \<le> unat counter" using assms(2) by (simp add: word_less_nat_alt)
  obtain v1 i1 where 1: "clear_to_alignment counter (v, nxt v) = Some (v1, i1)"
    "cleared v (unat (nxt v)) v1 (unat i1)" "unat (nxt v) \<le> unat i1" "unat i1 \<le> unat counter"
    "unat i1 mod 64 = 0 \<or> i1 = counter"
    using clear_to_alignment_total [OF cleared_start [OF assms(1)] order_refl le] by metis
  obtain v2 i2 where 2: "clear_whole_words counter (v1, i1) = Some (v2, i2)"
    "cleared v (unat (nxt v)) v2 (unat i2)" "unat (nxt v) \<le> unat i2" "unat i2 \<le> unat counter"
    using clear_whole_words_total [OF 1(2-5) assms(3)] by metis
  obtain v3 where "clear_remaining counter (v2, i2) = Some (v3, counter)"
    "cleared v (unat (nxt v)) v3 (unat counter)"
    using clear_remaining_total [OF 2(2-4)] by metis
  with 1 2 that show ?thesis by simp
qed

section \<open>Refinement of the set of received counters\<close>

text \<open>
  The specification: \<open>n\<close> is one more than the highest accepted counter, \<open>S\<close> the set of accepted
  counters.  A counter is accepted if it is new and at most 1024 below \<open>n\<close>.
\<close>

definition spec_accepts :: "nat \<Rightarrow> nat set \<Rightarrow> nat \<Rightarrow> bool" where
  "spec_accepts n S k \<longleftrightarrow> n \<le> k + 1024 \<and> k \<notin> S"

definition spec_next :: "nat \<Rightarrow> nat \<Rightarrow> nat" where
  "spec_next n k = max n (Suc k)"

definition window_inv :: "ReceivingKeyCounterValidator \<Rightarrow> nat set \<Rightarrow> bool" where
  "window_inv v S \<longleftrightarrow>
     wf_validator v \<and> (\<forall>k\<in>S. k < unat (nxt v)) \<and>
     (\<forall>k < unat (nxt v). unat (nxt v) \<le> k + 1024 \<longrightarrow> (vbit v k \<longleftrightarrow> k \<in> S))"

lemma nxt_default [simp]: "nxt validator_default = 0"
  by (simp add: validator_default_def)

lemma window_inv_default: "window_inv validator_default {}"
  by (simp add: window_inv_def validator_default_def wf_validator_def)

lemma mod_1024_neq: "a < b \<Longrightarrow> b < a + 1024 \<Longrightarrow> a mod 1024 \<noteq> b mod (1024::nat)"
proof
  assume "a < b" "b < a + 1024" "a mod 1024 = b mod 1024"
  then have "1024 dvd b - a" using mod_eq_dvd_iff_nat [of a b 1024] by simp
  moreover have "0 < b - a" "b - a < 1024" using \<open>a < b\<close> \<open>b < a + 1024\<close> by linarith+
  ultimately show False using nat_dvd_not_less by blast
qed

lemma mod_1024_eqD:
  "a mod 1024 = b mod (1024::nat) \<Longrightarrow> a < b + 1024 \<Longrightarrow> b < a + 1024 \<Longrightarrow> a = b"
  using mod_1024_neq [of a b] mod_1024_neq [of b a] by linarith

lemma unat_add_N_BITS:
  "unat (k + N_BITS) = (if unat k + 1024 < 2 ^ 64 then unat k + 1024 else unat k + 1024 - 2 ^ 64)"
  using unat_u64_bound [of k] by (simp add: N_BITS_1024 unat_word_ariths mod_if)

text \<open>Once the far-behind test has passed, the counter is inside the window, wrapped or not.\<close>

lemma in_window: "\<not> k + N_BITS < nxt v \<Longrightarrow> unat (nxt v) \<le> unat k + 1024"
  using unat_u64_bound [of "nxt v"] by (auto simp: word_less_nat_alt unat_add_N_BITS split: if_splits)

lemma window_insert:
  assumes "window_inv v S" "wf_validator v'" "\<And>m. vbit v' m \<longleftrightarrow> m mod 1024 = k mod 1024 \<or> vbit v m"
    and "unat (nxt v) \<le> k + 1024" "k \<le> unat (nxt v)" "unat (nxt v') = spec_next (unat (nxt v)) k"
  shows "window_inv v' (insert k S)"
  unfolding window_inv_def
proof (intro conjI allI impI ballI)
  show "wf_validator v'" by fact
  show "x < unat (nxt v')" if "x \<in> insert k S" for x
    using that assms(1,6) by (auto simp: window_inv_def spec_next_def less_max_iff_disj)
  show "vbit v' x = (x \<in> insert k S)" if "x < unat (nxt v')" "unat (nxt v') \<le> x + 1024" for x
  proof (cases "x = k")
    case True
    then show ?thesis using assms(3) by simp
  next
    case False
    with that assms(4-6) have x: "x < unat (nxt v)" "unat (nxt v) \<le> x + 1024"
      by (auto simp: spec_next_def max_def split: if_splits)
    have "x mod 1024 \<noteq> k mod 1024"
      using False mod_1024_eqD [of x k] that x assms(4-6) by (auto simp: spec_next_def)
    with x assms(1,3) False show ?thesis by (simp add: window_inv_def)
  qed
qed

lemma window_jump:
  assumes "window_inv v S" "wf_validator v'" "unat (nxt v) < k" "unat (nxt v') = Suc k"
    and bits: "\<And>m. m < unat (nxt v) \<Longrightarrow> k < m + 1024 \<Longrightarrow> vbit v' m \<longleftrightarrow> vbit v m"
      "\<And>m. unat (nxt v) \<le> m \<Longrightarrow> m < k \<Longrightarrow> k < m + 1024 \<Longrightarrow> \<not> vbit v' m" "vbit v' k"
  shows "window_inv v' (insert k S)"
  unfolding window_inv_def
proof (intro conjI allI impI ballI)
  show "wf_validator v'" by fact
  show "x < unat (nxt v')" if "x \<in> insert k S" for x
    using that assms(1,3,4) by (auto simp: window_inv_def)
  show "vbit v' x = (x \<in> insert k S)" if x: "x < unat (nxt v')" "unat (nxt v') \<le> x + 1024" for x
  proof -
    consider "x = k" | "x < unat (nxt v)" | "unat (nxt v) \<le> x" "x < k"
      using x(1) assms(3,4) by linarith
    then show ?thesis
    proof cases
      case 1
      then show ?thesis using bits(3) by simp
    next
      case 2
      with x assms(1,3,4) bits(1) [of x] show ?thesis by (auto simp: window_inv_def)
    next
      case 3
      then have "x \<notin> S" using assms(1) by (auto simp: window_inv_def)
      with 3 x bits(2) [of x] assms(4) show ?thesis by auto
    qed
  qed
qed

text \<open>
  One call of \<^verbatim>\<open>mark_did_receive\<close>, branch by branch.  \<open>mark_ok\<close> says that the call returned
  success and that the new state is the specification's.
\<close>

definition mark_ok :: "ReceivingKeyCounterValidator \<Rightarrow> nat set \<Rightarrow> u64 \<Rightarrow> ReceivingKeyCounterValidator \<Rightarrow> bool" where
  "mark_ok v S k v' \<longleftrightarrow>
     mark_did_receive v k = Some (Ok (), v') \<and> spec_accepts (unat (nxt v)) S (unat k) \<and>
     window_inv v' (insert (unat k) S) \<and> unat (nxt v') = spec_next (unat (nxt v)) (unat k) \<and>
     receive_cnt v' = receive_cnt v"

lemma window_invD:
  assumes "window_inv v S"
  shows "wf_validator v" "\<And>x. x \<in> S \<Longrightarrow> x < unat (nxt v)"
    "\<And>x. x < unat (nxt v) \<Longrightarrow> unat (nxt v) \<le> x + 1024 \<Longrightarrow> vbit v x \<longleftrightarrow> x \<in> S"
  using assms by (auto simp: window_inv_def)

lemma unat_max_u64: "unat (- 1 :: u64) = 18446744073709551615"
  by (simp add: unsigned_minus_1_eq_mask mask_eq_exp_minus_1)

lemma unat_succ_max: "(k :: u64) \<noteq> - 1 \<Longrightarrow> unat (k + 1) = Suc (unat k)"
  using unat_u64_bound [of k] by (auto simp: word_unat_eq_iff unat_word_ariths unat_max_u64)

lemma mark_at_next:
  assumes inv: "window_inv v S" and "k \<noteq> - 1" "k = nxt v" "\<not> k + N_BITS < nxt v"
  shows "mark_ok v S k (set_bit_v v k\<lparr>nxt := nxt v + 1\<rparr>)"
proof -
  have n: "unat (nxt v + 1) = spec_next (unat (nxt v)) (unat k)"
    using assms unat_succ_max [of k] by (simp add: spec_next_def)
  moreover have "window_inv (set_bit_v v k\<lparr>nxt := nxt v + 1\<rparr>) (insert (unat k) S)"
    using assms n window_invD(1) [OF inv] by (intro window_insert [of v]) (auto simp: vbit_set)
  ultimately show ?thesis
    using assms window_invD(2) [OF inv]
    by (fastforce simp: mark_ok_def mark_did_receive_def spec_accepts_def)
qed

lemma check_bit_in_window:
  assumes "window_inv v S" "k < nxt v" "\<not> k + N_BITS < nxt v"
  shows "check_bit_v v k \<longleftrightarrow> unat k \<in> S"
  using assms in_window [of k v] by (simp add: window_inv_def check_bit_vbit word_less_nat_alt)

lemma mark_below_next:
  assumes inv: "window_inv v S" and "k < nxt v" "\<not> k + N_BITS < nxt v" "\<not> check_bit_v v k"
  shows "mark_ok v S k (set_bit_v v k)"
proof -
  have ul: "unat k < unat (nxt v)" using assms by (simp add: word_less_nat_alt)
  note win = in_window [OF assms(3)]
  have "window_inv (set_bit_v v k) (insert (unat k) S)"
    using inv ul win window_invD(1) [OF inv]
    by (intro window_insert [of v]) (auto simp: vbit_set spec_next_def)
  then show ?thesis
    using assms win ul check_bit_in_window [OF assms(1-3)]
    by (auto simp: mark_ok_def mark_did_receive_def spec_accepts_def spec_next_def)
qed

lemma mark_above_next:
  assumes inv: "window_inv v S" and k: "k \<noteq> - 1" "nxt v < k"
    and v': "wf_validator v'" "receive_cnt v' = receive_cnt v"
      "\<And>m. m < unat (nxt v) \<Longrightarrow> unat k < m + 1024 \<Longrightarrow> vbit v' m \<longleftrightarrow> vbit v m"
      "\<And>m. unat (nxt v) \<le> m \<Longrightarrow> m < unat k \<Longrightarrow> unat k < m + 1024 \<Longrightarrow> \<not> vbit v' m"
    and mark: "mark_did_receive v k = Some (Ok (), set_bit_v v' k\<lparr>nxt := k + 1\<rparr>)"
  shows "mark_ok v S k (set_bit_v v' k\<lparr>nxt := k + 1\<rparr>)"
proof -
  have ug: "unat (nxt v) < unat k" using k by (simp add: word_less_nat_alt)
  have "window_inv (set_bit_v v' k\<lparr>nxt := k + 1\<rparr>) (insert (unat k) S)"
    using inv ug v' unat_succ_max [OF k(1)] mod_1024_neq [of _ "unat k"]
    by (intro window_jump [of v]) (auto simp: vbit_set)
  moreover have "unat k \<notin> S" using window_invD(2) [OF inv] ug by force
  ultimately show ?thesis
    using mark v' ug unat_succ_max [OF k(1)]
    by (simp add: mark_ok_def spec_accepts_def spec_next_def)
qed

lemma mark_far_ahead:
  assumes inv: "window_inv v S" and k: "k \<noteq> - 1" "nxt v < k" "\<not> k + N_BITS < nxt v"
    and far: "N_BITS \<le> k - nxt v"
  shows "\<exists>v'. mark_ok v S k v'"
proof -
  let ?c = "v\<lparr>bitmap := map (\<lambda>_. 0) (bitmap v)\<rparr>"
  have "unat (k - nxt v) = unat k - unat (nxt v)"
    using k by (simp add: unat_sub word_less_nat_alt word_le_nat_alt)
  then have "unat (nxt v) + 1024 \<le> unat k"
    using far k by (simp add: word_le_nat_alt word_less_nat_alt N_BITS_1024)
  moreover have "\<not> vbit ?c m" for m
    using window_invD(1) [OF inv] by (simp add: vbit_def wf_validator_def)
  moreover have "mark_did_receive v k = Some (Ok (), set_bit_v ?c k\<lparr>nxt := k + 1\<rparr>)"
    using k far by (auto simp: mark_did_receive_def)
  ultimately have "mark_ok v S k (set_bit_v ?c k\<lparr>nxt := k + 1\<rparr>)"
    using window_invD(1) [OF inv]
    by (intro mark_above_next [OF inv k(1,2), of ?c]) (auto simp: wf_validator_def)
  then show ?thesis ..
qed

lemma mark_ahead:
  assumes inv: "window_inv v S" and k: "k \<noteq> - 1" "nxt v < k" "\<not> k + N_BITS < nxt v"
    and close: "\<not> N_BITS \<le> k - nxt v"
  shows "\<exists>v'. mark_ok v S k v'"
proof -
  have ug: "unat (nxt v) < unat k" using k by (simp add: word_less_nat_alt)
  have "unat (k - nxt v) = unat k - unat (nxt v)"
    using k by (simp add: unat_sub word_less_nat_alt word_le_nat_alt)
  then have near: "unat k < unat (nxt v) + 1024"
    using close ug by (simp add: word_le_nat_alt N_BITS_1024)
  then have "unat k + 64 < 2 ^ 64"
    using k(3) unat_u64_bound [of "nxt v"] ug
    by (auto simp: word_less_nat_alt unat_add_N_BITS split: if_splits)
  then obtain v' where loop:
      "do { s1 \<leftarrow> clear_to_alignment k (v, nxt v); s2 \<leftarrow> clear_whole_words k s1;
            s3 \<leftarrow> clear_remaining k s2; Some (fst s3) } = Some v'"
    and cl: "cleared v (unat (nxt v)) v' (unat k)"
    using clear_skipped [OF window_invD(1) [OF inv] k(2)] by blast
  have keep: "vbit v' m \<longleftrightarrow> vbit v m" if m: "m < unat (nxt v)" "unat k < m + 1024" for m
  proof -
    have "j mod 1024 \<noteq> m mod 1024" if "unat (nxt v) \<le> j \<and> j < unat k" for j
      using that m mod_1024_neq [of m j] by simp
    then show ?thesis using cl unfolding cleared_def by blast
  qed
  have gone: "\<not> vbit v' m" if "unat (nxt v) \<le> m" "m < unat k" for m
    using cl that unfolding cleared_def by blast
  have "mark_did_receive v k = Some (Ok (), set_bit_v v' k\<lparr>nxt := k + 1\<rparr>)"
    using k close loop by (auto simp: mark_did_receive_def)
  with keep gone cl have "mark_ok v S k (set_bit_v v' k\<lparr>nxt := k + 1\<rparr>)"
    unfolding cleared_def by (intro mark_above_next [OF inv k(1,2), of v']) blast+
  then show ?thesis ..
qed

lemma mark_did_receive_step:
  assumes inv: "window_inv v S" and max: "k \<noteq> - 1"
  obtains (refuse) e where "mark_did_receive v k = Some (Err e, v)"
      "unat k + 1024 < 2 ^ 64 \<Longrightarrow> \<not> spec_accepts (unat (nxt v)) S (unat k)"
    | (accept) v' where "mark_ok v S k v'"
proof (cases "k + N_BITS < nxt v")
  case True
  show ?thesis
    by (rule refuse) (use True in \<open>auto simp: mark_did_receive_def spec_accepts_def
        word_less_nat_alt unat_add_N_BITS\<close>)
next
  case near: False
  consider (eq) "k = nxt v" | (less) "k < nxt v" | (greater) "nxt v < k" by fastforce
  then show ?thesis
  proof cases
    case eq
    then show ?thesis using accept mark_at_next [OF inv max _ near] by blast
  next
    case less
    show ?thesis
    proof (cases "check_bit_v v k")
      case True
      show ?thesis
        by (rule refuse [of InvalidCounter])
          (use True near less check_bit_in_window [OF inv less near] in
            \<open>auto simp: mark_did_receive_def spec_accepts_def\<close>)
    next
      case False
      then show ?thesis using accept mark_below_next [OF inv less near] by blast
    qed
  next
    case greater
    then show ?thesis
      using accept mark_far_ahead [OF inv max _ near] mark_ahead [OF inv max _ near] by blast
  qed
qed

section \<open>Theorems\<close>

lemma will_accept_spec:
  assumes "window_inv v S"
  shows "is_ok (will_accept v k) \<longleftrightarrow>
    nxt v \<le> k \<or> (\<not> k + N_BITS < nxt v \<and> unat k \<notin> S)"
proof (cases "nxt v \<le> k")
  case True
  then show ?thesis by (simp add: will_accept_def)
next
  case False
  then have "k < nxt v" by simp
  with False show ?thesis
    using check_bit_in_window [OF assms, of k] by (auto simp: will_accept_def)
qed

text \<open>The validator as a replay filter over counters.\<close>

definition mark_step :: "ReceivingKeyCounterValidator \<Rightarrow> u64 \<Rightarrow> bool \<times> ReceivingKeyCounterValidator" where
  "mark_step v k =
     (case mark_did_receive v k of
        Some (Ok _, v') \<Rightarrow> (True, v')
      | Some (Err _, v') \<Rightarrow> (False, v')
      | None \<Rightarrow> (False, v))"

lemma mark_max_counter:
  assumes "window_inv v S"
  obtains (refuse) e where "mark_did_receive v (- 1) = Some (Err e, v)"
    | (reset) v' where "mark_did_receive v (- 1) = Some (Ok (), v')" "window_inv v' {}" "nxt v' = 0"
proof (cases "- 1 + N_BITS < nxt v")
  case True
  then show ?thesis by (intro refuse) (simp add: mark_did_receive_def)
next
  case False
  then have n: "unat (nxt v) \<le> 1023"
    by (simp add: N_BITS_1024 word_less_nat_alt)
  then have m: "nxt v \<noteq> - 1" by (auto simp: unat_max_u64)
  have "unat (- 1 - nxt v) = 18446744073709551615 - unat (nxt v)"
    by (subst unat_sub) (simp_all add: unat_max_u64)
  then have "N_BITS \<le> - 1 - nxt v" using n by (simp add: N_BITS_1024 word_le_nat_alt)
  then have "mark_did_receive v (- 1) =
      Some (Ok (), set_bit_v (v\<lparr>bitmap := map (\<lambda>_. 0) (bitmap v)\<rparr>) (- 1)\<lparr>nxt := 0\<rparr>)"
    using False m by (simp add: mark_did_receive_def Let_def)
  moreover have "window_inv (set_bit_v (v\<lparr>bitmap := map (\<lambda>_. 0) (bitmap v)\<rparr>) (- 1)\<lparr>nxt := 0\<rparr>) {}"
    using window_invD(1) [OF assms] by (simp add: window_inv_def wf_validator_def set_bit_v_def Let_def)
  ultimately show ?thesis by (rule reset) simp
qed

lemma mark_step_cases:
  assumes "window_inv v S" "k \<noteq> - 1"
  shows "mark_step v k = (False, v) \<or>
    (\<exists>v'. mark_step v k = (True, v') \<and> unat k \<notin> S \<and> window_inv v' (insert (unat k) S))"
proof (rule mark_did_receive_step [OF assms])
  fix e assume "mark_did_receive v k = Some (Err e, v)"
  then show ?thesis by (simp add: mark_step_def)
next
  fix v' assume "mark_ok v S k v'"
  then show ?thesis by (simp add: mark_step_def mark_ok_def spec_accepts_def)
qed

lemma mark_step_iff:
  assumes inv: "window_inv v S"
  shows "fst (mark_step v k) \<longleftrightarrow> \<not> k + N_BITS < nxt v \<and> unat k \<notin> S"
proof (cases "k = - 1")
  case True
  have "unat (- 1 :: u64) \<notin> S"
    using window_invD(2) [OF inv, of "unat (- 1 :: u64)"] unat_u64_bound [of "nxt v"] by (auto simp: unat_max_u64)
  with inv True show ?thesis
    by (cases rule: mark_max_counter) (auto simp: mark_step_def mark_did_receive_def bind_eq_Some_conv split: if_splits)
next
  case False
  with inv show ?thesis
  proof (cases rule: mark_did_receive_step)
    case (refuse e)
    then show ?thesis
      using check_bit_in_window [OF inv, of k]
      by (auto simp: mark_step_def mark_did_receive_def split: if_splits bind_splits)
  next
    case (accept v')
    then show ?thesis
      by (auto simp: mark_step_def mark_ok_def spec_accepts_def) (auto simp: mark_did_receive_def)
  qed
qed

lemma mark_step_max:
  assumes "window_inv v S" "mark_step v (- 1) = (True, v')"
  shows "window_inv v' {}"
  using assms(1) by (cases rule: mark_max_counter) (use assms(2) in \<open>auto simp: mark_step_def\<close>)

lemma mark_step_refuses: "mark_step v k = (False, v') \<Longrightarrow> v' = v"
  by (auto simp: mark_step_def mark_did_receive_def split: option.splits result.splits if_splits bind_splits)

interpretation rw: resetting_filter mark_step "\<lambda>v S. window_inv v (unat ` S)" "\<lambda>k :: u64. k = - 1"
proof
  fix v v' :: ReceivingKeyCounterValidator and S :: "u64 set" and k :: u64
  assume w: "window_inv v (unat ` S)"
  show "k \<notin> S" "window_inv v' (unat ` insert k S)" if "\<not> k = - 1" "mark_step v k = (True, v')"
    using mark_step_cases [OF w, of k] that by auto
  show "window_inv v' (unat ` S)" if "\<not> k = - 1" "mark_step v k = (False, v')"
    using mark_step_refuses [OF that(2)] w by simp
  show "window_inv v' (unat ` {})" if "k = - 1" "mark_step v k = (True, v')"
    using mark_step_max [OF w] that by simp
  show "window_inv v' (unat ` S)" if "k = - 1" "mark_step v k = (False, v')"
    using mark_step_refuses [OF that(2)] w by simp
qed

text \<open>
  C1.  The replay window refines its specification.  From a validator that represents the set
  \<open>S\<close> of received counters, \<^verbatim>\<open>mark_did_receive\<close> terminates (its three loops included), accepts a
  counter exactly when it is not in \<open>S\<close> and at most 1024 behind, then represents \<open>S\<close> with the
  counter added, and on an error leaves the validator as it was.
\<close>

theorem mark_did_receive_refines:
  assumes "window_inv v S" and "unat k + 1024 < 2 ^ 64"
  shows "\<exists>r v'. mark_did_receive v k = Some (r, v') \<and>
    (is_ok r \<longleftrightarrow> spec_accepts (unat (nxt v)) S (unat k)) \<and>
    (is_ok r \<longrightarrow> window_inv v' (insert (unat k) S) \<and>
       unat (nxt v') = spec_next (unat (nxt v)) (unat k)) \<and>
    (\<not> is_ok r \<longrightarrow> v' = v)"
proof -
  have "k \<noteq> - 1" using assms(2) by (auto simp: unat_max_u64)
  with assms(1) show ?thesis
  proof (cases rule: mark_did_receive_step)
    case (refuse e)
    with assms(2) show ?thesis by auto
  next
    case (accept v')
    then show ?thesis by (auto simp: mark_ok_def)
  qed
qed

theorem mark_did_receive_refines_witness:
  "\<exists>r v'. mark_did_receive validator_default 70 = Some (r, v') \<and>
    (is_ok r \<longleftrightarrow> spec_accepts 0 {} 70) \<and>
    (is_ok r \<longrightarrow> window_inv v' {70} \<and> unat (nxt v') = 71) \<and>
    (\<not> is_ok r \<longrightarrow> v' = validator_default)"
  using mark_did_receive_refines [OF window_inv_default, of 70]
  by (simp add: spec_next_def)

text \<open>
  C15.  Replay protection.  In every sequence of received counters, in any order and with any repetitions, a counter is
  accepted a second time only if it is the largest one, 2 to the 64 minus 1, or the largest one was accepted in between.
\<close>

theorem counter_accepted_once:
  assumes "accepted mark_step validator_default ks = xs @ k # zs @ k # ys"
  shows "k = - 1 \<or> - 1 \<in> set zs"
  using rw.accepted_again [of validator_default "{}", OF _ assms] window_inv_default by auto

text \<open>The largest counter wraps \<^verbatim>\<open>next\<close> and lets a received counter in again.\<close>

lemma sample_accepted: "accepted mark_step validator_default [5, 5, - 1, 5] = [5, - 1, 5]"
proof -
  obtain v1 where 1: "mark_step validator_default 5 = (True, v1)" "window_inv v1 {5}" "nxt v1 = 6"
  proof (rule mark_did_receive_step [OF window_inv_default, of 5])
    fix v' assume "mark_ok validator_default {} 5 v'"
    then have "mark_step validator_default 5 = (True, v')" "window_inv v' {5}" "unat (nxt v') = unat (6 :: u64)"
      by (auto simp: mark_step_def mark_ok_def spec_next_def)
    then show thesis using that by (metis word_unat_eq_iff)
  qed (auto simp: spec_accepts_def)
  obtain v2 where 2: "mark_step v1 5 = (False, v2)" "v2 = v1"
    using mark_step_iff [OF 1(2), of 5] mark_step_refuses [of v1 5] by (cases "mark_step v1 5") auto
  obtain v3 where 3: "mark_step v1 (- 1) = (True, v3)"
    using mark_step_iff [OF 1(2), of "- 1"] 1(3)
    by (cases "mark_step v1 (- 1)") (auto simp: N_BITS_1024 unat_max_u64)
  obtain v4 where 4: "mark_step v3 5 = (True, v4)"
  proof -
    from 1(2) 3 have "nxt v3 = 0"
      by (cases rule: mark_max_counter) (auto simp: mark_step_def mark_did_receive_def 1(3) split: if_splits bind_splits)
    with mark_step_iff [OF mark_step_max [OF 1(2) 3], of 5] that show thesis by (cases "mark_step v3 5") auto
  qed
  show ?thesis by (simp add: 1(1) 2 3 4)
qed

theorem counter_accepted_once_witness:
  "accepted mark_step validator_default [5, 5, - 1, 5] = [] @ 5 # [- 1] @ 5 # [] \<and> - 1 \<in> set [- 1 :: u64]"
proof -
  have a: "accepted mark_step validator_default [5, 5, - 1, 5] = [] @ 5 # [- 1] @ 5 # []"
    using sample_accepted by simp
  from counter_accepted_once [OF a] a show ?thesis by simp
qed

text \<open>
  C25.  The quick check before decryption.  \<^verbatim>\<open>will_accept\<close> reports a counter more than 1024 behind, or behind and within
  1024 of 2 to the 64, as invalid, one that was received as a duplicate, and accepts every other.  It never refuses what
  \<^verbatim>\<open>mark_did_receive\<close> would accept after decryption; and what it lets through is refused there exactly when the counter
  is not behind and 1024 more than it wraps to below \<^verbatim>\<open>next\<close>.
\<close>

theorem will_accept_exact:
  assumes inv: "window_inv v S"
  shows "will_accept v k =
      (if nxt v \<le> k then Ok ()
       else if unat k + 1024 < unat (nxt v) \<or> 2 ^ 64 \<le> unat k + 1024 then Err InvalidCounter
       else if unat k \<in> S then Err DuplicateCounter else Ok ()) \<and>
    (fst (mark_step v k) \<longrightarrow> will_accept v k = Ok ()) \<and>
    (will_accept v k = Ok () \<and> \<not> fst (mark_step v k) \<longleftrightarrow>
       nxt v \<le> k \<and> 2 ^ 64 \<le> unat k + 1024 \<and> unat k + 1024 < unat (nxt v) + 2 ^ 64)"
proof -
  have far: "k + N_BITS < nxt v \<longleftrightarrow>
      (if unat k + 1024 < 2 ^ 64 then unat k + 1024 < unat (nxt v) else unat k + 1024 < unat (nxt v) + 2 ^ 64)"
    using unat_u64_bound [of k] by (auto simp: word_less_nat_alt N_BITS_1024 unat_word_ariths mod_if)
  have fresh: "unat k \<notin> S" if "nxt v \<le> k"
    using window_invD(2) [OF inv, of "unat k"] that by (auto simp: word_le_nat_alt)
  have "check_bit_v v k \<longleftrightarrow> unat k \<in> S" if "k < nxt v" "\<not> k + N_BITS < nxt v"
    using check_bit_in_window [OF inv that] .
  moreover have "\<not> 2 ^ 64 \<le> unat k + 1024" if "k < nxt v" "\<not> k + N_BITS < nxt v"
    using that(1) [unfolded word_less_nat_alt] that(2) [unfolded far] unat_u64_bound [of k]
    by (auto split: if_splits)
  ultimately have w: "will_accept v k = (if nxt v \<le> k then Ok ()
       else if unat k + 1024 < unat (nxt v) \<or> 2 ^ 64 \<le> unat k + 1024 then Err InvalidCounter
       else if unat k \<in> S then Err DuplicateCounter else Ok ())"
    using far by (auto simp: will_accept_def not_le)
  show ?thesis
    using w mark_step_iff [OF inv, of k] fresh unfolding far
    by (auto simp: word_le_nat_alt split: if_splits)
qed

theorem will_accept_exact_witness:
  "will_accept validator_default 9 = Ok () \<and> fst (mark_step validator_default 9)"
  using will_accept_exact [OF window_inv_default, of 9] by auto

text \<open>
  C26.  The exception to replay protection.  The largest counter is accepted as long as \<^verbatim>\<open>next\<close> is below 1024, and
  then \<^verbatim>\<open>next = counter + 1\<close> wraps to zero: whatever was received is forgotten, and every counter is accepted again.
\<close>

theorem max_counter_forgets:
  assumes inv: "window_inv v S"
  shows "(fst (mark_step v (- 1)) \<longleftrightarrow> unat (nxt v) < 1024) \<and>
    (unat (nxt v) < 1024 \<longrightarrow>
      (\<exists>v'. mark_did_receive v (- 1) = Some (Ok (), v') \<and> window_inv v' {} \<and> nxt v' = 0 \<and> (\<forall>k. fst (mark_step v' k))))"
proof -
  have "unat (- 1 :: u64) \<notin> S"
    using window_invD(2) [OF inv, of "unat (- 1 :: u64)"] unat_u64_bound [of "nxt v"] by (auto simp: unat_max_u64)
  then have i: "fst (mark_step v (- 1)) \<longleftrightarrow> unat (nxt v) < 1024"
    using mark_step_iff [OF inv, of "- 1"] by (auto simp: N_BITS_1024 word_less_nat_alt)
  from inv show ?thesis
  proof (cases rule: mark_max_counter)
    case (refuse e)
    then show ?thesis using i by (auto simp: mark_step_def)
  next
    case (reset v')
    then have "fst (mark_step v' k)" for k using mark_step_iff [OF reset(2), of k] by simp
    with reset i show ?thesis by blast
  qed
qed

theorem max_counter_forgets_witness:
  "\<exists>v'. mark_did_receive validator_default (- 1) = Some (Ok (), v') \<and> nxt v' = 0 \<and> fst (mark_step v' (- 1))"
  using max_counter_forgets [OF window_inv_default] by auto

end
