(* ===== verification/Session.thy ===== *)
theory Session
  imports Crypto Replay
begin

text \<open>
  A transport session (\<^verbatim>\<open>noise/session.rs\<close>): the two keys, the two indices, the sending counter
  and the replay window, with the encryption of an outgoing packet and the decryption of an
  incoming one.

  \<^verbatim>\<open>receive_packet_data\<close> takes the window's lock twice, once for the quick check and once to mark
  the counter, and decrypts in between.  \<open>recv_step\<close> lets any number of threads run these phases
  interleaved on one session.

  The sending counter is an \<^verbatim>\<open>AtomicUsize\<close>: it wraps at the width of \<^verbatim>\<open>usize\<close> and is cast to a \<^verbatim>\<open>u64\<close> for the packet.
\<close>

section \<open>Operations\<close>

definition DATA_OFFSET :: nat where "DATA_OFFSET = 16"
definition AEAD_SIZE :: nat where "AEAD_SIZE = 16"

record Session =
  receiving_index :: u32
  sending_index :: u32
  receiver :: bytes
  sender :: bytes
  sending_key_counter :: u64
  receiving_key_counter :: ReceivingKeyCounterValidator

definition Session_new :: "u32 \<Rightarrow> u32 \<Rightarrow> bytes \<Rightarrow> bytes \<Rightarrow> Session" where
  "Session_new local_index peer_index receiving_key sending_key =
     \<lparr>receiving_index = local_index, sending_index = peer_index,
      receiver = receiving_key, sender = sending_key,
      sending_key_counter = 0, receiving_key_counter = validator_default\<rparr>"

definition local_index :: "Session \<Rightarrow> nat" where
  "local_index s = unat (receiving_index s)"

definition receiving_counter_quick_check :: "Session \<Rightarrow> u64 \<Rightarrow> (unit, WireGuardError) result" where
  "receiving_counter_quick_check s counter = will_accept (receiving_key_counter s) counter"

definition receiving_counter_mark ::
  "Session \<Rightarrow> u64 \<Rightarrow> ((unit, WireGuardError) result \<times> Session) panics" where
  "receiving_counter_mark s counter = do {
     (ret, v) \<leftarrow> mark_did_receive (receiving_key_counter s) counter;
     let v' = (if is_ok ret then v\<lparr>receive_cnt := receive_cnt v + 1\<rparr> else v);
     Some (ret, s\<lparr>receiving_key_counter := v'\<rparr>)
   }"

definition format_packet_data :: "crypto \<Rightarrow> Session \<Rightarrow> bytes \<Rightarrow> nat \<Rightarrow> (bytes \<times> Session) panics" where
  "format_packet_data c s src dst_len =
     (if dst_len < length src + DATA_OVERHEAD_SZ then None
      else let ctr = sending_key_counter s;
               s' = s\<lparr>sending_key_counter := usize c (ctr + 1)\<rparr>;
               (ct, tag) = chacha_seal c (sender s) (aead_nonce ctr) [] src
      in if length tag = AEAD_SIZE
         then Some (take (DATA_OFFSET + (length src + AEAD_SIZE))
                (word_to_le 4 DATA @ word_to_le 4 (sending_index s) @ word_to_le 8 ctr @ ct @ tag), s')
         else None)"

definition receive_packet_data ::
  "crypto \<Rightarrow> Session \<Rightarrow> packet_data \<Rightarrow> nat \<Rightarrow> ((bytes, WireGuardError) result \<times> Session) panics" where
  "receive_packet_data c s p dst_len =
     (if dst_len < length (pd_encrypted_encapsulated_packet p) then None
      else if pd_receiver_idx p \<noteq> receiving_index s then Some (Err WrongIndex, s)
      else case receiving_counter_quick_check s (pd_counter p) of
        Err e \<Rightarrow> Some (Err e, s)
      | Ok _ \<Rightarrow>
        (case chacha_open c (receiver s) (aead_nonce (pd_counter p)) []
                (pd_encrypted_encapsulated_packet p) of
           None \<Rightarrow> Some (Err InvalidAeadTag, s)
         | Some plaintext \<Rightarrow>
           (case receiving_counter_mark s (pd_counter p) of
              None \<Rightarrow> None
            | Some (Err e, s') \<Rightarrow> Some (Err e, s')
            | Some (Ok _, s') \<Rightarrow> Some (Ok plaintext, s'))))"

definition current_packet_cnt :: "Session \<Rightarrow> u64 \<times> u64" where
  "current_packet_cnt s = (nxt (receiving_key_counter s), receive_cnt (receiving_key_counter s))"

section \<open>Sending\<close>

lemma format_packet_data_eq:
  assumes "crypto_laws c" and "length src + 32 \<le> dst_len"
  obtains ct where
    "format_packet_data c s src dst_len =
       Some (encode_packet (PacketData \<lparr>pd_receiver_idx = sending_index s,
          pd_counter = sending_key_counter s, pd_encrypted_encapsulated_packet = ct\<rparr>) [],
        s\<lparr>sending_key_counter := usize c (sending_key_counter s + 1)\<rparr>)"
    "length ct = length src + 16"
    "chacha_open c (sender s) (aead_nonce (sending_key_counter s)) [] ct = Some src"
proof -
  obtain ct tag where
    s: "chacha_seal c (sender s) (aead_nonce (sending_key_counter s)) [] src = (ct, tag)"
    by force
  note l = chacha_seal_laws [OF assms(1) s]
  show ?thesis
    by (rule that [of "ct @ tag"])
      (use assms l in \<open>simp_all add: format_packet_data_def s DATA_OVERHEAD_SZ_def AEAD_SIZE_def
        DATA_OFFSET_def Let_def\<close>)
qed

lemma format_packet_data_panics:
  "dst_len < length src + 32 \<Longrightarrow> format_packet_data c s src dst_len = None"
  by (simp add: format_packet_data_def DATA_OVERHEAD_SZ_def)

text \<open>Sending a list of packets over one session.\<close>

fun format_all :: "crypto \<Rightarrow> Session \<Rightarrow> nat \<Rightarrow> bytes list \<Rightarrow> (bytes list \<times> Session) panics" where
  "format_all c s dst_len [] = Some ([], s)"
| "format_all c s dst_len (src # srcs) = do {
     (p, s') \<leftarrow> format_packet_data c s src dst_len;
     (ps, s'') \<leftarrow> format_all c s' dst_len srcs;
     Some (p # ps, s'')
   }"

text \<open>A data packet: its header and the payload sealed under the counter in the header.\<close>

definition sealed_packet :: "crypto \<Rightarrow> Session \<Rightarrow> u64 \<Rightarrow> bytes \<Rightarrow> bytes" where
  "sealed_packet c s ctr src =
     (let (ct, tag) = chacha_seal c (sender s) (aead_nonce ctr) [] src
      in word_to_le 4 DATA @ word_to_le 4 (sending_index s) @ word_to_le 8 ctr @ ct @ tag)"

lemma sealed_packet_frame [simp]:
  "sealed_packet c (s\<lparr>sending_key_counter := n\<rparr>) = sealed_packet c s"
  by (simp add: sealed_packet_def fun_eq_iff)

lemma format_packet_data_sealed:
  assumes "crypto_laws c" "length src + 32 \<le> dst_len"
  shows "format_packet_data c s src dst_len =
    Some (sealed_packet c s (sending_key_counter s) src,
      s\<lparr>sending_key_counter := usize c (sending_key_counter s + 1)\<rparr>)"
proof -
  obtain ct tag where
    s: "chacha_seal c (sender s) (aead_nonce (sending_key_counter s)) [] src = (ct, tag)" by force
  from chacha_seal_laws [OF assms(1) s] assms(2) s show ?thesis
    by (simp add: format_packet_data_def sealed_packet_def DATA_OVERHEAD_SZ_def AEAD_SIZE_def DATA_OFFSET_def Let_def)
qed

lemma format_all_sealed:
  assumes c: "crypto_laws c"
  shows "(\<And>src. src \<in> set srcs \<Longrightarrow> length src + 32 \<le> dst_len) \<Longrightarrow> sending_key_counter s = usize c (of_nat n) \<Longrightarrow>
    \<exists>s'. format_all c s dst_len srcs =
      Some (map (\<lambda>i. sealed_packet c s (usize c (of_nat (n + i))) (srcs ! i)) [0..<length srcs], s')"
proof (induction srcs arbitrary: s n)
  case (Cons src srcs)
  let ?s = "s\<lparr>sending_key_counter := usize c (sending_key_counter s + 1)\<rparr>"
  have "unat (usize c (sending_key_counter s + 1)) = unat (usize c (of_nat (Suc n)))"
  proof -
    have "sending_key_counter s + 1 = of_nat (unat (usize c (of_nat n)) + 1)" using Cons.prems(2) by simp
    then show ?thesis unfolding unat_usize [OF c] by (simp only: unat_usize [OF c] mod_add_left_eq Suc_eq_plus1)
  qed
  then have n: "sending_key_counter ?s = usize c (of_nat (Suc n))" by (simp add: word_unat_eq_iff)
  obtain s' where f: "format_all c ?s dst_len srcs =
      Some (map (\<lambda>i. sealed_packet c ?s (usize c (of_nat (Suc n + i))) (srcs ! i)) [0..<length srcs], s')"
    using Cons.IH [OF _ n] Cons.prems(1) by auto
  have "format_packet_data c s src dst_len = Some (sealed_packet c s (sending_key_counter s) src, ?s)"
    by (rule format_packet_data_sealed [OF c]) (use Cons.prems(1) in simp)
  with f Cons.prems(2) show ?case by (simp add: map_upt_Suc del: upt_Suc of_nat_add of_nat_Suc)
qed simp

text \<open>
  C16.  Nonces under a session key.  However many packets are sent over a session, each is sealed under the nonce of the
  counter it carries, and two of them are sealed under the same nonce exactly when their positions agree modulo 2 to
  the width of \<^verbatim>\<open>usize\<close>.  So a nonce is used again after 2 to the 64 packets on a 64-bit target, and after 2 to the 32
  on a 32-bit target.
\<close>

theorem nonces_distinct:
  assumes c: "crypto_laws c" and f: "\<And>src. src \<in> set srcs \<Longrightarrow> length src + 32 \<le> dst_len"
    and s: "unat (sending_key_counter s) < 2 ^ usize_bits c"
  shows "\<exists>ns s'. format_all c s dst_len srcs =
      Some (map (\<lambda>i. sealed_packet c s (ns i) (srcs ! i)) [0..<length srcs], s') \<and>
    (\<forall>i j. aead_nonce (ns i) = aead_nonce (ns j) \<longleftrightarrow> i mod 2 ^ usize_bits c = j mod 2 ^ usize_bits c)"
proof -
  define n where "n = unat (sending_key_counter s)"
  have "unat (usize c (of_nat n)) = unat (sending_key_counter s)"
    using s by (simp only: unat_usize [OF c] n_def mod_less)
  then have "sending_key_counter s = usize c (of_nat n)" by (simp add: word_unat_eq_iff)
  then obtain s' where "format_all c s dst_len srcs =
      Some (map (\<lambda>i. sealed_packet c s (usize c (of_nat (n + i))) (srcs ! i)) [0..<length srcs], s')"
    using format_all_sealed [OF c f] by blast
  moreover have "usize c (of_nat (n + i)) = usize c (of_nat (n + j)) \<longleftrightarrow>
      i mod 2 ^ usize_bits c = j mod 2 ^ usize_bits c" for i j
    unfolding word_unat_eq_iff unat_usize [OF c] by (rule mod_shift)
  ultimately show ?thesis by (auto simp: aead_nonce_inj intro!: exI [of _ "\<lambda>i. usize c (of_nat (n + i))"])
qed

theorem nonces_distinct_witness:
  "\<exists>ns s'. format_all sample_crypto (Session_new 1 2 (replicate 32 3) (replicate 32 4)) 100 [[1], [], [2, 3]]
      = Some (map (\<lambda>i. sealed_packet sample_crypto (Session_new 1 2 (replicate 32 3) (replicate 32 4)) (ns i)
          ([[1], [], [2, 3]] ! i)) [0, 1, 2], s') \<and>
    aead_nonce (ns 0) \<noteq> aead_nonce (ns 2) \<and> aead_nonce (ns 1) = aead_nonce (ns (1 + 2 ^ 64))"
proof -
  have h: "length src + 32 \<le> 100" if "src \<in> set [[1], [], [2, 3]]" for src :: bytes
    using that by auto
  have s: "unat (sending_key_counter (Session_new 1 2 (replicate 32 3) (replicate 32 4))) < 2 ^ usize_bits sample_crypto"
    by (simp add: Session_new_def)
  have b: "usize_bits sample_crypto = 64" by (simp add: sample_crypto_def)
  have u: "[0..<length [[1], [], [2, 3 :: u8]]] = [0, 1, 2]" by code_simp
  from nonces_distinct [where srcs = "[[1], [], [2, 3]]", OF sample_crypto_laws h s]
  obtain ns s' where n: "format_all sample_crypto (Session_new 1 2 (replicate 32 3) (replicate 32 4)) 100 [[1], [], [2, 3]]
      = Some (map (\<lambda>i. sealed_packet sample_crypto (Session_new 1 2 (replicate 32 3) (replicate 32 4)) (ns i)
          ([[1], [], [2, 3]] ! i)) [0, 1, 2], s')"
    and e: "\<forall>i j. aead_nonce (ns i) = aead_nonce (ns j) \<longleftrightarrow> i mod 2 ^ 64 = j mod 2 ^ 64"
    unfolding b u by blast
  have "aead_nonce (ns 0) \<noteq> aead_nonce (ns 2) \<and> aead_nonce (ns 1) = aead_nonce (ns (1 + 2 ^ 64))"
    unfolding e [rule_format] by simp
  with n show ?thesis by blast
qed

section \<open>Receiving\<close>

lemma receive_packet_data_ok:
  assumes "length (pd_encrypted_encapsulated_packet p) \<le> dst_len"
    and "pd_receiver_idx p = receiving_index s"
    and "chacha_open c (receiver s) (aead_nonce (pd_counter p)) [] (pd_encrypted_encapsulated_packet p)
      = Some pt"
    and "window_inv (receiving_key_counter s) S" "unat (pd_counter p) + 1024 < 2 ^ 64"
    and "spec_accepts (unat (nxt (receiving_key_counter s))) S (unat (pd_counter p))"
  obtains s' where "receive_packet_data c s p dst_len = Some (Ok pt, s')"
    "window_inv (receiving_key_counter s') (insert (unat (pd_counter p)) S)"
    "s' = s\<lparr>receiving_key_counter := receiving_key_counter s'\<rparr>"
proof -
  let ?v = "receiving_key_counter s" and ?k = "pd_counter p"
  have k: "?k \<noteq> - 1" using assms(5) by (auto simp: unat_max_u64)
  obtain v' where v': "mark_ok ?v S ?k v'"
    using mark_did_receive_step [OF assms(4) k] assms(5,6) by blast
  then have m: "mark_did_receive ?v ?k = Some (Ok (), v')" and w: "window_inv v' (insert (unat ?k) S)"
    by (simp_all add: mark_ok_def)
  have "is_ok (will_accept ?v ?k)"
    using assms(5,6) will_accept_spec [OF assms(4), of ?k]
    by (auto simp: spec_accepts_def word_less_nat_alt unat_add_N_BITS)
  then have q: "will_accept ?v ?k = Ok ()" by (cases "will_accept ?v ?k") auto
  show ?thesis
  proof (rule that)
    show "receive_packet_data c s p dst_len =
        Some (Ok pt, s\<lparr>receiving_key_counter := v'\<lparr>receive_cnt := receive_cnt v' + 1\<rparr>\<rparr>)"
      using assms(1-3) q m
      by (simp add: receive_packet_data_def receiving_counter_quick_check_def receiving_counter_mark_def)
    show "window_inv (receiving_key_counter (s\<lparr>receiving_key_counter := v'\<lparr>receive_cnt := receive_cnt v' + 1\<rparr>\<rparr>))
        (insert (unat ?k) S)"
      using w by (simp add: window_inv_def)
  qed simp
qed

text \<open>What a receiver needs of its window to take the next packet of its peer.\<close>

definition fresh_for :: "Session \<Rightarrow> u64 \<Rightarrow> bool" where
  "fresh_for s k \<longleftrightarrow>
     (\<exists>S. window_inv (receiving_key_counter s) S \<and>
          spec_accepts (unat (nxt (receiving_key_counter s))) S (unat k))
     \<and> unat k + 1024 < 2 ^ 64"

definition paired :: "Session \<Rightarrow> Session \<Rightarrow> bool" where
  "paired a b \<longleftrightarrow> sender a = receiver b \<and> sending_index a = receiving_index b"

lemma session_round_trip_aux:
  assumes "crypto_laws c" "paired a b" "fresh_for b (sending_key_counter a)"
    and "length src + 32 \<le> dst_len" "length src + 16 \<le> dst_len'"
  obtains dgram a' d b' where "format_packet_data c a src dst_len = Some (dgram, a')"
    "a' = a\<lparr>sending_key_counter := usize c (sending_key_counter a + 1)\<rparr>"
    "length dgram = length src + 32"
    "parse_incoming_packet dgram = Ok (PacketData d)" "pd_receiver_idx d = receiving_index b"
    "pd_counter d = sending_key_counter a"
    "length (pd_encrypted_encapsulated_packet d) = length src + 16"
    "receive_packet_data c b d dst_len' = Some (Ok src, b')"
    "b' = b\<lparr>receiving_key_counter := receiving_key_counter b'\<rparr>"
    "\<exists>S. window_inv (receiving_key_counter b') S \<and> unat (pd_counter d) \<in> S"
proof -
  obtain ct where f: "format_packet_data c a src dst_len =
       Some (encode_packet (PacketData \<lparr>pd_receiver_idx = sending_index a,
          pd_counter = sending_key_counter a, pd_encrypted_encapsulated_packet = ct\<rparr>) [],
        a\<lparr>sending_key_counter := usize c (sending_key_counter a + 1)\<rparr>)" (is "_ = Some (encode_packet (PacketData ?d) [], ?a')")
    and l: "length ct = length src + 16"
    and o: "chacha_open c (sender a) (aead_nonce (sending_key_counter a)) [] ct = Some src"
    using format_packet_data_eq [OF assms(1,4)] by blast
  obtain S where S: "window_inv (receiving_key_counter b) S"
    "spec_accepts (unat (nxt (receiving_key_counter b))) S (unat (sending_key_counter a))"
    and k: "unat (sending_key_counter a) + 1024 < 2 ^ 64"
    using assms(3) by (auto simp: fresh_for_def)
  obtain b' where b': "receive_packet_data c b ?d dst_len' = Some (Ok src, b')"
    "b' = b\<lparr>receiving_key_counter := receiving_key_counter b'\<rparr>"
    "window_inv (receiving_key_counter b') (insert (unat (sending_key_counter a)) S)"
    by (rule receive_packet_data_ok [where c = c and s = b and p = ?d and S = S and pt = src
          and dst_len = dst_len'])
      (use assms S k o l in \<open>auto simp: paired_def\<close>)
  have p: "parse_incoming_packet (encode_packet (PacketData ?d) []) = Ok (PacketData ?d)"
    by (rule parse_encode) (use l in auto)
  show ?thesis
    by (rule that [OF f refl _ p _ _ _ b'(1,2)]) (use assms l b'(3) in \<open>auto simp: paired_def\<close>)
qed

lemma receive_replay:
  assumes "window_inv (receiving_key_counter s) S" "unat (pd_counter p) \<in> S"
    and "length (pd_encrypted_encapsulated_packet p) \<le> dst_len"
  shows "\<exists>e. receive_packet_data c s p dst_len = Some (Err e, s)"
proof -
  have "\<not> is_ok (will_accept (receiving_key_counter s) (pd_counter p))"
    using assms window_invD(2) [OF assms(1,2)] will_accept_spec [OF assms(1), of "pd_counter p"]
    by (auto simp: word_le_nat_alt)
  then obtain e where "will_accept (receiving_key_counter s) (pd_counter p) = Err e"
    by (cases "will_accept (receiving_key_counter s) (pd_counter p)") auto
  then show ?thesis
    using assms(3) by (simp add: receive_packet_data_def receiving_counter_quick_check_def)
qed

text \<open>
  C9.  Data round trip.  What one end of a session pair encrypts, the other end parses and decrypts
  to the same plaintext, provided the counter is new and inside the receiver's window; a second
  delivery of the same datagram is refused.
\<close>

theorem session_round_trip:
  assumes "crypto_laws c" and "paired a b" and "fresh_for b (sending_key_counter a)"
    and "length src + 32 \<le> dst_len" and "length src + 16 \<le> dst_len'"
  shows "\<exists>dgram a' d b' e b''. format_packet_data c a src dst_len = Some (dgram, a') \<and>
    length dgram = length src + DATA_OVERHEAD_SZ \<and>
    parse_incoming_packet dgram = Ok (PacketData d) \<and>
    receive_packet_data c b d dst_len' = Some (Ok src, b') \<and>
    receive_packet_data c b' d dst_len' = Some (Err e, b'')"
  using session_round_trip_aux [OF assms] receive_replay assms(5)
  unfolding DATA_OVERHEAD_SZ_def by metis

theorem session_round_trip_witness:
  "\<exists>dgram a' d b' e b''.
    format_packet_data sample_crypto (Session_new 1 2 (replicate 32 3) (replicate 32 4)) [9, 8] 100
      = Some (dgram, a') \<and>
    length dgram = length [9, 8 :: u8] + DATA_OVERHEAD_SZ \<and>
    parse_incoming_packet dgram = Ok (PacketData d) \<and>
    receive_packet_data sample_crypto (Session_new 2 1 (replicate 32 4) (replicate 32 3)) d 100
      = Some (Ok [9, 8], b') \<and>
    receive_packet_data sample_crypto b' d 100 = Some (Err e, b'')"
  by (rule session_round_trip [OF sample_crypto_laws])
    (auto simp: paired_def fresh_for_def Session_new_def spec_accepts_def
      intro!: exI [of _ "{}"] window_inv_default)

section \<open>Concurrent receivers\<close>

text \<open>
  The state of a session shared by receiving threads: the session itself, the packets between
  the quick check and the mark, and the counters of the packets delivered so far.
\<close>

record recv_state =
  rs_session :: Session
  rs_inflight :: "packet_data list"
  rs_delivered :: "u64 list"

inductive recv_step :: "crypto \<Rightarrow> recv_state \<Rightarrow> recv_state \<Rightarrow> bool" for c where
  check: "pd_receiver_idx p = receiving_index (rs_session r) \<Longrightarrow>
     receiving_counter_quick_check (rs_session r) (pd_counter p) = Ok () \<Longrightarrow>
     chacha_open c (receiver (rs_session r)) (aead_nonce (pd_counter p)) []
       (pd_encrypted_encapsulated_packet p) = Some plaintext \<Longrightarrow>
     recv_step c r (r\<lparr>rs_inflight := p # rs_inflight r\<rparr>)"
| deliver: "p \<in> set (rs_inflight r) \<Longrightarrow>
     receiving_counter_mark (rs_session r) (pd_counter p) = Some (Ok (), s') \<Longrightarrow>
     recv_step c r (r\<lparr>rs_session := s', rs_inflight := remove1 p (rs_inflight r),
       rs_delivered := pd_counter p # rs_delivered r\<rparr>)"
| drop_packet: "p \<in> set (rs_inflight r) \<Longrightarrow>
     receiving_counter_mark (rs_session r) (pd_counter p) = Some (Err e, s') \<Longrightarrow>
     recv_step c r (r\<lparr>rs_session := s', rs_inflight := remove1 p (rs_inflight r)\<rparr>)"

inductive recv_reachable :: "crypto \<Rightarrow> recv_state \<Rightarrow> bool" for c where
  recv_init: "recv_reachable c
     \<lparr>rs_session = Session_new l p rk sk, rs_inflight = [], rs_delivered = []\<rparr>"
| recv_more: "recv_reachable c r \<Longrightarrow> recv_step c r r' \<Longrightarrow> recv_reachable c r'"

lemma receiving_counter_mark_cases:
  assumes "window_inv (receiving_key_counter s) S" "k \<noteq> - 1"
  obtains (ok) s' where "receiving_counter_mark s k = Some (Ok (), s')" "unat k \<notin> S"
      "window_inv (receiving_key_counter s') (insert (unat k) S)"
    | (err) e where "receiving_counter_mark s k = Some (Err e, s)"
proof (rule mark_did_receive_step [OF assms])
  fix e assume "mark_did_receive (receiving_key_counter s) k = Some (Err e, receiving_key_counter s)"
  then show ?thesis by (intro err) (simp add: receiving_counter_mark_def)
next
  fix v' assume "mark_ok (receiving_key_counter s) S k v'"
  then show ?thesis
    by (intro ok) (auto simp: receiving_counter_mark_def mark_ok_def spec_accepts_def window_inv_def)
qed

text \<open>
  \<open>once xs\<close>: in the list of delivered counters, the latest first, a counter occurs again only after the largest one, which
  resets the window.
\<close>

abbreviation since_reset :: "u64 list \<Rightarrow> u64 list" where
  "since_reset \<equiv> takeWhile (\<lambda>k. k \<noteq> - 1)"

fun once :: "u64 list \<Rightarrow> bool" where
  "once [] = True"
| "once (k # ks) \<longleftrightarrow> k \<notin> set (since_reset ks) \<and> once ks"

lemma once_split:
  assumes "once (ys @ k # zs @ k # xs)"
  shows "k = - 1 \<or> - 1 \<in> set zs"
proof (rule ccontr)
  assume a: "\<not> ?thesis"
  have "once (k # zs @ k # xs)" using assms by (induction ys) auto
  moreover have "k \<in> set (since_reset (zs @ k # xs))" using a by (subst takeWhile_append2) auto
  ultimately show False by simp
qed

definition recv_inv :: "recv_state \<Rightarrow> bool" where
  "recv_inv r \<longleftrightarrow>
     window_inv (receiving_key_counter (rs_session r)) (unat ` set (since_reset (rs_delivered r))) \<and> once (rs_delivered r)"

lemma mark_err_unchanged: "mark_did_receive v k = Some (Err e, v') \<Longrightarrow> v' = v"
  by (auto simp: mark_did_receive_def split: if_splits bind_splits)

lemma recv_step_inv:
  assumes "recv_step c r r'" "recv_inv r"
  shows "recv_inv r'"
  using assms(1)
proof cases
  case (check p plaintext)
  then show ?thesis using assms(2) by (simp add: recv_inv_def)
next
  case (deliver p s')
  note w = assms(2) [unfolded recv_inv_def, THEN conjunct1]
  show ?thesis
  proof (cases "pd_counter p = - 1")
    case True
    from w have "window_inv (receiving_key_counter s') {}"
      by (cases rule: mark_max_counter)
        (use deliver(3) True in \<open>auto simp: receiving_counter_mark_def window_inv_def wf_validator_def\<close>)
    then show ?thesis using deliver(1) True assms(2) by (auto simp: recv_inv_def dest: set_takeWhileD)
  next
    case False
    then show ?thesis
      by (cases rule: receiving_counter_mark_cases [OF w])
        (use deliver assms(2) in \<open>auto simp: recv_inv_def\<close>)
  qed
next
  case (drop_packet p e s')
  then have "s' = rs_session r"
    by (auto simp: receiving_counter_mark_def Let_def split: bind_splits dest: mark_err_unchanged)
  with drop_packet assms(2) show ?thesis by (simp add: recv_inv_def)
qed

lemma recv_reachable_inv: "recv_reachable c r \<Longrightarrow> recv_inv r"
proof (induction rule: recv_reachable.induct)
  case (recv_init l p rk sk)
  then show ?case by (simp add: recv_inv_def Session_new_def window_inv_default)
next
  case (recv_more r r')
  then show ?case by (blast intro: recv_step_inv)
qed

text \<open>
  C2.  Concurrent delivery.  Several threads may be between the quick check and the mark of \<^verbatim>\<open>receive_packet_data\<close> on one
  session at the same time, each with any authentic packet.  In every interleaving a counter is delivered a second time
  only if it is the largest one, 2 to the 64 minus 1, or the largest one was delivered in between.
\<close>

theorem concurrent_delivery_once:
  assumes "recv_reachable c r" and "rs_delivered r = ys @ k # zs @ k # xs"
  shows "k = - 1 \<or> - 1 \<in> set zs"
  using recv_reachable_inv [OF assms(1)] once_split assms(2) by (auto simp: recv_inv_def)

text \<open>A packet that passes both checks, and a run in which the largest counter lets an old one in again.\<close>

lemma deliver_more:
  assumes r: "recv_reachable sample_crypto \<lparr>rs_session = s, rs_inflight = [], rs_delivered = ks\<rparr>"
    and i: "receiving_index s = 1" and w: "window_inv (receiving_key_counter s) S" "fst (mark_step (receiving_key_counter s) k)"
  obtains s' where "recv_reachable sample_crypto \<lparr>rs_session = s', rs_inflight = [], rs_delivered = k # ks\<rparr>"
    "receiving_index s' = 1" "\<And>v. mark_did_receive (receiving_key_counter s) k = Some (Ok (), v) \<Longrightarrow>
       receiving_key_counter s' = v\<lparr>receive_cnt := receive_cnt v + 1\<rparr>"
proof -
  let ?p = "\<lparr>pd_receiver_idx = 1, pd_counter = k, pd_encrypted_encapsulated_packet = replicate 16 0\<rparr> :: packet_data"
  obtain v where v: "mark_did_receive (receiving_key_counter s) k = Some (Ok (), v)"
    using w(2) by (auto simp: mark_step_def split: option.splits result.splits)
  let ?s = "s\<lparr>receiving_key_counter := v\<lparr>receive_cnt := receive_cnt v + 1\<rparr>\<rparr>"
  have m: "receiving_counter_mark s k = Some (Ok (), ?s)" by (simp add: receiving_counter_mark_def v)
  have "\<not> k + N_BITS < nxt (receiving_key_counter s) \<and> unat k \<notin> S" using mark_step_iff [OF w(1)] w(2) by simp
  then have "is_ok (will_accept (receiving_key_counter s) k)" using will_accept_spec [OF w(1)] by simp
  then have q: "will_accept (receiving_key_counter s) k = Ok ()" by (cases "will_accept (receiving_key_counter s) k") auto
  let ?r = "\<lambda>ps. \<lparr>rs_session = s, rs_inflight = ps, rs_delivered = ks\<rparr>"
  have "recv_step sample_crypto (?r []) (?r [?p])"
    using recv_step.check [of ?p "?r []" sample_crypto "[]"] q i
    by (simp add: receiving_counter_quick_check_def sample_crypto_def)
  moreover have "recv_step sample_crypto (?r [?p]) \<lparr>rs_session = ?s, rs_inflight = [], rs_delivered = k # ks\<rparr>"
    using recv_step.deliver [of ?p "?r [?p]" ?s sample_crypto] m by simp
  ultimately show thesis using that [of ?s] r i v by (auto intro: recv_more)
qed

lemma sample_replay:
  "\<exists>r. recv_reachable sample_crypto r \<and> rs_delivered r = [0, - 1, 0]"
proof -
  let ?s0 = "Session_new 1 2 [] []"
  have r0: "recv_reachable sample_crypto \<lparr>rs_session = ?s0, rs_inflight = [], rs_delivered = []\<rparr>" by (rule recv_init)
  have w0: "window_inv (receiving_key_counter ?s0) {}" "nxt (receiving_key_counter ?s0) = 0" "receiving_index ?s0 = 1"
    by (simp_all add: Session_new_def window_inv_default)
  have a0: "fst (mark_step (receiving_key_counter ?s0) 0)" using mark_step_iff [OF w0(1)] w0(2) by simp
  obtain v where v: "mark_ok (receiving_key_counter ?s0) {} 0 v"
    by (rule mark_did_receive_step [OF w0(1), of 0]) (use w0(2) in \<open>auto simp: spec_accepts_def\<close>)
  then have v': "mark_did_receive (receiving_key_counter ?s0) 0 = Some (Ok (), v)" "window_inv v {0}" "unat (nxt v) = 1"
    using w0(2) by (simp_all add: mark_ok_def spec_next_def)
  obtain s1 where s1: "recv_reachable sample_crypto \<lparr>rs_session = s1, rs_inflight = [], rs_delivered = [0]\<rparr>"
    "receiving_index s1 = 1" "receiving_key_counter s1 = v\<lparr>receive_cnt := receive_cnt v + 1\<rparr>"
    using deliver_more [OF r0 w0(3,1) a0] v'(1) by metis
  have w1: "window_inv (receiving_key_counter s1) {0}" using v'(2) s1(3) by (simp add: window_inv_def)
  have n1: "unat (nxt (receiving_key_counter s1)) = 1" using v'(3) s1(3) by simp
  have a1: "fst (mark_step (receiving_key_counter s1) (- 1))"
    using mark_step_iff [OF w1] n1 by (simp add: N_BITS_1024 word_less_nat_alt unat_max_u64)
  then obtain u where u: "mark_did_receive (receiving_key_counter s1) (- 1) = Some (Ok (), u)" "window_inv u {}" "nxt u = 0"
    by (cases rule: mark_max_counter [OF w1]) (auto simp: mark_step_def)
  obtain s2 where s2: "recv_reachable sample_crypto \<lparr>rs_session = s2, rs_inflight = [], rs_delivered = [- 1, 0]\<rparr>"
    "receiving_index s2 = 1" "receiving_key_counter s2 = u\<lparr>receive_cnt := receive_cnt u + 1\<rparr>"
    using deliver_more [OF s1(1,2) w1 a1] u(1) by metis
  have w2: "window_inv (receiving_key_counter s2) {}" using u(2) s2(3) by (simp add: window_inv_def wf_validator_def)
  have a2: "fst (mark_step (receiving_key_counter s2) 0)" using mark_step_iff [OF w2] u(3) s2(3) by simp
  obtain s3 where "recv_reachable sample_crypto \<lparr>rs_session = s3, rs_inflight = [], rs_delivered = [0, - 1, 0]\<rparr>"
    using deliver_more [OF s2(1,2) w2 a2] by metis
  then show ?thesis by force
qed

theorem concurrent_delivery_once_witness:
  "\<exists>r. recv_reachable sample_crypto r \<and> rs_delivered r = [] @ 0 # [- 1] @ 0 # [] \<and> - 1 \<in> set [- 1 :: u64]"
proof -
  obtain r where r: "recv_reachable sample_crypto r" "rs_delivered r = [] @ 0 # [- 1] @ 0 # []"
    using sample_replay by auto
  from concurrent_delivery_once [OF r] r show ?thesis by auto
qed

section \<open>Totality of receiving\<close>

text \<open>
  A session whose validator represents some set of counters.  Every counter keeps it so, the
  largest one included (it resets the window), and receiving never panics on such a session.
\<close>

definition session_ok :: "Session \<Rightarrow> bool" where
  "session_ok s \<longleftrightarrow> (\<exists>S. window_inv (receiving_key_counter s) S)"

lemma session_ok_new [simp, intro]: "session_ok (Session_new a b k k')"
  using window_inv_default by (auto simp: session_ok_def Session_new_def)

lemma session_ok_sending [simp]:
  "session_ok (s\<lparr>sending_key_counter := n\<rparr>) \<longleftrightarrow> session_ok s"
  by (simp add: session_ok_def)

lemma mark_receiving_index:
  "receiving_counter_mark s k = Some (r, s') \<Longrightarrow> receiving_index s' = receiving_index s"
  by (auto simp: receiving_counter_mark_def Let_def bind_eq_Some_conv)

lemma receive_packet_data_total:
  assumes c: "crypto_laws c" and s: "session_ok s"
    and l: "length (pd_encrypted_encapsulated_packet p) \<le> dst_len"
  obtains r s' where "receive_packet_data c s p dst_len = Some (r, s')" "session_ok s'"
    "receiving_index s' = receiving_index s"
    "\<And>pt. r = Ok pt \<Longrightarrow> pd_receiver_idx p = receiving_index s"
    "\<And>pt. r = Ok pt \<Longrightarrow> length (pd_encrypted_encapsulated_packet p) = length pt + 16"
proof -
  obtain S where S: "window_inv (receiving_key_counter s) S" using s by (auto simp: session_ok_def)
  have "\<exists>r s'. receiving_counter_mark s (pd_counter p) = Some (r, s') \<and> session_ok s'"
  proof (cases "pd_counter p = - 1")
    case True
    from S show ?thesis
    proof (cases rule: mark_max_counter)
      case (refuse e)
      then show ?thesis using s True by (simp add: receiving_counter_mark_def)
    next
      case (reset v')
      then have "window_inv (v'\<lparr>receive_cnt := receive_cnt v' + 1\<rparr>) {}"
        by (simp add: window_inv_def wf_validator_def)
      then show ?thesis using reset True by (auto simp: receiving_counter_mark_def session_ok_def)
    qed
  next
    case False
    with S show ?thesis
    proof (cases rule: receiving_counter_mark_cases)
      case (ok s')
      then show ?thesis by (auto simp: session_ok_def)
    qed (use s in auto)
  qed
  then obtain r s' where m: "receiving_counter_mark s (pd_counter p) = Some (r, s')" "session_ok s'"
    by blast
  note ri = mark_receiving_index [OF m(1)]
  have "\<exists>r s'. receive_packet_data c s p dst_len = Some (r, s') \<and> session_ok s' \<and>
    receiving_index s' = receiving_index s \<and>
    (\<forall>pt. r = Ok pt \<longrightarrow> pd_receiver_idx p = receiving_index s \<and>
       length (pd_encrypted_encapsulated_packet p) = length pt + 16)"
    using l m s ri chacha_open_length [OF c]
    by (auto simp: receive_packet_data_def split: result.split option.split)
  then show ?thesis using that by blast
qed

lemma receive_packet_data_err:
  assumes "receive_packet_data c s p n = Some (Err e, s')"
  shows "s' = s"
proof -
  have "v' = v" if "mark_did_receive v k = Some (Err e', v')" for v v' k e'
    using mark_err_unchanged [OF that] .
  then have "s'' = s" if "receiving_counter_mark s k = Some (Err e', s'')" for k e' s''
    using that by (auto simp: receiving_counter_mark_def Let_def bind_eq_Some_conv)
  with assms show ?thesis
    by (auto simp: receive_packet_data_def split: if_splits result.splits option.splits)
qed

end
