(* ===== verification/Handshake.thy ===== *)
theory Handshake
  imports SleepyInstant Session
begin

text \<open>
  The Noise IKpsk2 handshake (\<^verbatim>\<open>noise/handshake.rs\<close>): the TAI64N time stamps, the static parameters
  of a peer, the handshake state machine with its cookies, and the functions that write and read
  the three handshake messages.

  A destination buffer is its length: every byte of the slice a function returns is written by
  it, so the old contents never show.  Functions that read a clock or draw randomness take the
  \<open>world\<close> and return it advanced.
\<close>

section \<open>Time stamps\<close>

record Tai64N =
  tai_secs :: u64
  tai_nano :: u32

record TimeStamper =
  duration_at_start :: duration
  instant_at_start :: instant

definition TimeStamper_new :: "'w world_scheme \<Rightarrow> (TimeStamper \<times> 'w world_scheme) panics" where
  "TimeStamper_new w =
     (case SystemTime_since_epoch w of
        (None, w) \<Rightarrow> None
      | (Some d, w) \<Rightarrow>
          let (t, w) = Instant_now w in Some (\<lparr>duration_at_start = d, instant_at_start = t\<rparr>, w))"

definition TAI64_BASE :: u64 where
  "TAI64_BASE = push_bit 62 1 + 37"

definition stamp :: "TimeStamper \<Rightarrow> 'w world_scheme \<Rightarrow> bytes \<times> 'w world_scheme" where
  "stamp ts w =
     (let (now, w) = Instant_now w;
          d = duration_since now (instant_at_start ts) + duration_at_start ts
      in (word_to_be 8 (of_nat (as_secs d) + TAI64_BASE) @ word_to_be 4 (of_nat (subsec_nanos d) :: u32), w))"

definition Tai64N_zero :: Tai64N where
  "Tai64N_zero = \<lparr>tai_secs = 0, tai_nano = 0\<rparr>"

definition Tai64N_parse :: "bytes \<Rightarrow> Tai64N" where
  "Tai64N_parse buf = \<lparr>tai_secs = word_of_be (take 8 buf), tai_nano = word_of_be (drop 8 buf)\<rparr>"

definition after :: "Tai64N \<Rightarrow> Tai64N \<Rightarrow> bool" where
  "after self other \<longleftrightarrow>
     tai_secs other < tai_secs self \<or>
     (tai_secs self = tai_secs other \<and> tai_nano other < tai_nano self)"

section \<open>State\<close>

record NoiseParams =
  static_public :: bytes
  static_private :: bytes
  peer_static_public :: bytes
  static_shared :: bytes
  sending_mac1_key :: bytes
  cookie_key :: bytes
  preshared_key :: "bytes option"

record HandshakeInitSentState =
  is_local_index :: u32
  is_hash :: bytes
  is_chaining_key :: bytes
  is_ephemeral_private :: bytes
  is_time_sent :: instant

datatype HandshakeState =
    HsNone
  | InitSent HandshakeInitSentState
  | InitReceived (ir_hash: bytes) (ir_chaining_key: bytes) (ir_peer_ephemeral_public: bytes)
      (ir_peer_index: u32)
  | HsExpired

record Cookies =
  last_mac1 :: "bytes option"
  cookies_index :: u32
  write_cookie :: "bytes option"

record Handshake =
  params :: NoiseParams
  next_index :: u32
  previous :: HandshakeState
  hs_state :: HandshakeState
  cookies :: Cookies
  last_handshake_timestamp :: Tai64N
  stamper :: TimeStamper
  last_rtt :: "u32 option"

record HalfHandshake =
  peer_index :: u32
  half_peer_static_public :: bytes

definition parse_handshake_anon ::
  "crypto \<Rightarrow> bytes \<Rightarrow> bytes \<Rightarrow> handshake_init \<Rightarrow> (HalfHandshake, WireGuardError) result panics" where
  "parse_handshake_anon c sk pk packet =
     (let chaining_key = INITIAL_CHAIN_KEY;
          hash = INITIAL_CHAIN_HASH;
          hash = b2s_hash c hash pk;
          peer_ephemeral_public = hi_unencrypted_ephemeral packet;
          hash = b2s_hash c hash peer_ephemeral_public;
          chaining_key = b2s_kdf1 c chaining_key peer_ephemeral_public;
          ephemeral_shared = x25519_dh c sk peer_ephemeral_public;
          (_, key) = b2s_kdf2 c chaining_key ephemeral_shared
      in case aead_chacha20_open c KEY_LEN key 0 (hi_encrypted_static packet) hash of
           None \<Rightarrow> None
         | Some (Err e) \<Rightarrow> Some (Err e)
         | Some (Ok peer_public) \<Rightarrow>
             Some (Ok \<lparr>peer_index = hi_sender_idx packet, half_peer_static_public = peer_public\<rparr>))"

definition NoiseParams_new :: "crypto \<Rightarrow> bytes \<Rightarrow> bytes \<Rightarrow> bytes \<Rightarrow> bytes option \<Rightarrow> NoiseParams" where
  "NoiseParams_new c sk pk peer psk =
     \<lparr>static_public = pk, static_private = sk, peer_static_public = peer,
      static_shared = x25519_dh c sk peer,
      sending_mac1_key = b2s_hash c LABEL_MAC1 peer,
      cookie_key = b2s_hash c LABEL_COOKIE peer,
      preshared_key = psk\<rparr>"

definition NoiseParams_set_static_private ::
  "crypto \<Rightarrow> NoiseParams \<Rightarrow> bytes \<Rightarrow> bytes \<Rightarrow> NoiseParams panics" where
  "NoiseParams_set_static_private c p sk pk =
     (if x25519_public c sk \<noteq> pk then None
      else Some (p\<lparr>static_private := sk, static_public := pk,
                   static_shared := x25519_dh c sk (peer_static_public p)\<rparr>))"

definition Handshake_new ::
  "crypto \<Rightarrow> bytes \<Rightarrow> bytes \<Rightarrow> bytes \<Rightarrow> u32 \<Rightarrow> bytes option \<Rightarrow> 'w world_scheme
     \<Rightarrow> (Handshake \<times> 'w world_scheme) panics" where
  "Handshake_new c sk pk peer global_idx psk w = do {
     (st, w) \<leftarrow> TimeStamper_new w;
     Some (\<lparr>params = NoiseParams_new c sk pk peer psk, next_index = global_idx,
            previous = HsNone, hs_state = HsNone,
            cookies = \<lparr>last_mac1 = None, cookies_index = 0, write_cookie = None\<rparr>,
            last_handshake_timestamp = Tai64N_zero, stamper = st, last_rtt = None\<rparr>, w)
   }"

definition is_in_progress :: "Handshake \<Rightarrow> bool" where
  "is_in_progress h = (case hs_state h of HsNone \<Rightarrow> False | HsExpired \<Rightarrow> False | _ \<Rightarrow> True)"

definition timer :: "Handshake \<Rightarrow> instant option" where
  "timer h = (case hs_state h of InitSent s \<Rightarrow> Some (is_time_sent s) | _ \<Rightarrow> None)"

definition set_expired :: "Handshake \<Rightarrow> Handshake" where
  "set_expired h = h\<lparr>previous := HsExpired, hs_state := HsExpired\<rparr>"

definition is_expired :: "Handshake \<Rightarrow> bool" where
  "is_expired h = (case hs_state h of HsExpired \<Rightarrow> True | _ \<Rightarrow> False)"

definition has_cookie :: "Handshake \<Rightarrow> bool" where
  "has_cookie h \<longleftrightarrow> write_cookie (cookies h) \<noteq> None"

definition clear_cookie :: "Handshake \<Rightarrow> Handshake" where
  "clear_cookie h = h\<lparr>cookies := (cookies h)\<lparr>write_cookie := None\<rparr>\<rparr>"

definition inc_index :: "Handshake \<Rightarrow> u32 \<times> Handshake" where
  "inc_index h =
     (let index = next_index h;
          idx8 = (ucast index :: u8);
          n = (index AND NOT 0xff) OR ucast (idx8 + 1)
      in (n, h\<lparr>next_index := n\<rparr>))"

definition Handshake_set_static_private ::
  "crypto \<Rightarrow> Handshake \<Rightarrow> bytes \<Rightarrow> bytes \<Rightarrow> Handshake panics" where
  "Handshake_set_static_private c h sk pk = do {
     p \<leftarrow> NoiseParams_set_static_private c (params h) sk pk;
     Some (h\<lparr>params := p\<rparr>)
   }"

section \<open>Writing messages\<close>

text \<open>\<open>msg\<close> is the part of the buffer before the two MAC fields, \<^verbatim>\<open>dst[..mac1_off]\<close>.\<close>

definition append_mac1_and_mac2 :: "crypto \<Rightarrow> Handshake \<Rightarrow> u32 \<Rightarrow> bytes \<Rightarrow> bytes \<times> Handshake" where
  "append_mac1_and_mac2 c h local_idx msg =
     (let msg_mac1 = b2s_keyed_mac_16 c (sending_mac1_key (params h)) msg;
          msg_mac2 = (case write_cookie (cookies h) of
              Some cookie \<Rightarrow> b2s_keyed_mac_16 c cookie (msg @ msg_mac1)
            | None \<Rightarrow> replicate 16 0)
      in (msg @ msg_mac1 @ msg_mac2,
          h\<lparr>cookies := (cookies h)\<lparr>cookies_index := local_idx, last_mac1 := Some msg_mac1\<rparr>\<rparr>))"

definition format_handshake_initiation ::
  "crypto \<Rightarrow> Handshake \<Rightarrow> nat \<Rightarrow> 'w world_scheme
     \<Rightarrow> ((bytes, WireGuardError) result \<times> Handshake \<times> 'w world_scheme) panics" where
  "format_handshake_initiation c h dst_len w =
     (if dst_len < HANDSHAKE_INIT_SZ then Some (Err DestinationBufferTooSmall, h, w)
      else
        let (local_idx, h) = inc_index h;
            chaining_key = INITIAL_CHAIN_KEY;
            hash = INITIAL_CHAIN_HASH;
            hash = b2s_hash c hash (peer_static_public (params h));
            (ephemeral_private, w) = OsRng_bytes 32 w;
            unencrypted_ephemeral = x25519_public c ephemeral_private;
            hash = b2s_hash c hash unencrypted_ephemeral;
            chaining_key = b2s_kdf1 c chaining_key unencrypted_ephemeral;
            ephemeral_shared = x25519_dh c ephemeral_private (peer_static_public (params h));
            (chaining_key, key) = b2s_kdf2 c chaining_key ephemeral_shared
        in do {
          encrypted_static \<leftarrow> aead_chacha20_seal c 48 key 0 (static_public (params h)) hash;
          let hash = b2s_hash c hash encrypted_static;
          let (chaining_key, key) = b2s_kdf2 c chaining_key (static_shared (params h));
          let (timestamp, w) = stamp (stamper h) w;
          encrypted_timestamp \<leftarrow> aead_chacha20_seal c 28 key 0 timestamp hash;
          let hash = b2s_hash c hash encrypted_timestamp;
          let (time_now, w) = Instant_now w;
          let h = h\<lparr>previous := hs_state h,
                     hs_state := InitSent \<lparr>is_local_index = local_idx, is_hash = hash,
                       is_chaining_key = chaining_key, is_ephemeral_private = ephemeral_private,
                       is_time_sent = time_now\<rparr>\<rparr>;
          let (dst, h) = append_mac1_and_mac2 c h local_idx
                (word_to_le 4 HANDSHAKE_INIT @ word_to_le 4 local_idx @ unencrypted_ephemeral
                 @ encrypted_static @ encrypted_timestamp);
          Some (Ok dst, h, w)
        })"

definition format_handshake_response ::
  "crypto \<Rightarrow> Handshake \<Rightarrow> nat \<Rightarrow> 'w world_scheme
     \<Rightarrow> ((bytes \<times> Session, WireGuardError) result \<times> Handshake \<times> 'w world_scheme) panics" where
  "format_handshake_response c h dst_len w =
     (if dst_len < HANDSHAKE_RESP_SZ then Some (Err DestinationBufferTooSmall, h, w)
      else case hs_state h of
        InitReceived hash chaining_key peer_ephemeral_public peer_idx \<Rightarrow>
          (let h = h\<lparr>hs_state := HsNone\<rparr>;
               (ephemeral_private, w) = OsRng_bytes 32 w;
               (local_idx, h) = inc_index h;
               unencrypted_ephemeral = x25519_public c ephemeral_private;
               hash = b2s_hash c hash unencrypted_ephemeral;
               chaining_key = b2s_kdf1 c chaining_key unencrypted_ephemeral;
               ephemeral_shared = x25519_dh c ephemeral_private peer_ephemeral_public;
               chaining_key = b2s_kdf1 c chaining_key ephemeral_shared;
               chaining_key = b2s_kdf1 c chaining_key
                 (x25519_dh c ephemeral_private (peer_static_public (params h)));
               (chaining_key, temp2, key) = b2s_kdf3 c chaining_key
                 (case preshared_key (params h) of Some k \<Rightarrow> k | None \<Rightarrow> replicate 32 0);
               hash = b2s_hash c hash temp2
           in do {
             encrypted_nothing \<leftarrow> aead_chacha20_seal c 16 key 0 [] hash;
             let (temp2, temp3) = b2s_kdf2 c chaining_key [];
             let (dst, h) = append_mac1_and_mac2 c h local_idx
                   (word_to_le 4 HANDSHAKE_RESP @ word_to_le 4 local_idx @ word_to_le 4 peer_idx
                    @ unencrypted_ephemeral @ encrypted_nothing);
             Some (Ok (dst, Session_new local_idx peer_idx temp2 temp3), h, w)
           })
      | _ \<Rightarrow> None)"

section \<open>Reading messages\<close>

definition receive_handshake_initialization ::
  "crypto \<Rightarrow> Handshake \<Rightarrow> handshake_init \<Rightarrow> nat \<Rightarrow> 'w world_scheme
     \<Rightarrow> ((bytes \<times> Session, WireGuardError) result \<times> Handshake \<times> 'w world_scheme) panics" where
  "receive_handshake_initialization c h packet dst_len w =
     (let chaining_key = INITIAL_CHAIN_KEY;
          hash = INITIAL_CHAIN_HASH;
          hash = b2s_hash c hash (static_public (params h));
          peer_idx = hi_sender_idx packet;
          peer_ephemeral_public = hi_unencrypted_ephemeral packet;
          hash = b2s_hash c hash peer_ephemeral_public;
          chaining_key = b2s_kdf1 c chaining_key peer_ephemeral_public;
          ephemeral_shared = x25519_dh c (static_private (params h)) peer_ephemeral_public;
          (chaining_key, key) = b2s_kdf2 c chaining_key ephemeral_shared
      in case aead_chacha20_open c KEY_LEN key 0 (hi_encrypted_static packet) hash of
        None \<Rightarrow> None
      | Some (Err e) \<Rightarrow> Some (Err e, h, w)
      | Some (Ok peer_static_public_decrypted) \<Rightarrow>
        if peer_static_public (params h) \<noteq> peer_static_public_decrypted then Some (Err WrongKey, h, w)
        else
          let hash = b2s_hash c hash (hi_encrypted_static packet);
              (chaining_key, key) = b2s_kdf2 c chaining_key (static_shared (params h))
          in case aead_chacha20_open c TIMESTAMP_LEN key 0 (hi_encrypted_timestamp packet) hash of
            None \<Rightarrow> None
          | Some (Err e) \<Rightarrow> Some (Err e, h, w)
          | Some (Ok timestamp) \<Rightarrow>
            let timestamp = Tai64N_parse timestamp
            in if \<not> after timestamp (last_handshake_timestamp h)
               then Some (Err WrongTai64nTimestamp, h, w)
               else
                 let h = h\<lparr>last_handshake_timestamp := timestamp\<rparr>;
                     hash = b2s_hash c hash (hi_encrypted_timestamp packet);
                     h = h\<lparr>previous := hs_state h,
                           hs_state := InitReceived hash chaining_key peer_ephemeral_public peer_idx\<rparr>
                 in format_handshake_response c h dst_len w)"

text \<open>The pending initiation a response answers, and whether it is the previous one.\<close>

definition awaiting :: "Handshake \<Rightarrow> u32 \<Rightarrow> (HandshakeInitSentState \<times> bool) option" where
  "awaiting h idx =
     (case hs_state h of
        InitSent s \<Rightarrow>
          if is_local_index s = idx then Some (s, False)
          else (case previous h of
                  InitSent s' \<Rightarrow> if is_local_index s' = idx then Some (s', True) else None
                | _ \<Rightarrow> None)
      | _ \<Rightarrow>
          (case previous h of
             InitSent s' \<Rightarrow> if is_local_index s' = idx then Some (s', True) else None
           | _ \<Rightarrow> None))"

definition receive_handshake_response ::
  "crypto \<Rightarrow> Handshake \<Rightarrow> handshake_response \<Rightarrow> 'w world_scheme
     \<Rightarrow> ((Session, WireGuardError) result \<times> Handshake \<times> 'w world_scheme) panics" where
  "receive_handshake_response c h packet w =
     (case awaiting h (hr_receiver_idx packet) of
        None \<Rightarrow> Some (Err UnexpectedPacket, h, w)
      | Some (st, is_previous) \<Rightarrow>
        let peer_idx = hr_sender_idx packet;
            local_idx = is_local_index st;
            unencrypted_ephemeral = hr_unencrypted_ephemeral packet;
            hash = b2s_hash c (is_hash st) unencrypted_ephemeral;
            (chaining_key, _) = b2s_kdf2 c (is_chaining_key st) unencrypted_ephemeral;
            ephemeral_shared = x25519_dh c (is_ephemeral_private st) unencrypted_ephemeral;
            chaining_key = b2s_kdf1 c chaining_key ephemeral_shared;
            chaining_key = b2s_kdf1 c chaining_key
              (x25519_dh c (static_private (params h)) unencrypted_ephemeral);
            (chaining_key, temp2, key) = b2s_kdf3 c chaining_key
              (case preshared_key (params h) of Some k \<Rightarrow> k | None \<Rightarrow> replicate 32 0);
            hash = b2s_hash c hash temp2
        in case aead_chacha20_open c 0 key 0 (hr_encrypted_nothing packet) hash of
          None \<Rightarrow> None
        | Some (Err e) \<Rightarrow> Some (Err e, h, w)
        | Some (Ok _) \<Rightarrow>
          let (temp2, temp3) = b2s_kdf2 c chaining_key [];
              (now, w) = Instant_now w;
              rtt_time = duration_since now (is_time_sent st);
              h = h\<lparr>last_rtt := Some (of_nat (as_millis rtt_time))\<rparr>;
              h = (if is_previous then h\<lparr>previous := HsNone\<rparr> else h\<lparr>hs_state := HsNone\<rparr>)
          in Some (Ok (Session_new local_idx peer_idx temp3 temp2), h, w))"

definition COOKIE_SIZE :: nat where "COOKIE_SIZE = 16"

definition receive_cookie_reply ::
  "crypto \<Rightarrow> Handshake \<Rightarrow> packet_cookie_reply \<Rightarrow> ((unit, WireGuardError) result \<times> Handshake) panics" where
  "receive_cookie_reply c h packet =
     (case last_mac1 (cookies h) of
        None \<Rightarrow> Some (Err UnexpectedPacket, h)
      | Some mac1 \<Rightarrow>
        if cr_receiver_idx packet \<noteq> cookies_index (cookies h) then Some (Err WrongIndex, h)
        else if length (cr_nonce packet) \<noteq> 24
          \<or> length (cr_encrypted_cookie packet) \<noteq> COOKIE_SIZE + 16 then None
        else
          (case xchacha_decrypt c (cookie_key (params h)) (cr_nonce packet) mac1
                  (take COOKIE_SIZE (cr_encrypted_cookie packet))
                  (drop COOKIE_SIZE (cr_encrypted_cookie packet)) of
             None \<Rightarrow> Some (Err InvalidAeadTag, h)
           | Some cookie \<Rightarrow>
               Some (Ok (), h\<lparr>cookies := (cookies h)\<lparr>write_cookie := Some cookie\<rparr>\<rparr>)))"

section \<open>Session indices\<close>

lemma inc_index_word:
  "fst (inc_index h) = (next_index h AND NOT 0xff) OR ucast (ucast (next_index h) + 1 :: u8)"
  by (simp add: inc_index_def Let_def)

lemma snd_inc_index [simp]: "snd (inc_index h) = h\<lparr>next_index := fst (inc_index h)\<rparr>"
  by (simp add: inc_index_def Let_def)

lemma low_byte_mask: "(0xff :: u32) = mask 8"
  by (simp add: mask_eq_exp_minus_1)

lemma high_of_spliced: "drop_bit 8 ((x AND NOT (mask 8)) OR ucast (y :: u8)) = drop_bit 8 (x :: u32)"
  by (rule bit_word_eqI) (auto simp: bit_simps dest: bit_imp_le_length)

lemma low_of_spliced: "ucast (((x :: u32) AND NOT (mask 8)) OR ucast (y :: u8)) = y"
  by (rule bit_word_eqI) (auto simp: bit_simps)

lemma inc_index_high: "drop_bit 8 (fst (inc_index h)) = drop_bit 8 (next_index h)"
  unfolding inc_index_word low_byte_mask by (rule high_of_spliced)

lemma inc_index_low: "(ucast (fst (inc_index h)) :: u8) = ucast (next_index h) + 1"
  unfolding inc_index_word low_byte_mask by (rule low_of_spliced)

lemma inc_index_fresh: "fst (inc_index h) \<noteq> next_index h"
proof
  assume "fst (inc_index h) = next_index h"
  with inc_index_low [of h] have "(ucast (next_index h) :: u8) = ucast (next_index h) + 1" by simp
  then show False by simp
qed

section \<open>Agreement\<close>

text \<open>The parameters as \<^verbatim>\<open>NoiseParams::new\<close> computes them.\<close>

definition wf_params :: "crypto \<Rightarrow> NoiseParams \<Rightarrow> bool" where
  "wf_params c p \<longleftrightarrow>
     static_public p = x25519_public c (static_private p) \<and>
     static_shared p = x25519_dh c (static_private p) (peer_static_public p) \<and>
     sending_mac1_key p = b2s_hash c LABEL_MAC1 (peer_static_public p) \<and>
     cookie_key p = b2s_hash c LABEL_COOKIE (peer_static_public p)"

text \<open>Two parameter sets that name each other's public keys and the same preshared key.\<close>

definition matching :: "crypto \<Rightarrow> NoiseParams \<Rightarrow> NoiseParams \<Rightarrow> bool" where
  "matching c i r \<longleftrightarrow>
     wf_params c i \<and> wf_params c r \<and> peer_static_public i = static_public r \<and>
     peer_static_public r = static_public i \<and> preshared_key i = preshared_key r"

text \<open>The key schedule both ends compute, from the shared secrets.\<close>

definition init_h where
  "init_h c rpub epub = b2s_hash c (b2s_hash c INITIAL_CHAIN_HASH rpub) epub"

definition init_ck1 where
  "init_ck1 c epub es = b2s_kdf2 c (b2s_kdf1 c INITIAL_CHAIN_KEY epub) es"

definition init_ck2 where
  "init_ck2 c epub es ss = b2s_kdf2 c (fst (init_ck1 c epub es)) ss"

definition resp_keys where
  "resp_keys c ck epub ee se psk =
     b2s_kdf3 c (b2s_kdf1 c (b2s_kdf1 c (b2s_kdf1 c ck epub) ee) se)
       (case psk of Some k \<Rightarrow> k | None \<Rightarrow> replicate 32 0)"

definition resp_h where
  "resp_h c h epub temp2 = b2s_hash c (b2s_hash c h epub) temp2"

lemmas schedule_defs = init_h_def init_ck1_def init_ck2_def resp_keys_def resp_h_def

lemma length_stamp [simp]: "length (fst (stamp ts w)) = 12"
  by (simp add: stamp_def Let_def split_beta)

lemma receive_init_unfold:
  fixes h :: Handshake
  defines "p \<equiv> params h"
  shows "receive_handshake_initialization c h packet dst_len w =
     (let epub = hi_unencrypted_ephemeral packet; es = x25519_dh c (static_private p) epub;
          hash = init_h c (static_public p) epub
      in case aead_chacha20_open c KEY_LEN (snd (init_ck1 c epub es)) 0 (hi_encrypted_static packet) hash of
        None \<Rightarrow> None
      | Some (Err e) \<Rightarrow> Some (Err e, h, w)
      | Some (Ok key) \<Rightarrow>
        if peer_static_public p \<noteq> key then Some (Err WrongKey, h, w)
        else case aead_chacha20_open c TIMESTAMP_LEN (snd (init_ck2 c epub es (static_shared p))) 0
               (hi_encrypted_timestamp packet) (b2s_hash c hash (hi_encrypted_static packet)) of
          None \<Rightarrow> None
        | Some (Err e) \<Rightarrow> Some (Err e, h, w)
        | Some (Ok ts) \<Rightarrow>
          if \<not> after (Tai64N_parse ts) (last_handshake_timestamp h)
          then Some (Err WrongTai64nTimestamp, h, w)
          else format_handshake_response c
            (h\<lparr>last_handshake_timestamp := Tai64N_parse ts, previous := hs_state h,
               hs_state := InitReceived
                 (b2s_hash c (b2s_hash c hash (hi_encrypted_static packet)) (hi_encrypted_timestamp packet))
                 (fst (init_ck2 c epub es (static_shared p))) epub (hi_sender_idx packet)\<rparr>) dst_len w)"
  unfolding receive_handshake_initialization_def p_def schedule_defs Let_def split_beta
  by (simp cong: option.case_cong result.case_cong if_cong)

text \<open>What an initiation message contains and what it leaves in the initiator's state.\<close>

definition init_message ::
  "crypto \<Rightarrow> NoiseParams \<Rightarrow> bytes \<Rightarrow> bytes \<Rightarrow> handshake_init \<Rightarrow> HandshakeInitSentState \<Rightarrow> bool" where
  "init_message c p e ts m st \<longleftrightarrow>
     (let epub = x25519_public c e; es = x25519_dh c e (peer_static_public p);
          hash = init_h c (peer_static_public p) epub
      in hi_unencrypted_ephemeral m = epub \<and>
         aead_chacha20_open c KEY_LEN (snd (init_ck1 c epub es)) 0 (hi_encrypted_static m) hash
           = Some (Ok (static_public p)) \<and>
         aead_chacha20_open c TIMESTAMP_LEN (snd (init_ck2 c epub es (static_shared p))) 0
           (hi_encrypted_timestamp m) (b2s_hash c hash (hi_encrypted_static m)) = Some (Ok ts) \<and>
         is_local_index st = hi_sender_idx m \<and>
         is_ephemeral_private st = e \<and>
         is_chaining_key st = fst (init_ck2 c epub es (static_shared p)) \<and>
         is_hash st =
           b2s_hash c (b2s_hash c hash (hi_encrypted_static m)) (hi_encrypted_timestamp m))"

lemma format_init_ok:
  assumes c: "crypto_laws c" and d: "HANDSHAKE_INIT_SZ \<le> dst_len"
    and l: "length (static_public (params h)) = 32"
  obtains m macs st h' w' where
    "format_handshake_initiation c h dst_len w = Some (Ok (encode_packet (HandshakeInit m) macs), h', w')"
    "init_message c (params h) (fst (OsRng_bytes 32 w)) (fst (stamp (stamper h) (snd (OsRng_bytes 32 w)))) m st"
    "hi_sender_idx m = fst (inc_index h)" "wf_packet (HandshakeInit m)"
    "fst (append_mac1_and_mac2 c h (hi_sender_idx m) (encode_packet (HandshakeInit m) [])) =
       encode_packet (HandshakeInit m) macs"
    "h' = snd (append_mac1_and_mac2 c h (hi_sender_idx m) (encode_packet (HandshakeInit m) []))
       \<lparr>next_index := fst (inc_index h), previous := hs_state h, hs_state := InitSent st\<rparr>"
    "(is_time_sent st, w') = Instant_now (snd (stamp (stamper h) (snd (OsRng_bytes 32 w))))"
proof -
  define e where "e = fst (OsRng_bytes 32 w)"
  define w1 where "w1 = snd (OsRng_bytes 32 w)"
  define ts where "ts = fst (stamp (stamper h) w1)"
  define w2 where "w2 = snd (stamp (stamper h) w1)"
  define p where "p = params h"
  define epub where "epub = x25519_public c e"
  define es where "es = x25519_dh c e (peer_static_public p)"
  define hash where "hash = init_h c (peer_static_public p) epub"
  obtain ct1 where ct1: "aead_chacha20_seal c 48 (snd (init_ck1 c epub es)) 0 (static_public p) hash = Some ct1"
    "length ct1 = 48" "aead_chacha20_open c 32 (snd (init_ck1 c epub es)) 0 ct1 hash = Some (Ok (static_public p))"
    by (rule seal_open [OF c, of "static_public p" 32 48]) (use l in \<open>auto simp: p_def\<close>)
  obtain ct2 where ct2: "aead_chacha20_seal c 28 (snd (init_ck2 c epub es (static_shared p))) 0 ts (b2s_hash c hash ct1) = Some ct2"
    "length ct2 = 28"
    "aead_chacha20_open c 12 (snd (init_ck2 c epub es (static_shared p))) 0 ct2 (b2s_hash c hash ct1) = Some (Ok ts)"
    by (rule seal_open [OF c, of ts 12 28]) (auto simp: ts_def)
  define m where "m = \<lparr>hi_sender_idx = fst (inc_index h), hi_unencrypted_ephemeral = epub,
     hi_encrypted_static = ct1, hi_encrypted_timestamp = ct2\<rparr>"
  define st where "st = \<lparr>is_local_index = fst (inc_index h),
     is_hash = b2s_hash c (b2s_hash c hash ct1) ct2,
     is_chaining_key = fst (init_ck2 c epub es (static_shared p)), is_ephemeral_private = e,
     is_time_sent = fst (Instant_now w2)\<rparr>"
  define out where "out = append_mac1_and_mac2 c h (hi_sender_idx m) (encode_packet (HandshakeInit m) [])"
  define h' where "h' = snd out\<lparr>next_index := fst (inc_index h), previous := hs_state h, hs_state := InitSent st\<rparr>"
  define macs where "macs = drop 116 (fst out)"
  have wf: "wf_packet (HandshakeInit m)"
    using c ct1 ct2 by (simp add: m_def epub_def crypto_len)
  have out: "fst out = encode_packet (HandshakeInit m) macs"
    using c ct1 ct2
    by (simp add: out_def macs_def append_mac1_and_mac2_def Let_def m_def epub_def crypto_len)
  note f = ct1(1) ct2(1)
  have "format_handshake_initiation c h dst_len w = Some (Ok (fst out), h', snd (Instant_now w2))"
    using d f
    unfolding format_handshake_initiation_def Let_def split_beta schedule_defs
      epub_def es_def hash_def p_def ts_def e_def w1_def w2_def
      h'_def out_def m_def st_def
    by (simp add: append_mac1_and_mac2_def Let_def)
  moreover have "init_message c (params h) (fst (OsRng_bytes 32 w))
      (fst (stamp (stamper h) (snd (OsRng_bytes 32 w)))) m st"
    using ct1(3) ct2(3)
    unfolding init_message_def Let_def e_def [symmetric] w1_def [symmetric] ts_def [symmetric]
      p_def [symmetric] epub_def [symmetric] es_def [symmetric] hash_def [symmetric]
    by (simp add: m_def st_def KEY_LEN_def TIMESTAMP_LEN_def)
  ultimately show ?thesis
    using wf out
    by (intro that [of m macs h' "snd (Instant_now w2)" st])
      (simp_all add: h'_def out_def m_def st_def w2_def w1_def)
qed

text \<open>The response: what it contains, and the responder's session.\<close>

definition resp_message ::
  "crypto \<Rightarrow> NoiseParams \<Rightarrow> bytes \<Rightarrow> HandshakeState \<Rightarrow> handshake_response \<Rightarrow> Session \<Rightarrow> bool" where
  "resp_message c p e st m s \<longleftrightarrow>
     (let epub = x25519_public c e;
          (ck, temp2, key) = resp_keys c (ir_chaining_key st) epub
            (x25519_dh c e (ir_peer_ephemeral_public st)) (x25519_dh c e (peer_static_public p))
            (preshared_key p)
      in hr_unencrypted_ephemeral m = epub \<and>
         hr_receiver_idx m = ir_peer_index st \<and>
         aead_chacha20_open c 0 key 0 (hr_encrypted_nothing m) (resp_h c (ir_hash st) epub temp2)
           = Some (Ok []) \<and>
         s = Session_new (hr_sender_idx m) (ir_peer_index st) (fst (b2s_kdf2 c ck []))
               (snd (b2s_kdf2 c ck [])))"

lemma format_resp_ok:
  assumes c: "crypto_laws c" and d: "HANDSHAKE_RESP_SZ \<le> dst_len"
    and st: "hs_state h = InitReceived hash ck pe pidx"
  obtains m macs s where
    "format_handshake_response c h dst_len w =
       Some (Ok (encode_packet (HandshakeResponse m) macs, s),
         snd (append_mac1_and_mac2 c h (hr_sender_idx m) (encode_packet (HandshakeResponse m) []))
           \<lparr>next_index := fst (inc_index h), hs_state := HsNone\<rparr>,
         snd (OsRng_bytes 32 w))"
    "resp_message c (params h) (fst (OsRng_bytes 32 w)) (hs_state h) m s"
    "hr_sender_idx m = fst (inc_index h)" "wf_packet (HandshakeResponse m)"
    "fst (append_mac1_and_mac2 c h (hr_sender_idx m) (encode_packet (HandshakeResponse m) [])) =
       encode_packet (HandshakeResponse m) macs"
proof -
  define e where "e = fst (OsRng_bytes 32 w)"
  define p where "p = params h"
  define epub where "epub = x25519_public c e"
  define ks where "ks = resp_keys c ck epub (x25519_dh c e pe) (x25519_dh c e (peer_static_public p)) (preshared_key p)"
  define hash' where "hash' = resp_h c hash epub (fst (snd ks))"
  obtain ct where ct: "aead_chacha20_seal c 16 (snd (snd ks)) 0 [] hash' = Some ct"
    "length ct = 16" "aead_chacha20_open c 0 (snd (snd ks)) 0 ct hash' = Some (Ok [])"
    by (rule seal_open [OF c, of "[]" 0 16]) auto
  define m where "m = \<lparr>hr_sender_idx = fst (inc_index h), hr_receiver_idx = pidx,
     hr_unencrypted_ephemeral = epub, hr_encrypted_nothing = ct\<rparr>"
  define s where "s = Session_new (fst (inc_index h)) pidx (fst (b2s_kdf2 c (fst ks) []))
               (snd (b2s_kdf2 c (fst ks) []))"
  define out where "out = append_mac1_and_mac2 c h (hr_sender_idx m) (encode_packet (HandshakeResponse m) [])"
  define macs where "macs = drop 60 (fst out)"
  have wf: "wf_packet (HandshakeResponse m)"
    using c ct by (simp add: m_def epub_def crypto_len)
  have out: "fst out = encode_packet (HandshakeResponse m) macs"
    using c ct
    by (simp add: out_def macs_def append_mac1_and_mac2_def Let_def m_def epub_def crypto_len)
  have ii: "fst (inc_index (h\<lparr>hs_state := HsNone\<rparr>)) = fst (inc_index h)"
    by (simp add: inc_index_word)
  have "format_handshake_response c h dst_len w =
     Some (Ok (fst out, s), snd out\<lparr>next_index := fst (inc_index h), hs_state := HsNone\<rparr>,
         snd (OsRng_bytes 32 w))"
    using d ct(1)
    unfolding format_handshake_response_def Let_def split_beta st schedule_defs ii
      epub_def hash'_def p_def e_def ks_def
      out_def m_def s_def
    by (simp add: append_mac1_and_mac2_def Let_def ii)
  moreover have "resp_message c (params h) (fst (OsRng_bytes 32 w)) (hs_state h) m s"
    using ct(3)
    unfolding resp_message_def Let_def split_beta e_def [symmetric] p_def [symmetric]
      epub_def [symmetric] st
    by (simp add: m_def s_def hash'_def ks_def)
  ultimately show ?thesis
    using wf out by (intro that [of m macs s]) (simp_all add: out_def m_def)
qed

lemma matching_dh:
  assumes c: "crypto_laws c" and m: "matching c i r"
  shows "static_shared r = static_shared i"
    and "x25519_dh c (static_private r) (x25519_public c e) = x25519_dh c e (peer_static_public i)"
    and "x25519_dh c (static_private i) (x25519_public c e) = x25519_dh c e (peer_static_public r)"
    and "static_public r = peer_static_public i" "peer_static_public r = static_public i"
    and "preshared_key r = preshared_key i"
    and "length (static_public i) = 32"
  using m dh_commutes [OF c] by (auto simp: matching_def wf_params_def crypto_len [OF c])

lemma matching_sym: "matching c i r \<Longrightarrow> matching c r i"
  by (auto simp: matching_def)

lemma receive_init_ok:
  assumes c: "crypto_laws c" and m: "matching c i (params r)"
    and im: "init_message c i e ts m st"
    and t: "after (Tai64N_parse ts) (last_handshake_timestamp r)"
  shows "receive_handshake_initialization c r m dst_len w =
    format_handshake_response c
      (r\<lparr>last_handshake_timestamp := Tai64N_parse ts, previous := hs_state r,
         hs_state := InitReceived (is_hash st) (is_chaining_key st)
           (x25519_public c (is_ephemeral_private st)) (is_local_index st)\<rparr>) dst_len w"
proof -
  note d = matching_dh [OF c m]
  show ?thesis
    using im t unfolding receive_init_unfold init_message_def Let_def d
    by (simp add: d)
qed

definition answered :: "Handshake \<Rightarrow> HandshakeInitSentState \<Rightarrow> bool \<Rightarrow> instant \<Rightarrow> Handshake" where
  "answered h st is_previous now =
     (let h = h\<lparr>last_rtt := Some (of_nat (as_millis (duration_since now (is_time_sent st))))\<rparr>
      in if is_previous then h\<lparr>previous := HsNone\<rparr> else h\<lparr>hs_state := HsNone\<rparr>)"

lemma receive_resp_unfold:
  "receive_handshake_response c h m w =
     (case awaiting h (hr_receiver_idx m) of
        None \<Rightarrow> Some (Err UnexpectedPacket, h, w)
      | Some (st, is_previous) \<Rightarrow>
        let epub = hr_unencrypted_ephemeral m;
            ks = resp_keys c (is_chaining_key st) epub (x25519_dh c (is_ephemeral_private st) epub)
              (x25519_dh c (static_private (params h)) epub) (preshared_key (params h))
        in case aead_chacha20_open c 0 (snd (snd ks)) 0 (hr_encrypted_nothing m)
             (resp_h c (is_hash st) epub (fst (snd ks))) of
          None \<Rightarrow> None
        | Some (Err e) \<Rightarrow> Some (Err e, h, w)
        | Some (Ok _) \<Rightarrow>
          Some (Ok (Session_new (is_local_index st) (hr_sender_idx m)
                 (snd (b2s_kdf2 c (fst ks) [])) (fst (b2s_kdf2 c (fst ks) []))),
            answered h st is_previous (fst (Instant_now w)), snd (Instant_now w)))"
  unfolding receive_handshake_response_def Let_def split_beta schedule_defs
    kdf2_kdf1 answered_def
  by (simp cong: option.case_cong result.case_cong)

lemma receive_resp_ok:
  assumes c: "crypto_laws c" and m: "matching c (params h) r"
    and a: "awaiting h (hr_receiver_idx m) = Some (st, is_previous)"
    and rm: "resp_message c r e (InitReceived (is_hash st) (is_chaining_key st)
           (x25519_public c (is_ephemeral_private st)) (is_local_index st)) m sr"
  obtains s where "receive_handshake_response c h m w =
      Some (Ok s, answered h st is_previous (fst (Instant_now w)), snd (Instant_now w))"
    "paired s sr" "paired sr s" "local_index s = unat (is_local_index st)"
    "\<exists>a b k k'. s = Session_new a b k k'"
proof -
  note d = matching_dh [OF c m]
  define ks where "ks = resp_keys c (is_chaining_key st) (x25519_public c e)
     (x25519_dh c e (x25519_public c (is_ephemeral_private st)))
     (x25519_dh c e (peer_static_public r)) (preshared_key r)"
  define s where "s = Session_new (is_local_index st) (hr_sender_idx m)
                 (snd (b2s_kdf2 c (fst ks) [])) (fst (b2s_kdf2 c (fst ks) []))"
  have rm': "hr_unencrypted_ephemeral m = x25519_public c e"
    "aead_chacha20_open c 0 (snd (snd ks)) 0 (hr_encrypted_nothing m)
       (resp_h c (is_hash st) (x25519_public c e) (fst (snd ks))) = Some (Ok [])"
    "sr = Session_new (hr_sender_idx m) (is_local_index st) (fst (b2s_kdf2 c (fst ks) []))
               (snd (b2s_kdf2 c (fst ks) []))"
    using rm unfolding resp_message_def Let_def split_beta ks_def by simp_all
  show ?thesis
  proof (rule that [of s])
    show "receive_handshake_response c h m w =
      Some (Ok s, answered h st is_previous (fst (Instant_now w)), snd (Instant_now w))"
      using rm'(2) unfolding receive_resp_unfold a Let_def rm'(1) d(3) s_def ks_def
      by (simp add: dh_commutes [OF c, of "is_ephemeral_private st" e] d(6))
  qed (auto simp: s_def rm'(3) paired_def Session_new_def local_index_def)
qed

lemma Session_new_fresh: "fresh_for (Session_new a b k k') 0"
  by (auto simp: fresh_for_def Session_new_def spec_accepts_def
      intro!: exI [of _ "{}"] window_inv_default)

lemma params_append_mac [simp]:
  "params (snd (append_mac1_and_mac2 c h idx msg)) = params h"
  "hs_state (snd (append_mac1_and_mac2 c h idx msg)) = hs_state h"
  "previous (snd (append_mac1_and_mac2 c h idx msg)) = previous h"
  "last_handshake_timestamp (snd (append_mac1_and_mac2 c h idx msg)) = last_handshake_timestamp h"
  "stamper (snd (append_mac1_and_mac2 c h idx msg)) = stamper h"
  "next_index (snd (append_mac1_and_mac2 c h idx msg)) = next_index h"
  by (simp_all add: append_mac1_and_mac2_def Let_def)

lemma macs_length:
  assumes "crypto_laws c" "fst (append_mac1_and_mac2 c h idx (encode_packet p [])) = encode_packet p macs"
  shows "length macs = 32"
proof -
  have "length (fst (append_mac1_and_mac2 c h idx msg)) = length msg + 32" for msg
    using assms(1) by (simp add: append_mac1_and_mac2_def Let_def crypto_len split: option.split)
  with assms(2) have "length (encode_packet p macs) = length (encode_packet p []) + 32" by metis
  then show ?thesis by (cases p) simp_all
qed

lemma parse_stamp:
  "Tai64N_parse (fst (stamp ts w)) =
     (let d = since (instant_at_start ts) w + duration_at_start ts
      in \<lparr>tai_secs = of_nat (as_secs d) + TAI64_BASE, tai_nano = of_nat (subsec_nanos d)\<rparr>)"
  by (simp add: Tai64N_parse_def stamp_def Let_def split_beta since_def Instant_now_def)

text \<open>
  C4.  The handshake agrees.  Between two peers that name each other's public keys and the same
  preshared key, an initiation with a newer time stamp than the last one is accepted, its response
  is accepted by the initiator, and the two sessions are paired in both directions: each end sends
  under the key and the index the other end receives with, and the first packets are accepted.
  Each step reads its own machine's clock and randomness (\<open>w1\<close>, \<open>w2\<close>, \<open>w3\<close> are arbitrary).
\<close>

theorem handshake_agreement:
  assumes c: "crypto_laws c" and m: "matching c (params i) (params r)"
    and d: "HANDSHAKE_INIT_SZ \<le> n1" "HANDSHAKE_RESP_SZ \<le> n2"
    and t: "after (Tai64N_parse (fst (stamp (stamper i) (snd (OsRng_bytes 32 w1)))))
              (last_handshake_timestamp r)"
  shows "\<exists>dgram1 i1 w1' m1 dgram2 sr r1 w2' m2 si i2 w3'.
    format_handshake_initiation c i n1 w1 = Some (Ok dgram1, i1, w1') \<and>
    parse_incoming_packet dgram1 = Ok (HandshakeInit m1) \<and>
    receive_handshake_initialization c r m1 n2 w2 = Some (Ok (dgram2, sr), r1, w2') \<and>
    parse_incoming_packet dgram2 = Ok (HandshakeResponse m2) \<and>
    receive_handshake_response c i1 m2 w3 = Some (Ok si, i2, w3') \<and>
    paired si sr \<and> paired sr si \<and>
    fresh_for sr (sending_key_counter si) \<and> fresh_for si (sending_key_counter sr) \<and>
    \<not> is_in_progress i2 \<and> \<not> is_in_progress r1"
proof -
  obtain m1 macs1 st i1 w1' where
    f1: "format_handshake_initiation c i n1 w1 = Some (Ok (encode_packet (HandshakeInit m1) macs1), i1, w1')"
    and im: "init_message c (params i) (fst (OsRng_bytes 32 w1))
       (fst (stamp (stamper i) (snd (OsRng_bytes 32 w1)))) m1 st"
    and wf1: "wf_packet (HandshakeInit m1)"
    and mac1: "fst (append_mac1_and_mac2 c i (hi_sender_idx m1) (encode_packet (HandshakeInit m1) [])) =
       encode_packet (HandshakeInit m1) macs1"
    and i1: "i1 = snd (append_mac1_and_mac2 c i (hi_sender_idx m1) (encode_packet (HandshakeInit m1) []))
       \<lparr>next_index := fst (inc_index i), previous := hs_state i, hs_state := InitSent st\<rparr>"
    by (rule format_init_ok [OF c d(1) matching_dh(7) [OF c m], of w1]) blast
  define ir where "ir = InitReceived (is_hash st) (is_chaining_key st)
           (x25519_public c (is_ephemeral_private st)) (is_local_index st)"
  define r0 where "r0 = r\<lparr>last_handshake_timestamp := Tai64N_parse (fst (stamp (stamper i) (snd (OsRng_bytes 32 w1)))),
     previous := hs_state r, hs_state := ir\<rparr>"
  have st0: "hs_state r0 = InitReceived (is_hash st) (is_chaining_key st)
           (x25519_public c (is_ephemeral_private st)) (is_local_index st)"
    by (simp add: r0_def ir_def)
  obtain m2 macs2 sr where
    f2: "format_handshake_response c r0 n2 w2 = Some (Ok (encode_packet (HandshakeResponse m2) macs2, sr),
         snd (append_mac1_and_mac2 c r0 (hr_sender_idx m2) (encode_packet (HandshakeResponse m2) []))
           \<lparr>next_index := fst (inc_index r0), hs_state := HsNone\<rparr>, snd (OsRng_bytes 32 w2))"
    and rm: "resp_message c (params r0) (fst (OsRng_bytes 32 w2)) (hs_state r0) m2 sr"
    and wf2: "wf_packet (HandshakeResponse m2)"
    and mac2: "fst (append_mac1_and_mac2 c r0 (hr_sender_idx m2) (encode_packet (HandshakeResponse m2) [])) =
       encode_packet (HandshakeResponse m2) macs2"
    by (rule format_resp_ok [OF c d(2) st0, of w2]) blast
  have rm': "resp_message c (params r) (fst (OsRng_bytes 32 w2)) ir m2 sr"
    using rm by (simp add: r0_def)
  then have sr: "sending_key_counter sr = 0" "\<exists>a b k k'. sr = Session_new a b k k'"
    and aw: "awaiting i1 (hr_receiver_idx m2) = Some (st, False)"
    by (auto simp: resp_message_def Let_def Session_new_def ir_def awaiting_def i1 split: prod.splits)
  have m1: "matching c (params i1) (params r)" using m by (simp add: i1)
  obtain si where si: "receive_handshake_response c i1 m2 w3 =
      Some (Ok si, answered i1 st False (fst (Instant_now w3)), snd (Instant_now w3))"
    "paired si sr" "paired sr si" "\<exists>a b k k'. si = Session_new a b k k'"
    by (rule receive_resp_ok [OF c m1 aw rm' [unfolded ir_def], of w3]) blast
  have "fresh_for sr 0" "fresh_for si 0" "sending_key_counter si = 0"
    using sr(2) si(4) Session_new_fresh by (auto simp: Session_new_def)
  then show ?thesis
    using f1 f2 si sr parse_encode [OF wf1, of macs1] parse_encode [OF wf2, of macs2]
      macs_length [OF c mac1] macs_length [OF c mac2] receive_init_ok [OF c m im t, of n2 w2]
    by (simp add: r0_def ir_def is_in_progress_def answered_def Let_def)
qed

text \<open>A pair of concrete peers.\<close>

definition sample_handshake :: "bytes \<Rightarrow> bytes \<Rightarrow> Handshake" where
  "sample_handshake sk peer_sk =
     fst (the (Handshake_new sample_crypto sk (x25519_public sample_crypto sk)
       (x25519_public sample_crypto peer_sk) 256 None (sample_world 0)))"

lemma sample_handshake:
  "sample_handshake sk peer_sk =
     \<lparr>params = NoiseParams_new sample_crypto sk (x25519_public sample_crypto sk)
        (x25519_public sample_crypto peer_sk) None,
      next_index = 256, previous = HsNone, hs_state = HsNone,
      cookies = \<lparr>last_mac1 = None, cookies_index = 0, write_cookie = None\<rparr>,
      last_handshake_timestamp = Tai64N_zero,
      stamper = \<lparr>duration_at_start = 1700000000000000000,
                 instant_at_start = \<lparr>tv_sec = 100, tv_nsec = 0\<rparr>\<rparr>,
      last_rtt = None\<rparr>"
  by (simp add: sample_handshake_def Handshake_new_def TimeStamper_new_def SystemTime_since_epoch_def
      sample_world_def Instant_now_def Let_def)

lemma sample_handshake_fields [simp]:
  "params (sample_handshake sk psk) = NoiseParams_new sample_crypto sk (x25519_public sample_crypto sk)
        (x25519_public sample_crypto psk) None"
  "last_handshake_timestamp (sample_handshake sk psk) = Tai64N_zero"
  by (simp_all add: sample_handshake)

lemma NoiseParams_new_wf:
  "pk = x25519_public c sk \<Longrightarrow> wf_params c (NoiseParams_new c sk pk peer psk)"
  by (simp add: wf_params_def NoiseParams_new_def)

lemma NoiseParams_new_matching:
  assumes "pk = x25519_public c sk" "pk' = x25519_public c sk'"
  shows "matching c (NoiseParams_new c sk pk pk' psk) (NoiseParams_new c sk' pk' pk psk)"
  using assms by (simp add: matching_def wf_params_def NoiseParams_new_def)

lemma sample_stamp_newer:
  "after (Tai64N_parse (fst (stamp (stamper (sample_handshake sk psk)) (snd (OsRng_bytes 32 (sample_world k))))))
     Tai64N_zero"
proof -
  have "since \<lparr>tv_sec = 100, tv_nsec = 0\<rparr> (snd (OsRng_bytes 32 (sample_world k))) = 0"
    by (simp add: since_def OsRng_bytes_def sample_world_def duration_since_def
        checked_duration_since_def Duration_new_def)
  then show ?thesis
    by (simp add: parse_stamp sample_handshake after_def Tai64N_zero_def TAI64_BASE_def as_secs_def
        NANOS_PER_SEC_def push_bit_eq_mult word_less_nat_alt)
qed

theorem handshake_agreement_witness:
  "\<exists>dgram1 i1 w1' m1 dgram2 sr r1 w2' m2 si i2 w3'.
    format_handshake_initiation sample_crypto (sample_handshake [1] [2]) 148 (sample_world 0)
      = Some (Ok dgram1, i1, w1') \<and>
    parse_incoming_packet dgram1 = Ok (HandshakeInit m1) \<and>
    receive_handshake_initialization sample_crypto (sample_handshake [2] [1]) m1 92 (sample_world 7)
      = Some (Ok (dgram2, sr), r1, w2') \<and>
    parse_incoming_packet dgram2 = Ok (HandshakeResponse m2) \<and>
    receive_handshake_response sample_crypto i1 m2 (sample_world 3) = Some (Ok si, i2, w3') \<and>
    paired si sr \<and> paired sr si \<and>
    fresh_for sr (sending_key_counter si) \<and> fresh_for si (sending_key_counter sr) \<and>
    \<not> is_in_progress i2 \<and> \<not> is_in_progress r1"
  by (rule handshake_agreement [OF sample_crypto_laws])
    (simp_all add: NoiseParams_new_matching sample_stamp_newer msg_const_defs)

section \<open>Replayed initiations\<close>

text \<open>The value of a time stamp as one number.\<close>

definition tai_value :: "Tai64N \<Rightarrow> nat" where
  "tai_value t = unat (tai_secs t) * 2 ^ 32 + unat (tai_nano t)"

lemma after_iff: "after a b \<longleftrightarrow> tai_value b < tai_value a"
proof -
  have n: "unat (tai_nano a) < 2 ^ 32" "unat (tai_nano b) < 2 ^ 32"
    using unat_bound [of "tai_nano a"] unat_bound [of "tai_nano b"] by simp_all
  have lt: "x * 2 ^ 32 + m < y * 2 ^ 32 + n" if "x < y" "m < 2 ^ 32" for x y m n :: nat
  proof -
    have "Suc x * 2 ^ 32 \<le> y * 2 ^ 32" using that by (intro mult_right_mono) simp_all
    with that show ?thesis by simp
  qed
  consider "unat (tai_secs a) < unat (tai_secs b)" | "unat (tai_secs b) < unat (tai_secs a)"
    | "unat (tai_secs a) = unat (tai_secs b)" by linarith
  then show ?thesis
  proof cases
    case 1
    with lt [OF 1 n(1), of "unat (tai_nano b)"] show ?thesis
      by (auto simp: after_def tai_value_def word_less_nat_alt word_unat_eq_iff)
  next
    case 2
    with lt [OF 2 n(2), of "unat (tai_nano a)"] show ?thesis
      by (auto simp: after_def tai_value_def word_less_nat_alt word_unat_eq_iff)
  next
    case 3
    then show ?thesis by (auto simp: after_def tai_value_def word_less_nat_alt word_unat_eq_iff)
  qed
qed

text \<open>The time stamp an initiation authenticates to a responder with parameters \<open>p\<close>.\<close>

definition init_timestamp :: "crypto \<Rightarrow> NoiseParams \<Rightarrow> handshake_init \<Rightarrow> Tai64N option" where
  "init_timestamp c p packet =
     (let epub = hi_unencrypted_ephemeral packet; es = x25519_dh c (static_private p) epub;
          hash = init_h c (static_public p) epub
      in case aead_chacha20_open c KEY_LEN (snd (init_ck1 c epub es)) 0 (hi_encrypted_static packet) hash of
        Some (Ok key) \<Rightarrow>
          if peer_static_public p \<noteq> key then None
          else (case aead_chacha20_open c TIMESTAMP_LEN (snd (init_ck2 c epub es (static_shared p))) 0
               (hi_encrypted_timestamp packet) (b2s_hash c hash (hi_encrypted_static packet)) of
            Some (Ok ts) \<Rightarrow> Some (Tai64N_parse ts)
          | _ \<Rightarrow> None)
      | _ \<Rightarrow> None)"

lemma aead_open_err:
  "aead_chacha20_open c n k ctr d a = Some (Err e) \<Longrightarrow> e = InvalidAeadTag"
  by (auto simp: aead_chacha20_open_def split: if_splits option.splits result.splits)

lemma case_openE:
  assumes "(case aead_chacha20_open c n k ctr d a of None \<Rightarrow> None
            | Some (Err e) \<Rightarrow> Some (Err e, x) | Some (Ok pt) \<Rightarrow> f pt) = Some z"
  obtains "z = (Err InvalidAeadTag, x)"
    | pt where "aead_chacha20_open c n k ctr d a = Some (Ok pt)" "f pt = Some z"
  using assms by (auto split: option.splits result.splits dest: aead_open_err)

lemma receive_init_cases:
  assumes "receive_handshake_initialization c h m dst_len w = Some (r, h', w')"
  obtains (refused) e where "r = Err e" "h' = h" "w' = w"
      "e = InvalidAeadTag \<or> e = WrongKey \<or> e = WrongTai64nTimestamp"
    | (newer) ts hash ck where "init_timestamp c (params h) m = Some ts"
      "after ts (last_handshake_timestamp h)"
      "format_handshake_response c
         (h\<lparr>last_handshake_timestamp := ts, previous := hs_state h,
            hs_state := InitReceived hash ck (hi_unencrypted_ephemeral m) (hi_sender_idx m)\<rparr>)
         dst_len w = Some (r, h', w')"
  using assms unfolding receive_init_unfold Let_def
  by (auto simp: init_timestamp_def Let_def dest: aead_open_err
      split: option.splits result.splits if_splits)

lemma format_resp_cases:
  assumes "format_handshake_response c h dst_len w = Some (r, h', w')"
  obtains (small) "r = Err DestinationBufferTooSmall" "h' = h" "w' = w" "dst_len < HANDSHAKE_RESP_SZ"
    | (sent) hash ck pe pidx dgram s cs where "hs_state h = InitReceived hash ck pe pidx"
      "HANDSHAKE_RESP_SZ \<le> dst_len"
      "r = Ok (dgram, s)" "receiving_index s = fst (inc_index h)" "sending_index s = pidx"
      "h' = h\<lparr>hs_state := HsNone, next_index := fst (inc_index h), cookies := cs\<rparr>"
      "w' = snd (OsRng_bytes 32 w)"
proof (cases "dst_len < HANDSHAKE_RESP_SZ")
  case True
  with assms small show ?thesis by (simp add: format_handshake_response_def)
next
  case False
  then obtain hash ck pe pidx where st: "hs_state h = InitReceived hash ck pe pidx"
    using assms by (auto simp: format_handshake_response_def split: HandshakeState.splits)
  have ii: "fst (inc_index (h\<lparr>hs_state := HsNone\<rparr>)) = fst (inc_index h)"
    by (simp add: inc_index_word)
  show ?thesis
    using assms False
    by (auto simp: format_handshake_response_def st Let_def split_beta append_mac1_and_mac2_def ii
        Session_new_def bind_eq_Some_conv intro!: sent [OF st])
qed

lemma format_init_cases:
  assumes "format_handshake_initiation c h dst_len w = Some (r, h', w')"
  obtains (small) "r = Err DestinationBufferTooSmall" "h' = h" "w' = w" "dst_len < HANDSHAKE_INIT_SZ"
    | (sent) dgram st cs where "HANDSHAKE_INIT_SZ \<le> dst_len" "r = Ok dgram"
      "is_local_index st = fst (inc_index h)"
      "h' = h\<lparr>next_index := fst (inc_index h), previous := hs_state h, hs_state := InitSent st,
               cookies := cs\<rparr>"
      "(is_time_sent st, w') = Instant_now (snd (stamp (stamper h) (snd (OsRng_bytes 32 w))))"
proof (cases "dst_len < HANDSHAKE_INIT_SZ")
  case True
  with assms small show ?thesis by (simp add: format_handshake_initiation_def)
next
  case False
  then show ?thesis
    using assms
    by (auto simp: format_handshake_initiation_def Let_def split_beta append_mac1_and_mac2_def
        bind_eq_Some_conv intro!: sent)
qed

lemma receive_resp_cases:
  assumes "receive_handshake_response c h m w = Some (r, h', w')"
  obtains (refused) e where "r = Err e" "h' = h" "w' = w" "e = UnexpectedPacket \<or> e = InvalidAeadTag"
    | (established) st prev s where "awaiting h (hr_receiver_idx m) = Some (st, prev)" "r = Ok s"
      "receiving_index s = is_local_index st" "sending_index s = hr_sender_idx m"
      "h' = answered h st prev (fst (Instant_now w))" "w' = snd (Instant_now w)"
proof (cases "awaiting h (hr_receiver_idx m)")
  case None
  with assms refused [of UnexpectedPacket] show ?thesis by (auto simp: receive_resp_unfold)
next
  case (Some a)
  then obtain st prev where a: "awaiting h (hr_receiver_idx m) = Some (st, prev)" by force
  show ?thesis
    using assms unfolding receive_resp_unfold a Let_def prod.case option.case
  by (elim case_openE) (auto simp: Session_new_def intro: refused established [OF a])
qed

text \<open>
  Everything that happens to the handshake of one peer between two changes of the private key:
  messages that arrive, initiations sent, and the timers expiring it or dropping its cookie.
  The first component of a step is true when an initiation was accepted; \<open>n\<close> is the length of the
  caller's buffer.
\<close>

datatype hs_event =
    ev_init handshake_init
  | ev_resp handshake_response
  | ev_cookie packet_cookie_reply
  | ev_initiate
  | ev_expire
  | ev_clear_cookie

type_synonym hs_world = "Handshake \<times> world"

fun hs_step :: "crypto \<Rightarrow> nat \<Rightarrow> hs_world \<Rightarrow> hs_event \<Rightarrow> bool \<times> hs_world" where
  "hs_step c n (h, w) (ev_init m) =
     (case receive_handshake_initialization c h m n w of
        None \<Rightarrow> (False, h, w) | Some (r, h', w') \<Rightarrow> (is_ok r, h', w'))"
| "hs_step c n (h, w) (ev_resp m) =
     (False, case receive_handshake_response c h m w of
        None \<Rightarrow> (h, w) | Some (r, h', w') \<Rightarrow> (h', w'))"
| "hs_step c n (h, w) (ev_cookie m) =
     (False, case receive_cookie_reply c h m of None \<Rightarrow> (h, w) | Some (r, h') \<Rightarrow> (h', w))"
| "hs_step c n (h, w) ev_initiate =
     (False, case format_handshake_initiation c h n w of
        None \<Rightarrow> (h, w) | Some (r, h', w') \<Rightarrow> (h', w'))"
| "hs_step c n (h, w) ev_expire = (False, set_expired h, w)"
| "hs_step c n (h, w) ev_clear_cookie = (False, clear_cookie h, w)"

text \<open>The time stamp of an event, and the set of events a handshake has no use for any more.\<close>

definition ev_stamp :: "crypto \<Rightarrow> NoiseParams \<Rightarrow> hs_event \<Rightarrow> Tai64N option" where
  "ev_stamp c p e = (case e of ev_init m \<Rightarrow> init_timestamp c p m | _ \<Rightarrow> None)"

definition stale :: "crypto \<Rightarrow> NoiseParams \<Rightarrow> hs_world \<Rightarrow> hs_event set \<Rightarrow> bool" where
  "stale c p s S \<longleftrightarrow>
     params (fst s) = p \<and>
     (\<forall>e \<in> S. \<exists>ts. ev_stamp c p e = Some ts \<and>
        tai_value ts \<le> tai_value (last_handshake_timestamp (fst s)))"

lemma stale_mono:
  assumes "stale c p s S" "params (fst s') = p"
    "tai_value (last_handshake_timestamp (fst s)) \<le> tai_value (last_handshake_timestamp (fst s'))"
  shows "stale c p s' S"
  using assms unfolding stale_def by (meson order_trans)

lemma receive_init_effect:
  assumes "receive_handshake_initialization c h m n w = Some (r, h', w')"
  shows "params h' = params h"
    and "tai_value (last_handshake_timestamp h) \<le> tai_value (last_handshake_timestamp h')"
    and "is_ok r \<Longrightarrow> \<exists>ts. init_timestamp c (params h) m = Some ts \<and>
           last_handshake_timestamp h' = ts \<and>
           tai_value (last_handshake_timestamp h) < tai_value ts"
  using assms
  by (cases rule: receive_init_cases; auto simp: after_iff elim!: format_resp_cases)+

lemma hs_step_frame:
  assumes "hs_step c n s e = (b, s')"
  shows "params (fst s') = params (fst s)"
    and "tai_value (last_handshake_timestamp (fst s)) \<le> tai_value (last_handshake_timestamp (fst s'))"
proof -
  obtain h w where s: "s = (h, w)" by force
  have "params (fst s') = params (fst s) \<and>
    tai_value (last_handshake_timestamp (fst s)) \<le> tai_value (last_handshake_timestamp (fst s'))"
  proof (cases e)
    case (ev_init m)
    with assms show ?thesis
      by (auto simp: s receive_init_effect split: option.splits)
  next
    case (ev_resp m)
    with assms show ?thesis
      by (auto simp: s answered_def Let_def split: option.splits elim: receive_resp_cases)
  next
    case (ev_cookie m)
    with assms show ?thesis
      by (auto simp: s receive_cookie_reply_def split: option.splits if_splits)
  next
    case ev_initiate
    with assms show ?thesis
      by (auto simp: s split: option.splits elim: format_init_cases)
  qed (use assms in \<open>auto simp: s set_expired_def clear_cookie_def\<close>)
  then show "params (fst s') = params (fst s)"
    "tai_value (last_handshake_timestamp (fst s)) \<le> tai_value (last_handshake_timestamp (fst s'))"
    by simp_all
qed

lemma hs_step_accept:
  assumes "hs_step c n s e = (True, s')"
  obtains ts where "ev_stamp c (params (fst s)) e = Some ts"
    "last_handshake_timestamp (fst s') = ts" "tai_value (last_handshake_timestamp (fst s)) < tai_value ts"
proof -
  obtain h w where s: "s = (h, w)" by force
  from assms obtain m r h' w' where e: "e = ev_init m" "is_ok r" "s' = (h', w')"
    "receive_handshake_initialization c h m n w = Some (r, h', w')"
    by (cases e) (auto simp: s split: option.splits)
  with receive_init_effect(3) [OF e(4,2)] that show ?thesis by (auto simp: s ev_stamp_def)
qed

interpretation hsr: replay_filter "hs_step c n" "stale c p" "\<lambda>_. True"
proof
  fix s s' :: hs_world and S :: "hs_event set" and e :: hs_event
  assume st: "stale c p s S"
  have p: "params (fst s) = p" using st by (simp add: stale_def)
  show "e \<notin> S" if a: "hs_step c n s e = (True, s')"
  proof
    assume "e \<in> S"
    then obtain ts where "ev_stamp c p e = Some ts"
      "tai_value ts \<le> tai_value (last_handshake_timestamp (fst s))"
      using st by (auto simp: stale_def)
    moreover obtain ts' where "ev_stamp c p e = Some ts'"
      "tai_value (last_handshake_timestamp (fst s)) < tai_value ts'"
      by (rule hs_step_accept [OF a, unfolded p])
    ultimately show False by simp
  qed
  show "stale c p s' (insert e S)" if a: "hs_step c n s e = (True, s')"
  proof -
    obtain ts where "ev_stamp c (params (fst s)) e = Some ts" "last_handshake_timestamp (fst s') = ts"
      by (rule hs_step_accept [OF a])
    moreover have "stale c p s' S" using stale_mono [OF st] hs_step_frame [OF a] p by simp
    ultimately show ?thesis using p by (simp add: stale_def)
  qed
  show "stale c p s' S" if a: "hs_step c n s e = (False, s')"
    using stale_mono [OF st] hs_step_frame [OF a] st by (simp add: stale_def)
qed

text \<open>
  C10.  No initiation is accepted twice.  Whatever else happens in between (responses, cookies,
  our own initiations, expiry), the initiation messages for which a responder creates a session are
  pairwise different: a replayed initiation is refused.
\<close>

theorem initiation_accepted_once:
  "distinct (accepted (hs_step c n) (h, w) es)"
  by (rule hsr.accepted_distinct [of c "params h" _ "{}"]) (simp_all add: stale_def)

section \<open>Totality\<close>

lemma format_resp_session:
  "format_handshake_response c h n w = Some (Ok (d, s), h', w') \<Longrightarrow> session_ok s"
  by (auto simp: format_handshake_response_def Let_def split_beta bind_eq_Some_conv
      split: if_splits HandshakeState.splits)

lemma receive_init_session:
  "receive_handshake_initialization c h m n w = Some (Ok (d, s), h', w') \<Longrightarrow> session_ok s"
  by (erule receive_init_cases) (auto dest: format_resp_session)

lemma receive_resp_session:
  assumes "receive_handshake_response c h m w = Some (Ok s, h', w')"
  shows "session_ok s"
  using assms unfolding receive_resp_unfold Let_def
  by (auto split: option.splits prod.splits result.splits)

lemma format_init_total:
  assumes "crypto_laws c" "length (static_public (params h)) = 32"
  obtains r h' w' where "format_handshake_initiation c h n w = Some (r, h', w')"
proof (cases "n < HANDSHAKE_INIT_SZ")
  case True
  then show ?thesis using that by (simp add: format_handshake_initiation_def)
next
  case False
  then have "HANDSHAKE_INIT_SZ \<le> n" by simp
  from format_init_ok [OF assms(1) this assms(2), of w] that show ?thesis by blast
qed

lemma format_resp_total:
  assumes "crypto_laws c" "hs_state h = InitReceived hash ck pe pidx"
  obtains r h' w' where "format_handshake_response c h n w = Some (r, h', w')"
proof (cases "n < HANDSHAKE_RESP_SZ")
  case True
  then show ?thesis using that by (simp add: format_handshake_response_def)
next
  case False
  then have "HANDSHAKE_RESP_SZ \<le> n" by simp
  from format_resp_ok [OF assms(1) this assms(2), of w] that show ?thesis by blast
qed

lemma receive_init_total:
  assumes c: "crypto_laws c" and m: "wf_packet (HandshakeInit m)"
  obtains r h' w' where "receive_handshake_initialization c h m n w = Some (r, h', w')"
proof (rule ccontr)
  assume no: "\<not> thesis"
  have "length (hi_encrypted_static m) = KEY_LEN + 16" "length (hi_encrypted_timestamp m) = TIMESTAMP_LEN + 16"
    "KEY_LEN \<le> 32" "TIMESTAMP_LEN \<le> 32"
    using m by (simp_all add: KEY_LEN_def TIMESTAMP_LEN_def)
  then have o: "aead_chacha20_open c KEY_LEN k ctr (hi_encrypted_static m) a \<noteq> None"
    "aead_chacha20_open c TIMESTAMP_LEN k ctr (hi_encrypted_timestamp m) a \<noteq> None" for k ctr a
    by (intro open_not_None [OF c]; simp)+
  have f: "format_handshake_response c (h\<lparr>last_handshake_timestamp := ts, previous := pr,
      hs_state := InitReceived hash ck pe idx\<rparr>) n w \<noteq> None" for ts pr hash ck pe idx
    by (rule format_resp_total [OF c, of _ hash ck pe idx n w]) auto
  have "receive_handshake_initialization c h m n w \<noteq> None"
    unfolding receive_init_unfold Let_def 
    by (simp add: o f del: not_None_eq split: option.split result.split)
  then show False using no that by fastforce
qed

lemma receive_resp_total:
  assumes c: "crypto_laws c" and m: "wf_packet (HandshakeResponse m)"
  obtains r h' w' where "receive_handshake_response c h m w = Some (r, h', w')"
proof -
  have "aead_chacha20_open c 0 k ctr (hr_encrypted_nothing m) a \<noteq> None" for k ctr a
    using m by (intro open_not_None [OF c]) simp_all
  then have "receive_handshake_response c h m w \<noteq> None"
    unfolding receive_resp_unfold Let_def
    by (simp del: not_None_eq split: option.split result.split prod.split)
  then show ?thesis using that by fastforce
qed

lemma receive_cookie_total:
  assumes "wf_packet (PacketCookieReply m)"
  obtains r h' where "receive_cookie_reply c h m = Some (r, h')"
  using assms that
  by (fastforce simp: receive_cookie_reply_def COOKIE_SIZE_def split: option.splits if_splits)

lemma parse_anon_total:
  assumes c: "crypto_laws c" and m: "wf_packet (HandshakeInit m)"
  obtains r where "parse_handshake_anon c sk pk m = Some r"
proof -
  have "aead_chacha20_open c KEY_LEN k ctr (hi_encrypted_static m) a \<noteq> None" for k ctr a
    using m by (intro open_not_None [OF c]) (simp_all add: KEY_LEN_def)
  then have "parse_handshake_anon c sk pk m \<noteq> None"
    unfolding parse_handshake_anon_def Let_def
    by (simp del: not_None_eq split: option.split result.split prod.split)
  then show ?thesis using that by fastforce
qed

section \<open>Index prefixes\<close>

text \<open>
  The upper 24 bits of every index a handshake hands out are those it was created with: the device
  finds the peer of a packet by them.
\<close>

fun state_prefix :: "u32 \<Rightarrow> HandshakeState \<Rightarrow> bool" where
  "state_prefix b (InitSent s) \<longleftrightarrow> drop_bit 8 (is_local_index s) = b"
| "state_prefix b _ \<longleftrightarrow> True"

definition index_inv :: "u32 \<Rightarrow> Handshake \<Rightarrow> bool" where
  "index_inv b h \<longleftrightarrow>
     drop_bit 8 (next_index h) = b \<and> state_prefix b (hs_state h) \<and> state_prefix b (previous h)"

lemma index_inv_new:
  "Handshake_new c sk pk peer idx psk w = Some (h, w') \<Longrightarrow> index_inv (drop_bit 8 idx) h"
  by (auto simp: Handshake_new_def index_inv_def bind_eq_Some_conv)

lemma index_inv_format_init:
  "format_handshake_initiation c h n w = Some (r, h', w') \<Longrightarrow> index_inv b h \<Longrightarrow> index_inv b h'"
  by (elim format_init_cases) (auto simp: index_inv_def inc_index_high)

lemma index_inv_format_resp:
  assumes "format_handshake_response c h n w = Some (r, h', w')" "index_inv b h"
  shows "index_inv b h'" and "r = Ok (dgram, s) \<Longrightarrow> drop_bit 8 (receiving_index s) = b"
  using assms by (auto simp: index_inv_def inc_index_high elim!: format_resp_cases)

lemma index_inv_receive_init:
  assumes "receive_handshake_initialization c h m n w = Some (r, h', w')" "index_inv b h"
  shows "index_inv b h'" and "r = Ok (dgram, s) \<Longrightarrow> drop_bit 8 (receiving_index s) = b"
proof -
  have "index_inv b h' \<and> (r = Ok (dgram, s) \<longrightarrow> drop_bit 8 (receiving_index s) = b)"
    using assms(1)
  proof (cases rule: receive_init_cases)
    case (newer ts hash ck)
    then show ?thesis using index_inv_format_resp [OF newer(3)] assms(2) by (simp add: index_inv_def)
  qed (use assms(2) in auto)
  then show "index_inv b h'" "r = Ok (dgram, s) \<Longrightarrow> drop_bit 8 (receiving_index s) = b" by auto
qed

lemma awaiting_prefix:
  "awaiting h i = Some (st, prev) \<Longrightarrow> index_inv b h \<Longrightarrow> drop_bit 8 (is_local_index st) = b"
  by (auto simp: awaiting_def index_inv_def split: HandshakeState.splits if_splits)

lemma index_inv_receive_resp:
  assumes "receive_handshake_response c h m w = Some (r, h', w')" "index_inv b h"
  shows "index_inv b h'" and "r = Ok s \<Longrightarrow> drop_bit 8 (receiving_index s) = b"
  using assms awaiting_prefix [OF _ assms(2)]
  by (auto simp: index_inv_def answered_def Let_def elim!: receive_resp_cases)

section \<open>Refused messages\<close>

text \<open>
  An initiation that is authentic and new, but for whose response there is no room: its time stamp is recorded and the
  handshake waits with the state in which the response would have been written.
\<close>

definition unanswered :: "crypto \<Rightarrow> Handshake \<Rightarrow> handshake_init \<Rightarrow> Handshake \<Rightarrow> bool" where
  "unanswered c h m h' \<longleftrightarrow>
     (\<exists>ts hash ck. init_timestamp c (params h) m = Some ts \<and> after ts (last_handshake_timestamp h) \<and>
        h' = h\<lparr>last_handshake_timestamp := ts, previous := hs_state h,
               hs_state := InitReceived hash ck (hi_unencrypted_ephemeral m) (hi_sender_idx m)\<rparr>)"

lemma receive_init_error:
  assumes "receive_handshake_initialization c h m n w = Some (Err e, h', w')"
  shows "w' = w \<and> (h' = h \<and> e \<in> {InvalidAeadTag, WrongKey, WrongTai64nTimestamp} \<or>
    e = DestinationBufferTooSmall \<and> n < HANDSHAKE_RESP_SZ \<and> unanswered c h m h')"
  using assms
proof (cases rule: receive_init_cases)
  case (newer ts hash ck)
  from newer(3) show ?thesis
    by (cases rule: format_resp_cases) (use newer(1,2) in \<open>auto simp: unanswered_def\<close>)
qed auto

lemma receive_cookie_error:
  "receive_cookie_reply c h m = Some (Err e, h') \<Longrightarrow> h' = h \<and> e \<in> {UnexpectedPacket, WrongIndex, InvalidAeadTag}"
  by (auto simp: receive_cookie_reply_def split: option.splits if_splits)

text \<open>
  C27.  What a handshake message that ends in an error leaves behind.  No randomness and no clock reading is used.  The
  handshake is exactly as it was after an error of a response or a cookie reply, and after a bad tag, a foreign key or an
  old time stamp of an initiation.  The one other error of an initiation is that the caller's buffer has less than 92
  bytes: then the initiation was authentic and new, and its time stamp is recorded although nothing was answered.
\<close>

theorem refused_messages_inert:
  "(\<forall>e h' w'. receive_handshake_initialization c h m n w = Some (Err e, h', w') \<longrightarrow>
       w' = w \<and> (h' = h \<and> e \<in> {InvalidAeadTag, WrongKey, WrongTai64nTimestamp} \<or>
         e = DestinationBufferTooSmall \<and> n < HANDSHAKE_RESP_SZ \<and> unanswered c h m h'))
   \<and> (\<forall>e h' w'. receive_handshake_response c h m' w = Some (Err e, h', w') \<longrightarrow>
        h' = h \<and> w' = w \<and> e \<in> {UnexpectedPacket, InvalidAeadTag})
   \<and> (\<forall>e h'. receive_cookie_reply c h m'' = Some (Err e, h') \<longrightarrow>
        h' = h \<and> e \<in> {UnexpectedPacket, WrongIndex, InvalidAeadTag})"
proof (intro conjI allI impI)
  fix e h' w' assume a: "receive_handshake_response c h m' w = Some (Err e, h', w')"
  show "h' = h" "w' = w" "e \<in> {UnexpectedPacket, InvalidAeadTag}"
    by (rule receive_resp_cases [OF a]; simp)+
qed (use receive_init_error [of c h m n w] receive_cookie_error [of c h m''] in blast)+

text \<open>An initiation whose static key decrypts to a stranger's key.\<close>

definition sample_stranger :: handshake_init where
  "sample_stranger = \<lparr>hi_sender_idx = 5, hi_unencrypted_ephemeral = replicate 32 9,
     hi_encrypted_static = replicate 32 77 @ replicate 16 0, hi_encrypted_timestamp = replicate 28 0\<rparr>"

lemma sample_stranger_refused:
  "receive_handshake_initialization sample_crypto (sample_handshake [2] [1]) sample_stranger 92 w
     = Some (Err WrongKey, sample_handshake [2] [1], w)"
proof -
  have o: "aead_chacha20_open sample_crypto KEY_LEN k 0 (hi_encrypted_static sample_stranger) a
      = Some (Ok (replicate 32 77))" for k a
    by (simp add: sample_stranger_def aead_chacha20_open_def KEY_LEN_def
      aead_chacha20_open_inner_def sample_crypto_def)
  have "x25519_public sample_crypto [1] ! 0 \<noteq> replicate 32 77 ! 0"
    by (simp add: sample_crypto_def pad_to_def)
  then have "x25519_public sample_crypto [1] \<noteq> replicate 32 77" by metis
  then show ?thesis by (simp add: receive_init_unfold Let_def o NoiseParams_new_def)
qed

theorem refused_messages_inert_witness:
  "receive_handshake_initialization sample_crypto (sample_handshake [2] [1]) sample_stranger 92 (sample_world 0)
     = Some (Err WrongKey, sample_handshake [2] [1], sample_world 0)
   \<and> WrongKey \<in> {InvalidAeadTag, WrongKey, WrongTai64nTimestamp}
   \<and> receive_cookie_reply sample_crypto (sample_handshake [2] [1])
        \<lparr>cr_receiver_idx = 0, cr_nonce = replicate 24 0, cr_encrypted_cookie = replicate 32 0\<rparr>
     = Some (Err UnexpectedPacket, sample_handshake [2] [1])"
  using refused_messages_inert [of sample_crypto "sample_handshake [2] [1]" sample_stranger 92 "sample_world 0"]
    sample_stranger_refused [of "sample_world 0"]
  by (simp add: msg_const_defs receive_cookie_reply_def sample_handshake)

end
