(* ===== verification/RateLimiter.thy ===== *)
theory RateLimiter
  imports Handshake
begin

text \<open>
  The denial-of-service protection of \<^verbatim>\<open>noise/rate_limiter.rs\<close>: a counter of handshake messages that
  is reset every second, and cookies that prove ownership of an address when the counter is above
  its limit.

  The atomics and the mutex of the code make each update of a field indivisible; the model performs
  the updates of one call in program order.
\<close>

section \<open>State and operations\<close>

definition COOKIE_REFRESH :: nat where "COOKIE_REFRESH = 128"
definition RESET_PERIOD :: nat where "RESET_PERIOD = 1"

record RateLimiter =
  rl_nonce_key :: bytes
  rl_secret_key :: bytes
  rl_start_time :: instant
  rl_nonce_ctr :: u64
  rl_mac1_key :: bytes
  rl_cookie_key :: bytes
  rl_limit :: u64
  rl_count :: u64
  rl_last_reset :: instant

definition RateLimiter_new ::
  "crypto \<Rightarrow> bytes \<Rightarrow> u64 \<Rightarrow> 'w world_scheme \<Rightarrow> RateLimiter \<times> 'w world_scheme" where
  "RateLimiter_new c public_key limit w =
     (let (secret_key, w) = OsRng_bytes 16 w;
          (nonce_key, w) = OsRng_bytes 32 w;
          (start_time, w) = Instant_now w;
          (last_reset, w) = Instant_now w
      in (\<lparr>rl_nonce_key = nonce_key, rl_secret_key = secret_key, rl_start_time = start_time,
           rl_nonce_ctr = 0,
           rl_mac1_key = b2s_hash c LABEL_MAC1 public_key,
           rl_cookie_key = b2s_hash c LABEL_COOKIE public_key,
           rl_limit = limit, rl_count = 0, rl_last_reset = last_reset\<rparr>, w))"

definition reset_count :: "RateLimiter \<Rightarrow> 'w world_scheme \<Rightarrow> RateLimiter \<times> 'w world_scheme" where
  "reset_count rl w =
     (let (current_time, w) = Instant_now w
      in if RESET_PERIOD \<le> as_secs (duration_since current_time (rl_last_reset rl))
         then (rl\<lparr>rl_count := 0, rl_last_reset := current_time\<rparr>, w)
         else (rl, w))"

fun addr_bytes :: "ip_addr \<Rightarrow> bytes" where
  "addr_bytes (V4 a) = a @ replicate 12 0"
| "addr_bytes (V6 a) = a"

definition current_cookie ::
  "crypto \<Rightarrow> RateLimiter \<Rightarrow> ip_addr \<Rightarrow> 'w world_scheme \<Rightarrow> bytes \<times> 'w world_scheme" where
  "current_cookie c rl addr w =
     (let (now, w) = Instant_now w;
          cur_counter = (of_nat (as_secs (duration_since now (rl_start_time rl)) div COOKIE_REFRESH) :: u64)
      in (b2s_keyed_mac_16_2 c (rl_secret_key rl) (word_to_le 8 cur_counter) (addr_bytes addr), w))"

definition nonce :: "crypto \<Rightarrow> RateLimiter \<Rightarrow> bytes \<times> RateLimiter" where
  "nonce c rl =
     (let ctr = rl_nonce_ctr rl
      in (b2s_mac_24 c (rl_nonce_key rl) (word_to_le 8 ctr), rl\<lparr>rl_nonce_ctr := ctr + 1\<rparr>))"

definition is_under_load :: "RateLimiter \<Rightarrow> bool \<times> RateLimiter" where
  "is_under_load rl = (rl_limit rl \<le> rl_count rl, rl\<lparr>rl_count := rl_count rl + 1\<rparr>)"

definition format_cookie_reply ::
  "crypto \<Rightarrow> RateLimiter \<Rightarrow> u32 \<Rightarrow> bytes \<Rightarrow> bytes \<Rightarrow> nat
     \<Rightarrow> (bytes, WireGuardError) result \<times> RateLimiter" where
  "format_cookie_reply c rl idx cookie mac1 dst_len =
     (if dst_len < COOKIE_REPLY_SZ then (Err DestinationBufferTooSmall, rl)
      else
        let (iv, rl) = nonce c rl;
            (encrypted_cookie, tag) = xchacha_encrypt c (rl_cookie_key rl) iv mac1 cookie
        in (Ok (word_to_le 4 COOKIE_REPLY @ word_to_le 4 idx @ iv @ encrypted_cookie @ tag), rl))"

text \<open>The index both handshake messages carry; data and cookie packets are not rate limited.\<close>

fun handshake_sender_idx :: "packet \<Rightarrow> u32 option" where
  "handshake_sender_idx (HandshakeInit p) = Some (hi_sender_idx p)"
| "handshake_sender_idx (HandshakeResponse p) = Some (hr_sender_idx p)"
| "handshake_sender_idx _ = None"

definition verify_packet ::
  "crypto \<Rightarrow> RateLimiter \<Rightarrow> ip_addr option \<Rightarrow> bytes \<Rightarrow> nat \<Rightarrow> 'w world_scheme
     \<Rightarrow> (packet, TunnResult) result \<times> RateLimiter \<times> 'w world_scheme" where
  "verify_packet c rl src_addr src dst_len w =
     (case parse_incoming_packet src of
        Err e \<Rightarrow> (Err (TunnErr e), rl, w)
      | Ok packet \<Rightarrow>
        (case handshake_sender_idx packet of
           None \<Rightarrow> (Ok packet, rl, w)
         | Some sender_idx \<Rightarrow>
           let msg = take (length src - 32) src;
               macs = drop (length src - 32) src;
               mac1 = take 16 macs;
               mac2 = drop 16 macs;
               computed_mac1 = b2s_keyed_mac_16 c (rl_mac1_key rl) msg
           in if take 16 computed_mac1 \<noteq> mac1 then (Err (TunnErr InvalidMac), rl, w)
              else
                let (under_load, rl) = is_under_load rl
                in if \<not> under_load then (Ok packet, rl, w)
                   else case src_addr of
                     None \<Rightarrow> (Err (TunnErr UnderLoad), rl, w)
                   | Some addr \<Rightarrow>
                     let (cookie, w) = current_cookie c rl addr w;
                         computed_mac2 = b2s_keyed_mac_16_2 c cookie msg mac1
                     in if take 16 computed_mac2 \<noteq> mac2
                        then (case format_cookie_reply c rl sender_idx cookie mac1 dst_len of
                                (Err e, rl) \<Rightarrow> (Err (TunnErr e), rl, w)
                              | (Ok cookie_packet, rl) \<Rightarrow> (Err (WriteToNetwork cookie_packet), rl, w))
                        else (Ok packet, rl, w)))"

section \<open>Rate limiting\<close>

definition datagram_msg :: "bytes \<Rightarrow> bytes" where "datagram_msg src = take (length src - 32) src"
definition datagram_mac1 :: "bytes \<Rightarrow> bytes" where "datagram_mac1 src = take 16 (drop (length src - 32) src)"
definition datagram_mac2 :: "bytes \<Rightarrow> bytes" where "datagram_mac2 src = drop 16 (drop (length src - 32) src)"

lemmas datagram_parts = datagram_msg_def datagram_mac1_def datagram_mac2_def

definition is_handshake :: "bytes \<Rightarrow> bool" where
  "is_handshake src \<longleftrightarrow>
     (case parse_incoming_packet src of Ok p \<Rightarrow> handshake_sender_idx p \<noteq> None | Err _ \<Rightarrow> False)"

definition epoch_cookie :: "crypto \<Rightarrow> RateLimiter \<Rightarrow> ip_addr \<Rightarrow> nat \<Rightarrow> bytes" where
  "epoch_cookie c rl addr k =
     b2s_keyed_mac_16_2 c (rl_secret_key rl) (word_to_le 8 (of_nat k :: u64)) (addr_bytes addr)"

definition cookie_epoch :: "RateLimiter \<Rightarrow> 'w world_scheme \<Rightarrow> nat" where
  "cookie_epoch rl w = as_secs (since (rl_start_time rl) w) div COOKIE_REFRESH"

text \<open>A datagram proves ownership of its source address: its second MAC is under a cookie for it.\<close>

definition proves_address :: "crypto \<Rightarrow> RateLimiter \<Rightarrow> ip_addr option \<Rightarrow> bytes \<Rightarrow> bool" where
  "proves_address c rl src_addr src \<longleftrightarrow>
     (\<exists>addr k. src_addr = Some addr \<and>
        b2s_keyed_mac_16_2 c (epoch_cookie c rl addr k) (datagram_msg src) (datagram_mac1 src)
          = datagram_mac2 src)"

definition same_keys :: "RateLimiter \<Rightarrow> RateLimiter \<Rightarrow> bool" where
  "same_keys a b \<longleftrightarrow>
     rl_secret_key a = rl_secret_key b \<and> rl_mac1_key a = rl_mac1_key b \<and>
     rl_cookie_key a = rl_cookie_key b \<and> rl_limit a = rl_limit b \<and>
     rl_start_time a = rl_start_time b \<and> rl_nonce_key a = rl_nonce_key b"

lemma current_cookie_epoch:
  "current_cookie c rl addr w = (epoch_cookie c rl addr (cookie_epoch rl w), snd (Instant_now w))"
  by (simp add: current_cookie_def epoch_cookie_def cookie_epoch_def split_beta Let_def since_def
      Instant_now_def)

text \<open>The number of handshake messages without such a proof that a run of the limiter lets through.\<close>

fun unproven_passed ::
  "crypto \<Rightarrow> RateLimiter \<Rightarrow> (ip_addr option \<times> bytes \<times> nat) list \<Rightarrow> 'w world_scheme \<Rightarrow> nat" where
  "unproven_passed c rl [] w = 0"
| "unproven_passed c rl ((src_addr, src, dst_len) # ds) w =
     (let (r, rl', w') = verify_packet c rl src_addr src dst_len w
      in (if is_ok r \<and> is_handshake src \<and> \<not> proves_address c rl src_addr src then 1 else 0)
         + unproven_passed c rl' ds w')"

lemma verify_packet_unfold:
  "verify_packet c rl src_addr src dst_len w =
     (case parse_incoming_packet src of
        Err e \<Rightarrow> (Err (TunnErr e), rl, w)
      | Ok packet \<Rightarrow>
        (case handshake_sender_idx packet of
           None \<Rightarrow> (Ok packet, rl, w)
         | Some idx \<Rightarrow>
           if take 16 (b2s_keyed_mac_16 c (rl_mac1_key rl) (datagram_msg src)) \<noteq> datagram_mac1 src
           then (Err (TunnErr InvalidMac), rl, w)
           else if rl_count rl < rl_limit rl then (Ok packet, rl\<lparr>rl_count := rl_count rl + 1\<rparr>, w)
           else case src_addr of
             None \<Rightarrow> (Err (TunnErr UnderLoad), rl\<lparr>rl_count := rl_count rl + 1\<rparr>, w)
           | Some addr \<Rightarrow>
             if take 16 (b2s_keyed_mac_16_2 c (epoch_cookie c rl addr (cookie_epoch rl w))
                  (datagram_msg src) (datagram_mac1 src)) \<noteq> datagram_mac2 src
             then (case format_cookie_reply c (rl\<lparr>rl_count := rl_count rl + 1\<rparr>) idx
                     (epoch_cookie c rl addr (cookie_epoch rl w)) (datagram_mac1 src) dst_len of
                     (Err e, rl) \<Rightarrow> (Err (TunnErr e), rl, snd (Instant_now w))
                   | (Ok cp, rl) \<Rightarrow> (Err (WriteToNetwork cp), rl, snd (Instant_now w)))
             else (Ok packet, rl\<lparr>rl_count := rl_count rl + 1\<rparr>, snd (Instant_now w))))"
  by (simp add: verify_packet_def is_under_load_def datagram_parts Let_def not_le
      current_cookie_epoch epoch_cookie_def cookie_epoch_def
      cong: result.case_cong option.case_cong if_cong)

lemma format_cookie_reply_keeps:
  assumes "format_cookie_reply c rl idx cookie mac1 n = (r, rl')"
  shows "same_keys rl' rl \<and> rl_count rl' = rl_count rl \<and> rl_last_reset rl' = rl_last_reset rl"
  using assms
  by (auto simp: format_cookie_reply_def nonce_def same_keys_def Let_def split: if_splits prod.splits)

lemma same_keys_count [simp]: "same_keys (rl\<lparr>rl_count := n\<rparr>) rl"
  by (simp add: same_keys_def)

lemma same_keys_trans: "same_keys a b \<Longrightarrow> same_keys b d \<Longrightarrow> same_keys a d"
  by (simp add: same_keys_def)

lemma proves_address_cong:
  "same_keys a b \<Longrightarrow> proves_address c a addr src \<longleftrightarrow> proves_address c b addr src"
  by (simp add: proves_address_def epoch_cookie_def same_keys_def)

lemma verify_packet_effect:
  assumes c: "crypto_laws c" and v: "verify_packet c rl src_addr src n w = (r, rl', w')"
  shows "same_keys rl' rl"
    and "rl_count rl' = rl_count rl \<or> rl_count rl' = rl_count rl + 1"
    and "rl_last_reset rl' = rl_last_reset rl"
    and "is_ok r \<Longrightarrow> is_handshake src \<Longrightarrow> \<not> proves_address c rl src_addr src \<Longrightarrow>
           rl_count rl < rl_limit rl \<and> rl_count rl' = rl_count rl + 1"
proof -
  have t: "take 16 (b2s_keyed_mac_16_2 c k d d') = b2s_keyed_mac_16_2 c k d d'" for k d d'
    by (simp add: crypto_len [OF c])
  have "same_keys rl' rl \<and> (rl_count rl' = rl_count rl \<or> rl_count rl' = rl_count rl + 1)
    \<and> rl_last_reset rl' = rl_last_reset rl"
    using v unfolding verify_packet_unfold
    by (auto split: result.splits option.splits if_splits prod.splits simp: same_keys_def
        dest!: format_cookie_reply_keeps)
  then show "same_keys rl' rl"
    "rl_count rl' = rl_count rl \<or> rl_count rl' = rl_count rl + 1"
    "rl_last_reset rl' = rl_last_reset rl" by simp_all
  show "rl_count rl < rl_limit rl \<and> rl_count rl' = rl_count rl + 1"
    if "is_ok r" "is_handshake src" "\<not> proves_address c rl src_addr src"
    using that v unfolding verify_packet_unfold t
    by (auto simp: is_handshake_def proves_address_def
        split: result.splits option.splits if_splits prod.splits)
qed

text \<open>
  C13.  Under load a handshake message passes only with a proof of its address.  Between two resets
  of the counter the limiter lets at most \<^verbatim>\<open>limit\<close> handshake messages through whose second MAC is
  not under a cookie issued for their source address, for any sequence of datagrams and any clock.
\<close>

theorem unproven_handshakes_bounded:
  assumes c: "crypto_laws c" and "unat (rl_count rl) + length ds < 2 ^ 64"
  shows "unproven_passed c rl ds w \<le> unat (rl_limit rl) - unat (rl_count rl)"
  using assms(2)
proof (induction ds arbitrary: rl w)
  case Nil
  then show ?case by simp
next
  case (Cons d ds)
  obtain src_addr src n where d: "d = (src_addr, src, n)" by (cases d) auto
  obtain r rl' w' where v: "verify_packet c rl src_addr src n w = (r, rl', w')"
    by (cases "verify_packet c rl src_addr src n w") auto
  note e = verify_packet_effect [OF c v]
  have lim: "rl_limit rl' = rl_limit rl" using e(1) by (simp add: same_keys_def)
  have suc: "unat (rl_count rl + 1) = unat (rl_count rl) + 1"
    using Cons.prems by (simp add: unat_word_ariths)
  have le: "unat (rl_count rl') \<le> unat (rl_count rl) + 1" using e(2) suc by auto
  have ih: "unproven_passed c rl' ds w' \<le> unat (rl_limit rl) - unat (rl_count rl')"
    using Cons.IH [of rl' w'] Cons.prems le lim by simp
  show ?case
  proof (cases "is_ok r \<and> is_handshake src \<and> \<not> proves_address c rl src_addr src")
    case True
    then show ?thesis using ih e(4) suc by (auto simp: d v word_less_nat_alt)
  next
    case False
    then have "unproven_passed c rl (d # ds) w = unproven_passed c rl' ds w'" by (simp add: d v)
    moreover have "unat (rl_count rl) \<le> unat (rl_count rl')" using e(2) suc by auto
    ultimately show ?thesis using ih by simp
  qed
qed

definition sample_limiter :: "u64 \<Rightarrow> RateLimiter" where
  "sample_limiter limit =
     fst (RateLimiter_new sample_crypto (x25519_public sample_crypto [2]) limit (sample_world 0))"

lemma sample_limiter_fields [simp]:
  "rl_count (sample_limiter l) = 0" "rl_limit (sample_limiter l) = l"
  "rl_mac1_key (sample_limiter l) = b2s_hash sample_crypto LABEL_MAC1 (x25519_public sample_crypto [2])"
  "rl_cookie_key (sample_limiter l) = b2s_hash sample_crypto LABEL_COOKIE (x25519_public sample_crypto [2])"
  by (simp_all add: sample_limiter_def RateLimiter_new_def split_beta Let_def)

theorem unproven_handshakes_bounded_witness:
  "unproven_passed sample_crypto (sample_limiter 2)
     (replicate 5 (Some (V4 [10, 0, 0, 1]), 1 # replicate 147 0, 64)) (sample_world 0) \<le> 2"
  using unproven_handshakes_bounded [OF sample_crypto_laws, of "sample_limiter 2"
      "replicate 5 (Some (V4 [10, 0, 0, 1]), 1 # replicate 147 0, 64)" "sample_world 0"]
  by (simp del: unproven_passed.simps)

section \<open>Cookies\<close>

lemma datagram_split [simp]:
  assumes "length m1 = 16" "length m2 = 16"
  shows "datagram_msg (msg @ m1 @ m2) = msg" "datagram_mac1 (msg @ m1 @ m2) = m1"
    "datagram_mac2 (msg @ m1 @ m2) = m2"
  using assms by (simp_all add: datagram_parts)

lemma append_mac_parts:
  assumes "crypto_laws c" "fst (append_mac1_and_mac2 c h idx msg) = dgram"
  shows "datagram_msg dgram = msg"
    "datagram_mac1 dgram = b2s_keyed_mac_16 c (sending_mac1_key (params h)) msg"
    "datagram_mac2 dgram = (case write_cookie (cookies h) of
        Some cookie \<Rightarrow> b2s_keyed_mac_16_2 c cookie msg (datagram_mac1 dgram) | None \<Rightarrow> replicate 16 0)"
    "cookies (snd (append_mac1_and_mac2 c h idx msg)) = (cookies h)
       \<lparr>cookies_index := idx, last_mac1 := Some (datagram_mac1 dgram)\<rparr>"
  using assms
  by (auto simp: append_mac1_and_mac2_def Let_def crypto_len b2s_keyed_mac_16_2_def
      b2s_keyed_mac_16_def split: option.split)

lemma cookie_reply_opens:
  assumes c: "crypto_laws c" and n: "COOKIE_REPLY_SZ \<le> n" and l: "length cookie = 16"
    and f: "format_cookie_reply c rl idx cookie mac1 n = (r, rl')"
    and h: "last_mac1 (cookies h) = Some mac1" "cookies_index (cookies h) = idx"
      "cookie_key (params h) = rl_cookie_key rl"
  obtains reply p where "r = Ok reply" "parse_incoming_packet reply = Ok (PacketCookieReply p)"
    "receive_cookie_reply c h p = Some (Ok (), h\<lparr>cookies := (cookies h)\<lparr>write_cookie := Some cookie\<rparr>\<rparr>)"
proof -
  obtain ct tag where x: "xchacha_encrypt c (rl_cookie_key rl)
      (b2s_mac_24 c (rl_nonce_key rl) (word_to_le 8 (rl_nonce_ctr rl))) mac1 cookie = (ct, tag)"
    by force
  note xl = xchacha_laws [OF c x]
  define p where "p = \<lparr>cr_receiver_idx = idx,
      cr_nonce = b2s_mac_24 c (rl_nonce_key rl) (word_to_le 8 (rl_nonce_ctr rl)),
      cr_encrypted_cookie = ct @ tag\<rparr>"
  have r: "r = Ok (encode_packet (PacketCookieReply p) [])"
    using f n x by (simp add: format_cookie_reply_def nonce_def Let_def p_def)
  have wf: "wf_packet (PacketCookieReply p)" using xl l by (simp add: p_def crypto_len [OF c])
  show ?thesis
  proof (rule that [OF r parse_encode [OF wf]])
    show "receive_cookie_reply c h p = Some (Ok (), h\<lparr>cookies := (cookies h)\<lparr>write_cookie := Some cookie\<rparr>\<rparr>)"
      using xl l h by (simp add: receive_cookie_reply_def p_def COOKIE_SIZE_def crypto_len [OF c])
  qed simp
qed

lemma format_init_datagram:
  assumes c: "crypto_laws c" and l: "length (static_public (params h)) = 32"
    and f: "format_handshake_initiation c h n w = Some (Ok dgram, h', w')"
  obtains m where "parse_incoming_packet dgram = Ok (HandshakeInit m)"
    "datagram_mac1 dgram = b2s_keyed_mac_16 c (sending_mac1_key (params h)) (datagram_msg dgram)"
    "datagram_mac2 dgram = (case write_cookie (cookies h) of
        Some cookie \<Rightarrow> b2s_keyed_mac_16_2 c cookie (datagram_msg dgram) (datagram_mac1 dgram)
      | None \<Rightarrow> replicate 16 0)"
    "cookies h' = (cookies h)\<lparr>cookies_index := hi_sender_idx m, last_mac1 := Some (datagram_mac1 dgram)\<rparr>"
    "params h' = params h"
proof -
  have n: "HANDSHAKE_INIT_SZ \<le> n" using f by (cases rule: format_init_cases) auto
  obtain m macs st h'' w'' where
    f': "format_handshake_initiation c h n w = Some (Ok (encode_packet (HandshakeInit m) macs), h'', w'')"
    and wf: "wf_packet (HandshakeInit m)"
    and mac: "fst (append_mac1_and_mac2 c h (hi_sender_idx m) (encode_packet (HandshakeInit m) [])) =
       encode_packet (HandshakeInit m) macs"
    and h'': "h'' = snd (append_mac1_and_mac2 c h (hi_sender_idx m) (encode_packet (HandshakeInit m) []))
       \<lparr>next_index := fst (inc_index h), previous := hs_state h, hs_state := InitSent st\<rparr>"
    by (rule format_init_ok [OF c n l, of w]) blast
  have d: "dgram = encode_packet (HandshakeInit m) macs" and h': "h' = h''" using f f' by simp_all
  note ap = append_mac_parts [OF c mac [folded d]]
  show ?thesis
  proof (rule that [of m])
    show "parse_incoming_packet dgram = Ok (HandshakeInit m)"
      unfolding d using parse_encode [OF wf] macs_length [OF c mac] by simp
    show "datagram_mac1 dgram = b2s_keyed_mac_16 c (sending_mac1_key (params h)) (datagram_msg dgram)"
      using ap(1,2) by simp
    show "datagram_mac2 dgram = (case write_cookie (cookies h) of
        Some cookie \<Rightarrow> b2s_keyed_mac_16_2 c cookie (datagram_msg dgram) (datagram_mac1 dgram)
      | None \<Rightarrow> replicate 16 0)"
      using ap(1,3) by (simp split: option.splits)
    show "cookies h' = (cookies h)\<lparr>cookies_index := hi_sender_idx m, last_mac1 := Some (datagram_mac1 dgram)\<rparr>"
      using ap(4) by (simp add: h' h'')
    show "params h' = params h" by (simp add: h' h'')
  qed
qed

text \<open>
  C14.  The cookie mechanism lets an honest initiator in.  When a loaded responder answers an
  initiation with a cookie reply, the initiator can open the reply, and every initiation it then
  writes passes the limiter, loaded or not, as long as it comes from the same address and within the
  same 128 second epoch.
\<close>

theorem cookie_round_trip:
  assumes c: "crypto_laws c" and l: "length (static_public (params h)) = 32"
    and keys: "rl_mac1_key rl = sending_mac1_key (params h)" "rl_cookie_key rl = cookie_key (params h)"
    and load: "rl_limit rl \<le> rl_count rl" and n: "COOKIE_REPLY_SZ \<le> n2"
    and f: "format_handshake_initiation c h n1 w1 = Some (Ok dgram, h1, w1')"
    and v: "verify_packet c rl (Some addr) dgram n2 w2 = (Err r, rl1, w2')"
  shows "\<exists>reply p h2. r = WriteToNetwork reply \<and> parse_incoming_packet reply = Ok (PacketCookieReply p)
    \<and> receive_cookie_reply c h1 p = Some (Ok (), h2)
    \<and> (\<forall>n3 (w3 :: world) dgram' h3 w3' rl' n4 (w4 :: world).
         format_handshake_initiation c h2 n3 w3 = Some (Ok dgram', h3, w3') \<and>
         same_keys rl' rl \<and> cookie_epoch rl' w4 = cookie_epoch rl w2
         \<longrightarrow> is_ok (fst (verify_packet c rl' (Some addr) dgram' n4 w4)))"
proof -
  obtain m where m: "parse_incoming_packet dgram = Ok (HandshakeInit m)"
    "datagram_mac1 dgram = b2s_keyed_mac_16 c (sending_mac1_key (params h)) (datagram_msg dgram)"
    "cookies h1 = (cookies h)\<lparr>cookies_index := hi_sender_idx m, last_mac1 := Some (datagram_mac1 dgram)\<rparr>"
    "params h1 = params h"
    by (rule format_init_datagram [OF c l f]) blast
  define cookie where "cookie = epoch_cookie c rl addr (cookie_epoch rl w2)"
  have t: "take 16 (b2s_keyed_mac_16 c k d) = b2s_keyed_mac_16 c k d"
    "take 16 (b2s_keyed_mac_16_2 c k d d') = b2s_keyed_mac_16_2 c k d d'" for k d d'
    by (simp_all add: crypto_len [OF c])
  obtain fr rl0 where fr: "format_cookie_reply c (rl\<lparr>rl_count := rl_count rl + 1\<rparr>) (hi_sender_idx m)
      cookie (datagram_mac1 dgram) n2 = (fr, rl0)" by force
  have r: "(case fr of Err e \<Rightarrow> TunnErr e | Ok cp \<Rightarrow> WriteToNetwork cp) = r"
    using v load fr unfolding verify_packet_unfold m(1) cookie_def
    by (auto simp: t keys m(2) cookie_def split: if_splits result.splits)
  have lc: "length cookie = 16" by (simp add: cookie_def epoch_cookie_def crypto_len [OF c])
  obtain reply p where rp: "fr = Ok reply" "parse_incoming_packet reply = Ok (PacketCookieReply p)"
    "receive_cookie_reply c h1 p = Some (Ok (), h1\<lparr>cookies := (cookies h1)\<lparr>write_cookie := Some cookie\<rparr>\<rparr>)"
    by (rule cookie_reply_opens [OF c n lc fr, of h1]) (simp_all add: m keys)
  define h2 where "h2 = h1\<lparr>cookies := (cookies h1)\<lparr>write_cookie := Some cookie\<rparr>\<rparr>"
  have "is_ok (fst (verify_packet c rl' (Some addr) dgram' n4 w4))"
    if f2: "format_handshake_initiation c h2 n3 w3 = Some (Ok dgram', h3, w3')"
      and k: "same_keys rl' rl" and ep: "cookie_epoch rl' w4 = cookie_epoch rl w2"
    for n3 dgram' h3 w3' rl' n4 and w3 w4 :: world
  proof -
    have l2: "length (static_public (params h2)) = 32" using l m(4) by (simp add: h2_def)
    have ck: "epoch_cookie c rl' addr (cookie_epoch rl' w4) = cookie" "rl_mac1_key rl' = rl_mac1_key rl"
      using k ep by (simp_all add: cookie_def epoch_cookie_def same_keys_def)
    show ?thesis
      by (rule format_init_datagram [OF c l2 f2])
        (simp add: verify_packet_unfold t ck keys h2_def m(4))
  qed
  with rp r show ?thesis by (auto simp: h2_def [symmetric])
qed

text \<open>The first initiation of the sample peer, and the reply of a limiter that admits nobody.\<close>

definition sample_initiation :: "bytes \<times> Handshake \<times> world" where
  "sample_initiation =
     (case format_handshake_initiation sample_crypto (sample_handshake [1] [2]) 148 (sample_world 0) of
        Some (Ok d, h, w) \<Rightarrow> (d, h, w) | _ \<Rightarrow> ([], sample_handshake [1] [2], sample_world 0))"

lemma sample_initiation:
  obtains d h w where "sample_initiation = (d, h, w)"
    "format_handshake_initiation sample_crypto (sample_handshake [1] [2]) 148 (sample_world 0) = Some (Ok d, h, w)"
proof -
  have "HANDSHAKE_INIT_SZ \<le> 148" "length (static_public (params (sample_handshake [1] [2]))) = 32"
    by (simp_all add: msg_const_defs NoiseParams_new_def crypto_len [OF sample_crypto_laws])
  from format_init_ok [OF sample_crypto_laws this, of "sample_world 0"] that show ?thesis
    by (force simp: sample_initiation_def)
qed

lemma sample_limiter_refuses:
  obtains r rl w where "verify_packet sample_crypto (sample_limiter 0) (Some (V4 [10, 0, 0, 1]))
      (fst sample_initiation) 64 (sample_world 0) = (Err r, rl, w)"
proof (rule sample_initiation)
  fix d h and w :: world
  assume s: "sample_initiation = (d, h, w)"
    and f: "format_handshake_initiation sample_crypto (sample_handshake [1] [2]) 148 (sample_world 0) = Some (Ok d, h, w)"
  have l: "length (static_public (params (sample_handshake [1] [2]))) = 32"
    by (simp add: NoiseParams_new_def crypto_len [OF sample_crypto_laws])
  obtain m where m: "parse_incoming_packet d = Ok (HandshakeInit m)"
    "datagram_mac2 d = replicate 16 0"
    by (rule format_init_datagram [OF sample_crypto_laws l f]) (simp add: sample_handshake)
  have key: "rl_secret_key (sample_limiter 0) = map of_nat [0..<16]"
    by (simp add: sample_limiter_def RateLimiter_new_def split_beta Let_def OsRng_bytes_def sample_world_def)
  have nz: "b2s_keyed_mac_16_2 sample_crypto (epoch_cookie sample_crypto (sample_limiter 0) a k) x y ! 1 \<noteq> 0" for a k x y
    by (simp add: b2s_keyed_mac_16_2_def epoch_cookie_def sample_crypto_def pad_to_def key nth_append)
  have ne: "take 16 (b2s_keyed_mac_16_2 sample_crypto (epoch_cookie sample_crypto (sample_limiter 0) a k) x y)
      \<noteq> replicate 16 0" (is "take 16 ?b \<noteq> _") for a k x y
  proof
    assume "take 16 ?b = replicate 16 0"
    then have "?b = replicate 16 0" by (simp add: crypto_len [OF sample_crypto_laws])
    then have "?b ! 1 = replicate 16 0 ! 1" by (rule arg_cong)
    with nz show False by simp
  qed
  have "\<exists>r rl w. verify_packet sample_crypto (sample_limiter 0) (Some (V4 [10, 0, 0, 1])) d 64
      (sample_world 0) = (Err r, rl, w)"
    by (simp add: verify_packet_unfold m ne split: prod.split result.split)
  then show ?thesis using that by (auto simp: s)
qed

theorem cookie_round_trip_witness:
  "\<exists>r rl1 w2' reply p h2.
    verify_packet sample_crypto (sample_limiter 0) (Some (V4 [10, 0, 0, 1]))
      (fst sample_initiation) 64 (sample_world 0) = (Err r, rl1, w2')
    \<and> r = WriteToNetwork reply \<and> parse_incoming_packet reply = Ok (PacketCookieReply p)
    \<and> receive_cookie_reply sample_crypto (fst (snd sample_initiation)) p = Some (Ok (), h2)"
proof (rule sample_initiation)
  fix d h and w :: world
  assume s: "sample_initiation = (d, h, w)"
    and f: "format_handshake_initiation sample_crypto (sample_handshake [1] [2]) 148 (sample_world 0) = Some (Ok d, h, w)"
  obtain r rl w' where v: "verify_packet sample_crypto (sample_limiter 0) (Some (V4 [10, 0, 0, 1])) d 64 (sample_world 0)
      = (Err r, rl, w')"
    using sample_limiter_refuses by (auto simp: s)
  have "length (static_public (params (sample_handshake [1] [2]))) = 32"
    "rl_mac1_key (sample_limiter 0) = sending_mac1_key (params (sample_handshake [1] [2]))"
    "rl_cookie_key (sample_limiter 0) = cookie_key (params (sample_handshake [1] [2]))"
    "rl_limit (sample_limiter 0) \<le> rl_count (sample_limiter 0)" "COOKIE_REPLY_SZ \<le> 64"
    by (simp_all add: NoiseParams_new_def crypto_len [OF sample_crypto_laws] msg_const_defs)
  from cookie_round_trip [OF sample_crypto_laws this f v] v show ?thesis
    by (auto simp: s)
qed

end
