(* ===== verification/Tunn.thy ===== *)
theory Tunn
  imports RateLimiter
begin

text \<open>
  A point-to-point tunnel: \<^verbatim>\<open>noise/mod.rs\<close> (struct \<open>Tunn\<close>) and \<^verbatim>\<open>noise/timers.rs\<close>.

  The rate limiter of a tunnel is an \<^verbatim>\<open>Arc\<close> that several tunnels may share.  The environment is
  extended with a store of limiters, and a tunnel holds the position of its limiter in it.  The byte counters are of
  type \<^verbatim>\<open>usize\<close> and wrap at its width.
\<close>

section \<open>Shared rate limiters\<close>

record tunn_world = world +
  limiters :: "RateLimiter list"

definition Arc_new :: "RateLimiter \<Rightarrow> tunn_world \<Rightarrow> nat \<times> tunn_world" where
  "Arc_new rl w = (length (limiters w), w\<lparr>limiters := limiters w @ [rl]\<rparr>)"

definition limiter_reset_count :: "nat \<Rightarrow> tunn_world \<Rightarrow> tunn_world" where
  "limiter_reset_count r w =
     (let (rl, w) = reset_count (limiters w ! r) w in w\<lparr>limiters := (limiters w)[r := rl]\<rparr>)"

definition limiter_verify_packet ::
  "crypto \<Rightarrow> nat \<Rightarrow> ip_addr option \<Rightarrow> bytes \<Rightarrow> nat \<Rightarrow> tunn_world
     \<Rightarrow> (packet, TunnResult) result \<times> tunn_world" where
  "limiter_verify_packet c r src_addr src dst_len w =
     (let (res, rl, w) = verify_packet c (limiters w ! r) src_addr src dst_len w
      in (res, w\<lparr>limiters := (limiters w)[r := rl]\<rparr>))"

section \<open>Timers\<close>

definition REKEY_AFTER_TIME :: duration where "REKEY_AFTER_TIME = from_mins 2"
definition REJECT_AFTER_TIME :: duration where "REJECT_AFTER_TIME = from_mins 3"
definition REKEY_ATTEMPT_TIME :: duration where "REKEY_ATTEMPT_TIME = from_secs 90"
definition REKEY_TIMEOUT :: duration where "REKEY_TIMEOUT = from_secs 5"
definition KEEPALIVE_TIMEOUT :: duration where "KEEPALIVE_TIMEOUT = from_secs 10"
definition COOKIE_EXPIRATION_TIME :: duration where "COOKIE_EXPIRATION_TIME = from_mins 2"

text \<open>The last constructor of the enum, \<^verbatim>\<open>Top\<close>, only serves as the number of timers.\<close>

datatype TimerName =
    TimeCurrent
  | TimeSessionEstablished
  | TimeLastHandshakeStarted
  | TimeLastPacketReceived
  | TimeLastPacketSent
  | TimeLastDataPacketReceived
  | TimeLastDataPacketSent
  | TimeCookieReceived
  | TimePersistentKeepalive

primrec timer_index :: "TimerName \<Rightarrow> nat" where
  "timer_index TimeCurrent = 0"
| "timer_index TimeSessionEstablished = 1"
| "timer_index TimeLastHandshakeStarted = 2"
| "timer_index TimeLastPacketReceived = 3"
| "timer_index TimeLastPacketSent = 4"
| "timer_index TimeLastDataPacketReceived = 5"
| "timer_index TimeLastDataPacketSent = 6"
| "timer_index TimeCookieReceived = 7"
| "timer_index TimePersistentKeepalive = 8"

definition TIMER_TOP :: nat where "TIMER_TOP = 9"

record Timers =
  is_initiator :: bool
  time_started :: instant
  timer_values :: "duration list"
  session_timers :: "duration list"
  want_keepalive :: bool
  want_handshake :: bool
  persistent_keepalive_secs :: u16
  should_reset_rr :: bool

definition Timers_new :: "u16 option \<Rightarrow> bool \<Rightarrow> tunn_world \<Rightarrow> Timers \<times> tunn_world" where
  "Timers_new persistent_keepalive reset_rr w =
     (let (now, w) = Instant_now w
      in (\<lparr>is_initiator = False, time_started = now,
           timer_values = replicate TIMER_TOP 0, session_timers = replicate N_SESSIONS 0,
           want_keepalive = False, want_handshake = False,
           persistent_keepalive_secs = (case persistent_keepalive of Some k \<Rightarrow> k | None \<Rightarrow> 0),
           should_reset_rr = reset_rr\<rparr>, w))"

definition Timers_clear :: "Timers \<Rightarrow> tunn_world \<Rightarrow> Timers \<times> tunn_world" where
  "Timers_clear ts w =
     (let (t, w) = Instant_now w;
          now = duration_since t (time_started ts)
      in (ts\<lparr>timer_values := map (\<lambda>_. now) (timer_values ts), want_handshake := False,
             want_keepalive := False\<rparr>, w))"

definition timer_get :: "Timers \<Rightarrow> TimerName \<Rightarrow> duration" where
  "timer_get ts n = timer_values ts ! timer_index n"

definition timer_set :: "Timers \<Rightarrow> TimerName \<Rightarrow> duration \<Rightarrow> Timers" where
  "timer_set ts n d = ts\<lparr>timer_values := (timer_values ts)[timer_index n := d]\<rparr>"

section \<open>The tunnel\<close>

record Tunn =
  handshake :: Handshake
  sessions :: "Session option list"
  current :: nat
  packet_queue :: "bytes list"
  timers :: Timers
  tx_bytes :: u64
  rx_bytes :: u64
  rate_limiter :: nat

definition timer_tick :: "Tunn \<Rightarrow> TimerName \<Rightarrow> Tunn" where
  "timer_tick t timer_name =
     (let ts = timers t;
          ts = (case timer_name of
              TimeLastPacketReceived \<Rightarrow> ts\<lparr>want_keepalive := True, want_handshake := False\<rparr>
            | TimeLastPacketSent \<Rightarrow> ts\<lparr>want_handshake := True, want_keepalive := False\<rparr>
            | _ \<Rightarrow> ts);
          time = timer_get ts TimeCurrent
      in t\<lparr>timers := timer_set ts timer_name time\<rparr>)"

definition timer_tick_session_established :: "Tunn \<Rightarrow> bool \<Rightarrow> nat \<Rightarrow> Tunn" where
  "timer_tick_session_established t initiator session_idx =
     (let t = timer_tick t TimeSessionEstablished;
          ts = timers t
      in t\<lparr>timers := ts\<lparr>session_timers :=
             (session_timers ts)[session_idx mod N_SESSIONS := timer_get ts TimeCurrent],
             is_initiator := initiator\<rparr>\<rparr>)"

definition clear_all :: "Tunn \<Rightarrow> tunn_world \<Rightarrow> Tunn \<times> tunn_world" where
  "clear_all t w =
     (let (ts, w) = Timers_clear (timers t) w
      in (t\<lparr>sessions := map (\<lambda>_. None) (sessions t), packet_queue := [], timers := ts\<rparr>, w))"

fun expire_sessions ::
  "duration \<Rightarrow> duration list \<Rightarrow> Session option list \<Rightarrow> (duration list \<times> Session option list) panics" where
  "expire_sessions time_now (st # sts) (s # ss) = do {
     age \<leftarrow> checked_sub time_now st;
     (sts, ss) \<leftarrow> expire_sessions time_now sts ss;
     Some (if REJECT_AFTER_TIME < age then (time_now # sts, None # ss) else (st # sts, s # ss))
   }"
| "expire_sessions time_now [] ss = Some ([], ss)"
| "expire_sessions time_now (st # sts) [] = None"

definition update_session_timers :: "Tunn \<Rightarrow> duration \<Rightarrow> Tunn panics" where
  "update_session_timers t time_now = do {
     (sts, ss) \<leftarrow> expire_sessions time_now (session_timers (timers t)) (sessions t);
     Some (t\<lparr>timers := (timers t)\<lparr>session_timers := sts\<rparr>, sessions := ss\<rparr>)
   }"

definition Tunn_is_expired :: "Tunn \<Rightarrow> bool" where
  "Tunn_is_expired t = is_expired (handshake t)"

definition Tunn_new ::
  "crypto \<Rightarrow> bytes \<Rightarrow> bytes \<Rightarrow> bytes option \<Rightarrow> u16 option \<Rightarrow> u32 \<Rightarrow> nat option \<Rightarrow> tunn_world
     \<Rightarrow> (Tunn \<times> tunn_world) panics" where
  "Tunn_new c sk peer psk keepalive index limiter w = do {
     let pk = x25519_public c sk;
     (h, w) \<leftarrow> Handshake_new c sk pk peer (push_bit 8 index) psk w;
     let (ts, w) = Timers_new keepalive (limiter = None) w;
     let (r, w) = (case limiter of
         Some r \<Rightarrow> (r, w)
       | None \<Rightarrow> let (rl, w) = RateLimiter_new c pk PEER_HANDSHAKE_RATE_LIMIT w in Arc_new rl w);
     Some (\<lparr>handshake = h, sessions = replicate N_SESSIONS None, current = 0, packet_queue = [],
            timers = ts, tx_bytes = 0, rx_bytes = 0, rate_limiter = r\<rparr>, w)
   }"

definition Tunn_set_static_private ::
  "crypto \<Rightarrow> Tunn \<Rightarrow> bytes \<Rightarrow> bytes \<Rightarrow> nat option \<Rightarrow> tunn_world \<Rightarrow> (Tunn \<times> tunn_world) panics" where
  "Tunn_set_static_private c t sk pk limiter w =
     (let t = t\<lparr>timers := (timers t)\<lparr>should_reset_rr := (limiter = None)\<rparr>\<rparr>;
          (r, w) = (case limiter of
              Some r \<Rightarrow> (r, w)
            | None \<Rightarrow> let (rl, w) = RateLimiter_new c pk PEER_HANDSHAKE_RATE_LIMIT w in Arc_new rl w);
          t = t\<lparr>rate_limiter := r\<rparr>
      in do {
        h \<leftarrow> Handshake_set_static_private c (handshake t) sk pk;
        Some (t\<lparr>handshake := h, sessions := map (\<lambda>_. None) (sessions t)\<rparr>, w)
      })"

definition queue_packet :: "Tunn \<Rightarrow> bytes \<Rightarrow> Tunn" where
  "queue_packet t packet =
     (if length (packet_queue t) < MAX_QUEUE_DEPTH
      then t\<lparr>packet_queue := packet_queue t @ [packet]\<rparr> else t)"

definition requeue_packet :: "Tunn \<Rightarrow> bytes \<Rightarrow> Tunn" where
  "requeue_packet t packet =
     (if length (packet_queue t) < MAX_QUEUE_DEPTH
      then t\<lparr>packet_queue := packet # packet_queue t\<rparr> else t)"

definition dequeue_packet :: "Tunn \<Rightarrow> bytes option \<times> Tunn" where
  "dequeue_packet t =
     (case packet_queue t of [] \<Rightarrow> (None, t) | p # ps \<Rightarrow> (Some p, t\<lparr>packet_queue := ps\<rparr>))"

definition Tunn_format_handshake_initiation ::
  "crypto \<Rightarrow> Tunn \<Rightarrow> nat \<Rightarrow> bool \<Rightarrow> tunn_world \<Rightarrow> (TunnResult \<times> Tunn \<times> tunn_world) panics" where
  "Tunn_format_handshake_initiation c t dst_len force_resend w =
     (if is_in_progress (handshake t) \<and> \<not> force_resend then Some (TunnDone, t, w)
      else
        let (t, w) = (if is_expired (handshake t)
                      then let (ts, w) = Timers_clear (timers t) w in (t\<lparr>timers := ts\<rparr>, w)
                      else (t, w));
            starting_new_handshake = (\<not> is_in_progress (handshake t))
        in do {
          (r, h, w) \<leftarrow> format_handshake_initiation c (handshake t) dst_len w;
          let t = t\<lparr>handshake := h\<rparr>;
          case r of
            Ok packet \<Rightarrow>
              (let t = (if starting_new_handshake then timer_tick t TimeLastHandshakeStarted else t);
                   t = timer_tick t TimeLastPacketSent
               in Some (WriteToNetwork packet, t, w))
          | Err e \<Rightarrow> Some (TunnErr e, t, w)
        })"

definition encapsulate ::
  "crypto \<Rightarrow> Tunn \<Rightarrow> bytes \<Rightarrow> nat \<Rightarrow> tunn_world \<Rightarrow> (TunnResult \<times> Tunn \<times> tunn_world) panics" where
  "encapsulate c t src dst_len w =
     (case sessions t ! (current t mod N_SESSIONS) of
        Some session \<Rightarrow> do {
          (packet, session) \<leftarrow> format_packet_data c session src dst_len;
          let t = t\<lparr>sessions := (sessions t)[current t mod N_SESSIONS := Some session]\<rparr>;
          let t = timer_tick t TimeLastPacketSent;
          let t = (if src \<noteq> [] then timer_tick t TimeLastDataPacketSent else t);
          let t = t\<lparr>tx_bytes := usize c (tx_bytes t + of_nat (length src))\<rparr>;
          Some (WriteToNetwork packet, t, w)
        }
      | None \<Rightarrow>
          let t = queue_packet t src
          in Tunn_format_handshake_initiation c t dst_len False w)"

definition send_queued_packet ::
  "crypto \<Rightarrow> Tunn \<Rightarrow> nat \<Rightarrow> tunn_world \<Rightarrow> (TunnResult \<times> Tunn \<times> tunn_world) panics" where
  "send_queued_packet c t dst_len w =
     (case dequeue_packet t of
        (None, t) \<Rightarrow> Some (TunnDone, t, w)
      | (Some packet, t) \<Rightarrow> do {
          (r, t, w) \<leftarrow> encapsulate c t packet dst_len w;
          case r of
            TunnErr _ \<Rightarrow> Some (TunnDone, requeue_packet t packet, w)
          | r \<Rightarrow> Some (r, t, w)
        })"

definition set_current_session :: "Tunn \<Rightarrow> nat \<Rightarrow> Tunn" where
  "set_current_session t new_idx =
     (let cur_idx = current t
      in if cur_idx = new_idx then t
         else if sessions t ! (cur_idx mod N_SESSIONS) = None
           \<or> session_timers (timers t) ! (cur_idx mod N_SESSIONS)
              \<le> session_timers (timers t) ! (new_idx mod N_SESSIONS)
         then t\<lparr>current := new_idx\<rparr> else t)"

definition validate_decapsulated_packet :: "crypto \<Rightarrow> Tunn \<Rightarrow> bytes \<Rightarrow> TunnResult \<times> Tunn" where
  "validate_decapsulated_packet c t packet =
     (let accept = (\<lambda>computed_len res.
            if length packet < computed_len then (TunnErr InvalidPacket, t)
            else let t = timer_tick t TimeLastDataPacketReceived;
                     t = t\<lparr>rx_bytes := usize c (rx_bytes t + of_nat computed_len)\<rparr>
                 in (res (take computed_len packet), t))
      in if packet = [] then (TunnDone, t)
         else if ip_version packet = 4 \<and> IPV4_MIN_HEADER_SIZE \<le> length packet then
           accept (unat (word_of_be (slice packet IPV4_LEN_OFF (IPV4_LEN_OFF + IP_LEN_SZ)) :: u16))
             (\<lambda>p. WriteToTunnelV4 p (slice packet IPV4_SRC_IP_OFF (IPV4_SRC_IP_OFF + IPV4_IP_SZ)))
         else if ip_version packet = 6 \<and> IPV6_MIN_HEADER_SIZE \<le> length packet then
           accept (unat (word_of_be (slice packet IPV6_LEN_OFF (IPV6_LEN_OFF + IP_LEN_SZ)) :: u16)
                   + IPV6_MIN_HEADER_SIZE)
             (\<lambda>p. WriteToTunnelV6 p (slice packet IPV6_SRC_IP_OFF (IPV6_SRC_IP_OFF + IPV6_IP_SZ)))
         else (TunnErr InvalidPacket, t))"

section \<open>Incoming packets\<close>

definition handle_handshake_init ::
  "crypto \<Rightarrow> Tunn \<Rightarrow> handshake_init \<Rightarrow> nat \<Rightarrow> tunn_world
     \<Rightarrow> ((TunnResult, WireGuardError) result \<times> Tunn \<times> tunn_world) panics" where
  "handle_handshake_init c t p dst_len w = do {
     (r, h, w) \<leftarrow> receive_handshake_initialization c (handshake t) p dst_len w;
     let t = t\<lparr>handshake := h\<rparr>;
     case r of
       Err e \<Rightarrow> Some (Err e, t, w)
     | Ok (packet, session) \<Rightarrow>
         (let index = local_index session;
              t = t\<lparr>sessions := (sessions t)[index mod N_SESSIONS := Some session]\<rparr>;
              t = timer_tick t TimeLastPacketReceived;
              t = timer_tick t TimeLastPacketSent;
              t = timer_tick_session_established t False index
          in Some (Ok (WriteToNetwork packet), t, w))
   }"

definition handle_handshake_response ::
  "crypto \<Rightarrow> Tunn \<Rightarrow> handshake_response \<Rightarrow> nat \<Rightarrow> tunn_world
     \<Rightarrow> ((TunnResult, WireGuardError) result \<times> Tunn \<times> tunn_world) panics" where
  "handle_handshake_response c t p dst_len w = do {
     (r, h, w) \<leftarrow> receive_handshake_response c (handshake t) p w;
     let t = t\<lparr>handshake := h\<rparr>;
     case r of
       Err e \<Rightarrow> Some (Err e, t, w)
     | Ok session \<Rightarrow> do {
         (keepalive_packet, session) \<leftarrow> format_packet_data c session [] dst_len;
         let l_idx = local_index session;
         let index = l_idx mod N_SESSIONS;
         let t = t\<lparr>sessions := (sessions t)[index := Some session]\<rparr>;
         let t = timer_tick t TimeLastPacketReceived;
         let t = timer_tick_session_established t True index;
         let t = set_current_session t l_idx;
         Some (Ok (WriteToNetwork keepalive_packet), t, w)
       }
   }"

definition handle_cookie_reply ::
  "crypto \<Rightarrow> Tunn \<Rightarrow> packet_cookie_reply \<Rightarrow> ((TunnResult, WireGuardError) result \<times> Tunn) panics" where
  "handle_cookie_reply c t p = do {
     (r, h) \<leftarrow> receive_cookie_reply c (handshake t) p;
     let t = t\<lparr>handshake := h\<rparr>;
     case r of
       Err e \<Rightarrow> Some (Err e, t)
     | Ok _ \<Rightarrow>
         (let t = timer_tick t TimeLastPacketReceived;
              t = timer_tick t TimeCookieReceived
          in Some (Ok TunnDone, t))
   }"

definition handle_data ::
  "crypto \<Rightarrow> Tunn \<Rightarrow> packet_data \<Rightarrow> nat \<Rightarrow> ((TunnResult, WireGuardError) result \<times> Tunn) panics" where
  "handle_data c t packet dst_len =
     (let r_idx = unat (pd_receiver_idx packet);
          idx = r_idx mod N_SESSIONS
      in case sessions t ! idx of
           None \<Rightarrow> Some (Err NoCurrentSession, t)
         | Some session \<Rightarrow> do {
             (r, session) \<leftarrow> receive_packet_data c session packet dst_len;
             let t = t\<lparr>sessions := (sessions t)[idx := Some session]\<rparr>;
             case r of
               Err e \<Rightarrow> Some (Err e, t)
             | Ok decapsulated_packet \<Rightarrow>
                 (let t = set_current_session t r_idx;
                      t = timer_tick t TimeLastPacketReceived;
                      (res, t) = validate_decapsulated_packet c t decapsulated_packet
                  in Some (Ok res, t))
           })"

fun unwrap_tunn :: "(TunnResult, WireGuardError) result \<Rightarrow> TunnResult" where
  "unwrap_tunn (Ok r) = r"
| "unwrap_tunn (Err e) = TunnErr e"

fun handle_verified_packet ::
  "crypto \<Rightarrow> Tunn \<Rightarrow> packet \<Rightarrow> nat \<Rightarrow> tunn_world \<Rightarrow> (TunnResult \<times> Tunn \<times> tunn_world) panics" where
  "handle_verified_packet c t (HandshakeInit p) dst_len w = do {
     (r, t, w) \<leftarrow> handle_handshake_init c t p dst_len w; Some (unwrap_tunn r, t, w) }"
| "handle_verified_packet c t (HandshakeResponse p) dst_len w = do {
     (r, t, w) \<leftarrow> handle_handshake_response c t p dst_len w; Some (unwrap_tunn r, t, w) }"
| "handle_verified_packet c t (PacketCookieReply p) dst_len w = do {
     (r, t) \<leftarrow> handle_cookie_reply c t p; Some (unwrap_tunn r, t, w) }"
| "handle_verified_packet c t (PacketData p) dst_len w = do {
     (r, t) \<leftarrow> handle_data c t p dst_len; Some (unwrap_tunn r, t, w) }"

definition decapsulate ::
  "crypto \<Rightarrow> Tunn \<Rightarrow> ip_addr option \<Rightarrow> bytes \<Rightarrow> nat \<Rightarrow> tunn_world
     \<Rightarrow> (TunnResult \<times> Tunn \<times> tunn_world) panics" where
  "decapsulate c t src_addr datagram dst_len w =
     (if datagram = [] then send_queued_packet c t dst_len w
      else
        let (v, w) = limiter_verify_packet c (rate_limiter t) src_addr datagram COOKIE_REPLY_SZ w
        in case v of
             Ok packet \<Rightarrow> handle_verified_packet c t packet dst_len w
           | Err (WriteToNetwork cookie) \<Rightarrow>
               if dst_len < length cookie then None else Some (WriteToNetwork cookie, t, w)
           | Err (TunnErr e) \<Rightarrow> Some (TunnErr e, t, w)
           | Err _ \<Rightarrow> None)"

section \<open>Timer events\<close>

text \<open>
  The branch of \<^verbatim>\<open>update_timers\<close> with no initiation in flight, in its two parts: whether a handshake
  is needed, and if not, whether a keepalive is.  Both return the tunnel with the flags consumed.
\<close>

definition rekey_check :: "Tunn \<Rightarrow> duration \<Rightarrow> (bool \<times> Tunn) panics" where
  "rekey_check t now = do {
     let ts = timers t;
     let session_established = timer_get ts TimeSessionEstablished;
     let aut_packet_received = timer_get ts TimeLastPacketReceived;
     let data_packet_received = timer_get ts TimeLastDataPacketReceived;
     let data_packet_sent = timer_get ts TimeLastDataPacketSent;
     on_send \<leftarrow>
       (if is_initiator ts \<and> session_established < data_packet_sent
        then do { d \<leftarrow> checked_sub now session_established; Some (REKEY_AFTER_TIME \<le> d) }
        else Some False);
     on_receive \<leftarrow>
       (if is_initiator ts \<and> session_established < data_packet_received
        then do {
          d \<leftarrow> checked_sub now session_established;
          limit \<leftarrow> checked_sub REJECT_AFTER_TIME KEEPALIVE_TIMEOUT;
          limit \<leftarrow> checked_sub limit REKEY_TIMEOUT;
          Some (limit \<le> d) }
        else Some False);
     silent \<leftarrow>
       (if aut_packet_received < data_packet_sent
        then do { d \<leftarrow> checked_sub now aut_packet_received;
                  Some (KEEPALIVE_TIMEOUT + REKEY_TIMEOUT \<le> d) }
        else Some False);
     let no_answer = (silent \<and> want_handshake ts);
     let ts = (if silent then ts\<lparr>want_handshake := False\<rparr> else ts);
     Some (on_send \<or> on_receive \<or> no_answer, t\<lparr>timers := ts\<rparr>)
   }"

definition keepalive_check :: "Tunn \<Rightarrow> duration \<Rightarrow> (bool \<times> Tunn) panics" where
  "keepalive_check t now = do {
     let ts = timers t;
     let aut_packet_sent = timer_get ts TimeLastPacketSent;
     let data_packet_received = timer_get ts TimeLastDataPacketReceived;
     quiet \<leftarrow>
       (if aut_packet_sent < data_packet_received
        then do { d \<leftarrow> checked_sub now aut_packet_sent; Some (KEEPALIVE_TIMEOUT \<le> d) }
        else Some False);
     let keepalive_required = (quiet \<and> want_keepalive ts);
     due \<leftarrow>
       (if 0 < persistent_keepalive_secs ts
        then do { d \<leftarrow> checked_sub now (timer_get ts TimePersistentKeepalive);
                  Some (from_secs (unat (persistent_keepalive_secs ts)) \<le> d) }
        else Some False);
     let ts = (if quiet then ts\<lparr>want_keepalive := False\<rparr> else ts);
     let t = t\<lparr>timers := ts\<rparr>;
     let t = (if due then timer_tick t TimePersistentKeepalive else t);
     Some (keepalive_required \<or> due, t)
   }"

definition idle_timers :: "Tunn \<Rightarrow> duration \<Rightarrow> (bool \<times> bool \<times> Tunn) panics" where
  "idle_timers t now = do {
     (handshake_initiation_required, t) \<leftarrow> rekey_check t now;
     if handshake_initiation_required then Some (True, False, t)
     else do {
       (keepalive_required, t) \<leftarrow> keepalive_check t now;
       Some (False, keepalive_required, t)
     }
   }"

definition expire_tunnel :: "Tunn \<Rightarrow> tunn_world \<Rightarrow> TunnResult \<times> Tunn \<times> tunn_world" where
  "expire_tunnel t w =
     (let t = t\<lparr>handshake := set_expired (handshake t)\<rparr>;
          (t, w) = clear_all t w
      in (TunnErr ConnectionExpired, t, w))"

definition update_timers ::
  "crypto \<Rightarrow> Tunn \<Rightarrow> nat \<Rightarrow> tunn_world \<Rightarrow> (TunnResult \<times> Tunn \<times> tunn_world) panics" where
  "update_timers c t dst_len w = do {
     let (time, w) = Instant_now w;
     let w = (if should_reset_rr (timers t) then limiter_reset_count (rate_limiter t) w else w);
     let now = duration_since time (time_started (timers t));
     let t = t\<lparr>timers := timer_set (timers t) TimeCurrent now\<rparr>;
     t \<leftarrow> update_session_timers t now;
     let session_established = timer_get (timers t) TimeSessionEstablished;
     let handshake_started = timer_get (timers t) TimeLastHandshakeStarted;
     if is_expired (handshake t) then Some (TunnErr ConnectionExpired, t, w)
     else do {
       cookie_old \<leftarrow>
         (if has_cookie (handshake t)
          then do { d \<leftarrow> checked_sub now (timer_get (timers t) TimeCookieReceived);
                    Some (COOKIE_EXPIRATION_TIME \<le> d) }
          else Some False);
       let t = (if cookie_old then t\<lparr>handshake := clear_cookie (handshake t)\<rparr> else t);
       d \<leftarrow> checked_sub now session_established;
       if REJECT_AFTER_TIME * 3 \<le> d then Some (expire_tunnel t w)
       else case timer (handshake t) of
         Some time_init_sent \<Rightarrow> do {
           d \<leftarrow> checked_sub now handshake_started;
           if REKEY_ATTEMPT_TIME \<le> d then Some (expire_tunnel t w)
           else
             let (e, w) = Instant_elapsed time_init_sent w
             in if REKEY_TIMEOUT \<le> e
                then Tunn_format_handshake_initiation c t dst_len True w
                else Some (TunnDone, t, w)
         }
       | None \<Rightarrow> do {
           (handshake_initiation_required, keepalive_required, t) \<leftarrow> idle_timers t now;
           if handshake_initiation_required then Tunn_format_handshake_initiation c t dst_len True w
           else if keepalive_required then encapsulate c t [] dst_len w
           else Some (TunnDone, t, w)
         }
     }
   }"

definition time_since_last_handshake :: "Tunn \<Rightarrow> tunn_world \<Rightarrow> (duration option \<times> tunn_world) panics" where
  "time_since_last_handshake t w =
     (case sessions t ! (current t mod N_SESSIONS) of
        Some _ \<Rightarrow>
          (let (now, w) = Instant_now w;
               d = duration_since now (time_started (timers t))
           in do { d \<leftarrow> checked_sub d (timer_get (timers t) TimeSessionEstablished); Some (Some d, w) })
      | None \<Rightarrow> Some (None, w))"

definition persistent_keepalive :: "Tunn \<Rightarrow> u16 option" where
  "persistent_keepalive t =
     (let keepalive = persistent_keepalive_secs (timers t)
      in if 0 < keepalive then Some keepalive else None)"

definition last_handshake_time :: "Tunn \<Rightarrow> tunn_world \<Rightarrow> (duration option \<times> tunn_world) panics" where
  "last_handshake_time t w =
     (case SystemTime_since_epoch w of
        (None, w) \<Rightarrow> Some (None, w)
      | (Some d, w) \<Rightarrow> do {
          (e, w) \<leftarrow> time_since_last_handshake t w;
          case e of None \<Rightarrow> Some (None, w) | Some e \<Rightarrow> Some (checked_sub d e, w)
        })"

text \<open>
  \<^verbatim>\<open>Tunn::stats\<close> without the loss estimate, which is computed in \<^verbatim>\<open>f32\<close> from the packet counters
  and never panics.
\<close>

definition Tunn_stats ::
  "Tunn \<Rightarrow> tunn_world \<Rightarrow> ((duration option \<times> u64 \<times> u64 \<times> u32 option) \<times> tunn_world) panics" where
  "Tunn_stats t w = do {
     (time, w) \<leftarrow> time_since_last_handshake t w;
     Some ((time, tx_bytes t, rx_bytes t, last_rtt (handshake t)), w)
   }"

end
