(* ===== verification/TunnInvariant.thy ===== *)
theory TunnInvariant
  imports Tunn
begin

text \<open>
  The invariant of a tunnel and that every operation of \<^verbatim>\<open>noise/mod.rs\<close> and \<^verbatim>\<open>noise/timers.rs\<close>
  preserves it: the arrays have their lengths, the queue is bounded, each session sits in the slot
  of its index and carries the peer's index prefix, and no timer is ahead of the clock.  From it
  follow the absence of panics and the behaviour of the queue, the session ring and the timers.
\<close>

section \<open>The invariant\<close>

definition tw_le :: "tunn_world \<Rightarrow> tunn_world \<Rightarrow> bool" where
  "tw_le w w' \<longleftrightarrow> world_le w w' \<and> length (limiters w) \<le> length (limiters w')"

lemma tw_le_refl [simp, intro]: "tw_le w w"
  by (simp add: tw_le_def)

lemma tw_le_trans [trans]: "tw_le a b \<Longrightarrow> tw_le b d \<Longrightarrow> tw_le a d"
  by (auto simp: tw_le_def intro: world_le_trans)

lemma tw_le_now [simp, intro]: "tw_le w (snd (Instant_now w))"
  by (simp add: tw_le_def world_le_def Instant_now_def)

lemma tw_le_rng [simp, intro]: "tw_le w (snd (OsRng_bytes n w))"
  by (simp add: tw_le_def world_le_def OsRng_bytes_def)

lemma tw_le_stamp [simp, intro]: "tw_le w (snd (stamp ts w))"
  by (simp add: tw_le_def world_le_def stamp_def Instant_now_def Let_def)

definition shape_ok :: "Tunn \<Rightarrow> bool" where
  "shape_ok t \<longleftrightarrow>
     length (sessions t) = N_SESSIONS \<and> length (timer_values (timers t)) = TIMER_TOP \<and>
     length (session_timers (timers t)) = N_SESSIONS \<and> length (packet_queue t) \<le> MAX_QUEUE_DEPTH"

definition times_ok :: "Timers \<Rightarrow> tunn_world \<Rightarrow> bool" where
  "times_ok ts w \<longleftrightarrow>
     monotone_clock w \<and> wf_instant (time_started ts) \<and>
     (\<forall>d \<in> set (timer_values ts) \<union> set (session_timers ts). d \<le> since (time_started ts) w)"

definition slot_ok :: "u32 \<Rightarrow> nat \<Rightarrow> Session \<Rightarrow> bool" where
  "slot_ok b i s \<longleftrightarrow>
     session_ok s \<and> local_index s mod N_SESSIONS = i \<and> drop_bit 8 (receiving_index s) = b"

definition sessions_ok :: "u32 \<Rightarrow> Session option list \<Rightarrow> bool" where
  "sessions_ok b ss \<longleftrightarrow> (\<forall>i < length ss. \<forall>s. ss ! i = Some s \<longrightarrow> slot_ok b i s)"

definition tunn_inv :: "u32 \<Rightarrow> Tunn \<Rightarrow> tunn_world \<Rightarrow> bool" where
  "tunn_inv b t w \<longleftrightarrow>
     shape_ok t \<and> times_ok (timers t) w \<and> sessions_ok b (sessions t) \<and>
     index_inv b (handshake t) \<and> length (static_public (params (handshake t))) = 32 \<and>
     rate_limiter t < length (limiters w)"

lemma tunn_invD:
  assumes "tunn_inv b t w"
  shows "shape_ok t" "times_ok (timers t) w" "sessions_ok b (sessions t)"
    "index_inv b (handshake t)" "length (static_public (params (handshake t))) = 32"
    "rate_limiter t < length (limiters w)"
  using assms by (auto simp: tunn_inv_def)

lemma times_ok_mono: "times_ok ts w \<Longrightarrow> tw_le w w' \<Longrightarrow> times_ok ts w'"
  unfolding times_ok_def tw_le_def
  by (meson monotone_clock_le order_trans since_mono)

lemma inv_mono: "tunn_inv b t w \<Longrightarrow> tw_le w w' \<Longrightarrow> tunn_inv b t w'"
  by (auto simp: tunn_inv_def tw_le_def intro: times_ok_mono [unfolded tw_le_def])

section \<open>Updates that preserve it\<close>

named_theorems inv_intros

lemma timer_index_bound: "timer_index n < TIMER_TOP"
  by (cases n) (simp_all add: TIMER_TOP_def)

lemma times_ok_set:
  assumes "times_ok ts w" "d \<le> since (time_started ts) w"
  shows "times_ok (timer_set ts n d) w"
  using assms set_update_subset_insert [of "timer_values ts" "timer_index n" d]
  by (auto simp: times_ok_def timer_set_def)

lemma timer_get_bound:
  assumes "times_ok (timers t) w" "shape_ok t"
  shows "timer_get (timers t) n \<le> since (time_started (timers t)) w"
  using assms timer_index_bound [of n] nth_mem [of "timer_index n" "timer_values (timers t)"]
  by (auto simp: times_ok_def timer_get_def shape_ok_def)

lemma inv_tick [inv_intros]:
  assumes "tunn_inv b t w"
  shows "tunn_inv b (timer_tick t n) w"
proof -
  define ts where "ts = (case n of
              TimeLastPacketReceived \<Rightarrow> (timers t)\<lparr>want_keepalive := True, want_handshake := False\<rparr>
            | TimeLastPacketSent \<Rightarrow> (timers t)\<lparr>want_handshake := True, want_keepalive := False\<rparr>
            | _ \<Rightarrow> timers t)"
  have f: "timer_values ts = timer_values (timers t)" "session_timers ts = session_timers (timers t)"
    "time_started ts = time_started (timers t)"
    by (cases n; simp add: ts_def)+
  have "times_ok ts w" using tunn_invD(2) [OF assms] by (simp add: times_ok_def f)
  moreover have "timer_get ts TimeCurrent \<le> since (time_started ts) w"
    using timer_get_bound [OF tunn_invD(2,1) [OF assms], of TimeCurrent]
    by (simp add: timer_get_def f)
  ultimately have "times_ok (timer_set ts n (timer_get ts TimeCurrent)) w" by (rule times_ok_set)
  moreover have "timer_tick t n = t\<lparr>timers := timer_set ts n (timer_get ts TimeCurrent)\<rparr>"
    by (simp add: timer_tick_def ts_def Let_def)
  ultimately show ?thesis
    using assms by (simp add: tunn_inv_def shape_ok_def timer_set_def f)
qed

lemma tick_fields [simp]:
  "sessions (timer_tick t n) = sessions t" "current (timer_tick t n) = current t"
  "packet_queue (timer_tick t n) = packet_queue t" "handshake (timer_tick t n) = handshake t"
  "rate_limiter (timer_tick t n) = rate_limiter t" "tx_bytes (timer_tick t n) = tx_bytes t"
  "rx_bytes (timer_tick t n) = rx_bytes t"
  "session_timers (timers (timer_tick t n)) = session_timers (timers t)"
  "time_started (timers (timer_tick t n)) = time_started (timers t)"
  by (cases n; simp add: timer_tick_def timer_set_def Let_def)+

lemma inv_tick_established [inv_intros]:
  assumes "tunn_inv b t w"
  shows "tunn_inv b (timer_tick_session_established t i idx) w"
proof -
  define u where "u = timer_tick t TimeSessionEstablished"
  have u: "tunn_inv b u w" unfolding u_def by (rule inv_tick [OF assms])
  have "timer_get (timers u) TimeCurrent \<le> since (time_started (timers u)) w"
    by (rule timer_get_bound [OF tunn_invD(2,1) [OF u]])
  with u set_update_subset_insert [of "session_timers (timers u)" "idx mod N_SESSIONS"]
  show ?thesis
    unfolding timer_tick_session_established_def u_def [symmetric] Let_def
    by (auto simp: tunn_inv_def shape_ok_def times_ok_def)
qed

lemma sessions_ok_set:
  assumes "sessions_ok b ss" "slot_ok b i s"
  shows "sessions_ok b (ss[i := Some s])"
  using assms
  by (cases "i < length ss") (auto simp: sessions_ok_def nth_list_update split: if_splits)

lemma sessions_ok_none [simp]: "sessions_ok b (map (\<lambda>_. None) ss)" "sessions_ok b (replicate n None)"
  by (auto simp: sessions_ok_def)

lemma inv_session [inv_intros]:
  "tunn_inv b t w \<Longrightarrow> slot_ok b i s \<Longrightarrow> tunn_inv b (t\<lparr>sessions := (sessions t)[i := Some s]\<rparr>) w"
  by (simp add: tunn_inv_def shape_ok_def sessions_ok_set)

lemma inv_handshake [inv_intros]:
  "tunn_inv b t w \<Longrightarrow> index_inv b h \<Longrightarrow> static_public (params h) = static_public (params (handshake t)) \<Longrightarrow>
   tunn_inv b (t\<lparr>handshake := h\<rparr>) w"
  by (simp add: tunn_inv_def shape_ok_def)

lemma inv_current [inv_intros]: "tunn_inv b t w \<Longrightarrow> tunn_inv b (set_current_session t i) w"
  by (simp add: tunn_inv_def shape_ok_def set_current_session_def Let_def)

lemma inv_bytes [inv_intros]:
  "tunn_inv b t w \<Longrightarrow> tunn_inv b (t\<lparr>tx_bytes := n\<rparr>) w"
  "tunn_inv b t w \<Longrightarrow> tunn_inv b (t\<lparr>rx_bytes := n\<rparr>) w"
  by (simp_all add: tunn_inv_def shape_ok_def)

lemma inv_queue [inv_intros]:
  "tunn_inv b t w \<Longrightarrow> tunn_inv b (queue_packet t p) w"
  "tunn_inv b t w \<Longrightarrow> tunn_inv b (requeue_packet t p) w"
  "tunn_inv b t w \<Longrightarrow> tunn_inv b (snd (dequeue_packet t)) w"
  by (auto simp: tunn_inv_def shape_ok_def queue_packet_def requeue_packet_def dequeue_packet_def
      split: list.split)

lemma times_ok_clear:
  assumes "times_ok ts w" "Timers_clear ts w = (ts', w')"
  shows "times_ok ts' w'" "tw_le w w'" "time_started ts' = time_started ts"
    "length (timer_values ts') = length (timer_values ts)"
    "session_timers ts' = session_timers ts"
    "rate_limiter t < length (limiters w') \<longleftrightarrow> rate_limiter t < length (limiters w)"
proof -
  have w': "w' = snd (Instant_now w)"
    and ts': "ts' = ts\<lparr>timer_values := map (\<lambda>_. since (time_started ts) w) (timer_values ts),
       want_handshake := False, want_keepalive := False\<rparr>"
    using assms(2) by (auto simp: Timers_clear_def Let_def since_def Instant_now_def)
  show "tw_le w w'" unfolding w' by simp
  have "since (time_started ts) w \<le> since (time_started ts) w'"
    using assms(1) \<open>tw_le w w'\<close> by (intro since_mono) (auto simp: times_ok_def tw_le_def)
  with times_ok_mono [OF assms(1) \<open>tw_le w w'\<close>] show "times_ok ts' w'"
    by (auto simp: ts' times_ok_def)
qed (use assms(2) in \<open>auto simp: Timers_clear_def Let_def Instant_now_def\<close>)

lemma inv_clear:
  assumes "tunn_inv b t w" "Timers_clear (timers t) w = (ts', w')"
  shows "tunn_inv b (t\<lparr>timers := ts'\<rparr>) w'" "tw_le w w'"
proof -
  note c = times_ok_clear [OF tunn_invD(2) [OF assms(1)] assms(2)]
  show "tw_le w w'" by (rule c)
  then show "tunn_inv b (t\<lparr>timers := ts'\<rparr>) w'"
    using assms(1) c by (auto simp: tunn_inv_def shape_ok_def tw_le_def)
qed

section \<open>Outgoing packets\<close>

lemma format_init_world:
  assumes "format_handshake_initiation c h n w = Some (r, h', w')"
  shows "tw_le w w'"
  using assms
proof (cases rule: format_init_cases)
  case (sent dgram st cs)
  then have "w' = snd (Instant_now (snd (stamp (stamper h) (snd (OsRng_bytes 32 w)))))"
    by (metis snd_conv)
  moreover have "tw_le w (snd (stamp (stamper h) (snd (OsRng_bytes 32 w))))"
    by (rule tw_le_trans [OF tw_le_rng tw_le_stamp])
  ultimately show ?thesis using tw_le_trans [OF _ tw_le_now] by simp
qed auto

lemma format_init_params:
  "format_handshake_initiation c h n w = Some (r, h', w') \<Longrightarrow> params h' = params h"
  by (elim format_init_cases) auto

text \<open>
  What every operation guarantees about the tunnel and the environment it leaves behind.
\<close>

definition kept :: "u32 \<Rightarrow> Tunn \<Rightarrow> tunn_world \<Rightarrow> Tunn \<Rightarrow> tunn_world \<Rightarrow> bool" where
  "kept b t w t' w' \<longleftrightarrow>
     tunn_inv b t' w' \<and> tw_le w w' \<and> rate_limiter t' = rate_limiter t \<and>
     time_started (timers t') = time_started (timers t)"

lemma keptD:
  assumes "kept b t w t' w'"
  shows "tunn_inv b t' w'" "tw_le w w'" "rate_limiter t' = rate_limiter t"
    "time_started (timers t') = time_started (timers t)"
  using assms by (auto simp: kept_def)

lemma kept_trans [trans]: "kept b t w t1 w1 \<Longrightarrow> kept b t1 w1 t' w' \<Longrightarrow> kept b t w t' w'"
  by (auto simp: kept_def intro: tw_le_trans)

lemma kept_same: "tunn_inv b t' w \<Longrightarrow> rate_limiter t' = rate_limiter t \<Longrightarrow>
    time_started (timers t') = time_started (timers t) \<Longrightarrow> kept b t w t' w"
  by (simp add: kept_def)

lemma kept_clear:
  assumes "tunn_inv b t w" "Timers_clear (timers t) w = (ts', w')"
  shows "kept b t w (t\<lparr>timers := ts'\<rparr>) w'"
  using inv_clear [OF assms] assms(2)
  by (auto simp: kept_def Timers_clear_def Let_def split: prod.splits)

lemma kept_handshake:
  assumes "tunn_inv b t w" "tw_le w w'" "index_inv b h" "params h = params (handshake t)"
  shows "kept b t w (t\<lparr>handshake := h\<rparr>) w'"
  using assms inv_mono [OF assms(1,2)] by (auto simp: kept_def intro: inv_handshake)

lemma established_fields [simp]:
  "rate_limiter (timer_tick_session_established t i idx) = rate_limiter t"
  "time_started (timers (timer_tick_session_established t i idx)) = time_started (timers t)"
  "handshake (timer_tick_session_established t i idx) = handshake t"
  "sessions (timer_tick_session_established t i idx) = sessions t"
  "packet_queue (timer_tick_session_established t i idx) = packet_queue t"
  "current (timer_tick_session_established t i idx) = current t"
  by (simp_all add: timer_tick_session_established_def Let_def)

lemma set_current_fields [simp]:
  "rate_limiter (set_current_session t i) = rate_limiter t"
  "timers (set_current_session t i) = timers t"
  "handshake (set_current_session t i) = handshake t"
  "sessions (set_current_session t i) = sessions t"
  "packet_queue (set_current_session t i) = packet_queue t"
  by (simp_all add: set_current_session_def Let_def)

lemma queue_fields [simp]:
  "rate_limiter (queue_packet t p) = rate_limiter t" "timers (queue_packet t p) = timers t"
  "handshake (queue_packet t p) = handshake t" "sessions (queue_packet t p) = sessions t"
  "current (queue_packet t p) = current t"
  "rate_limiter (requeue_packet t p) = rate_limiter t" "timers (requeue_packet t p) = timers t"
  "handshake (requeue_packet t p) = handshake t" "sessions (requeue_packet t p) = sessions t"
  "current (requeue_packet t p) = current t"
  by (simp_all add: queue_packet_def requeue_packet_def)

text \<open>The start of an initiation: the timers are cleared first when the handshake had expired.\<close>

definition revive :: "Tunn \<Rightarrow> tunn_world \<Rightarrow> Tunn \<times> tunn_world" where
  "revive t w = (if is_expired (handshake t)
      then let (ts, w) = Timers_clear (timers t) w in (t\<lparr>timers := ts\<rparr>, w) else (t, w))"

lemma revive_kept:
  assumes "tunn_inv b t w" "revive t w = (t1, w1)"
  shows "kept b t w t1 w1"
proof (cases "is_expired (handshake t)")
  case True
  then show ?thesis using assms kept_clear [OF assms(1)]
    by (auto simp: revive_def split: prod.splits)
qed (use assms in \<open>simp add: revive_def kept_same\<close>)

lemma revive_fields:
  assumes "revive t w = (t1, w1)"
  shows "handshake t1 = handshake t" "sessions t1 = sessions t" "packet_queue t1 = packet_queue t"
    "current t1 = current t"
  using assms by (auto simp: revive_def split: if_splits prod.splits)

definition initiation_sent :: "bool \<Rightarrow> Tunn \<Rightarrow> Tunn" where
  "initiation_sent starting t =
     timer_tick (if starting then timer_tick t TimeLastHandshakeStarted else t) TimeLastPacketSent"

lemma inv_initiation_sent [inv_intros]: "tunn_inv b t w \<Longrightarrow> tunn_inv b (initiation_sent s t) w"
  by (auto simp: initiation_sent_def intro: inv_intros)

lemma initiation_sent_fields [simp]:
  "sessions (initiation_sent s t) = sessions t" "packet_queue (initiation_sent s t) = packet_queue t"
  "current (initiation_sent s t) = current t" "rate_limiter (initiation_sent s t) = rate_limiter t"
  "time_started (timers (initiation_sent s t)) = time_started (timers t)"
  "handshake (initiation_sent s t) = handshake t"
  by (simp_all add: initiation_sent_def)

lemma Tunn_format_init_unfold:
  "Tunn_format_handshake_initiation c t n force w =
     (if is_in_progress (handshake t) \<and> \<not> force then Some (TunnDone, t, w)
      else let (t1, w1) = revive t w in
        case format_handshake_initiation c (handshake t) n w1 of
          None \<Rightarrow> None
        | Some (Ok packet, h, w2) \<Rightarrow> Some (WriteToNetwork packet,
            initiation_sent (\<not> is_in_progress (handshake t)) (t1\<lparr>handshake := h\<rparr>), w2)
        | Some (Err e, h, w2) \<Rightarrow> Some (TunnErr e, t1\<lparr>handshake := h\<rparr>, w2))"
  unfolding Tunn_format_handshake_initiation_def revive_def initiation_sent_def Let_def
  by (simp split: prod.split option.split result.split)

lemma Tunn_format_init_total:
  assumes c: "crypto_laws c" and inv: "tunn_inv b t w"
  obtains r t' w' where "Tunn_format_handshake_initiation c t n force w = Some (r, t', w')"
    "kept b t w t' w'" "sessions t' = sessions t" "packet_queue t' = packet_queue t"
    "current t' = current t"
proof (cases "is_in_progress (handshake t) \<and> \<not> force")
  case True
  show ?thesis
    by (rule that [of TunnDone t w]) (use True inv in \<open>simp_all add: Tunn_format_init_unfold kept_same\<close>)
next
  case go: False
  obtain t1 w1 where u: "revive t w = (t1, w1)" by force
  note k1 = revive_kept [OF inv u] and f1 = revive_fields [OF u]
  obtain r h w2 where f: "format_handshake_initiation c (handshake t1) n w1 = Some (r, h, w2)"
    using format_init_total [OF c tunn_invD(5) [OF keptD(1) [OF k1]]] by blast
  define t2 where "t2 = t1\<lparr>handshake := h\<rparr>"
  have k2: "kept b t w t2 w2"
    unfolding t2_def
    by (rule kept_trans [OF k1 kept_handshake])
      (use keptD(1) [OF k1] format_init_world [OF f] format_init_params [OF f]
        index_inv_format_init [OF f tunn_invD(4)] in auto)
  define t3 where "t3 = (if is_ok r then initiation_sent (\<not> is_in_progress (handshake t)) t2 else t2)"
  have "kept b t w t3 w2"
    using k2 inv_initiation_sent [OF keptD(1) [OF k2]] by (simp add: t3_def kept_def)
  moreover have "\<exists>r'. Tunn_format_handshake_initiation c t n force w = Some (r', t3, w2)"
    using go u f f1 by (cases r) (auto simp: Tunn_format_init_unfold t3_def t2_def)
  moreover have "sessions t3 = sessions t" "packet_queue t3 = packet_queue t" "current t3 = current t"
    using f1 by (simp_all add: t3_def t2_def)
  ultimately show ?thesis using that by blast
qed

lemma format_packet_slot:
  assumes "format_packet_data c s src n = Some (p, s')" "slot_ok b i s"
  shows "slot_ok b i s'"
  using assms
  by (auto simp: format_packet_data_def slot_ok_def local_index_def Let_def split: if_splits prod.splits)

lemma current_slot:
  assumes "tunn_inv b t w" "sessions t ! (k mod N_SESSIONS) = Some s"
  shows "slot_ok b (k mod N_SESSIONS) s"
  using assms by (simp add: tunn_inv_def shape_ok_def sessions_ok_def N_SESSIONS_def)

definition data_sent :: "crypto \<Rightarrow> Tunn \<Rightarrow> Session \<Rightarrow> bytes \<Rightarrow> Tunn" where
  "data_sent c t s src =
     (let t = t\<lparr>sessions := (sessions t)[current t mod N_SESSIONS := Some s]\<rparr>;
          t = timer_tick t TimeLastPacketSent;
          t = (if src \<noteq> [] then timer_tick t TimeLastDataPacketSent else t)
      in t\<lparr>tx_bytes := usize c (tx_bytes t + of_nat (length src))\<rparr>)"

lemma encapsulate_unfold:
  "encapsulate c t src n w =
     (case sessions t ! (current t mod N_SESSIONS) of
        Some s \<Rightarrow> (case format_packet_data c s src n of
            None \<Rightarrow> None | Some (p, s') \<Rightarrow> Some (WriteToNetwork p, data_sent c t s' src, w))
      | None \<Rightarrow> Tunn_format_handshake_initiation c (queue_packet t src) n False w)"
  by (simp add: encapsulate_def data_sent_def Let_def split: option.split)

lemma data_sent_fields [simp]:
  "packet_queue (data_sent c t s src) = packet_queue t" "current (data_sent c t s src) = current t"
  "sessions (data_sent c t s src) = (sessions t)[current t mod N_SESSIONS := Some s]"
  "handshake (data_sent c t s src) = handshake t" "rate_limiter (data_sent c t s src) = rate_limiter t"
  "time_started (timers (data_sent c t s src)) = time_started (timers t)"
  by (simp_all add: data_sent_def Let_def)

lemma kept_data_sent:
  assumes "tunn_inv b t w" "slot_ok b (current t mod N_SESSIONS) s"
  shows "kept b t w (data_sent c t s src) w"
proof (rule kept_same)
  show "tunn_inv b (data_sent c t s src) w"
    unfolding data_sent_def Let_def using assms by (auto intro!: inv_intros)
qed simp_all

lemma encapsulate_total:
  assumes c: "crypto_laws c" and inv: "tunn_inv b t w" 
    and n: "sessions t ! (current t mod N_SESSIONS) \<noteq> None \<Longrightarrow> length src + 32 \<le> n"
  obtains r t' w' where "encapsulate c t src n w = Some (r, t', w')" "kept b t w t' w'"
proof (cases "sessions t ! (current t mod N_SESSIONS)")
  case None
  have q: "kept b t w (queue_packet t src) w" by (rule kept_same) (auto intro: inv_intros inv)
  obtain r t' w' where "Tunn_format_handshake_initiation c (queue_packet t src) n False w = Some (r, t', w')"
    "kept b (queue_packet t src) w t' w'"
    by (rule Tunn_format_init_total [OF c keptD(1) [OF q]])
  with None show ?thesis using kept_trans [OF q] by (intro that) (auto simp: encapsulate_unfold)
next
  case (Some s)
  obtain p s' where f: "format_packet_data c s src n = Some (p, s')"
    by (rule format_packet_data_eq [OF c n, of s]) (use Some in simp_all)
  note k = kept_data_sent [OF inv format_packet_slot [OF f current_slot [OF inv Some]], of c src]
  show ?thesis by (rule that [OF _ k]) (simp add: encapsulate_unfold Some f)
qed

text \<open>The oldest queued packet can be sent in a datagram of \<open>n\<close> bytes, or there is no session to send it over.\<close>

definition head_fits :: "nat \<Rightarrow> Tunn \<Rightarrow> bool" where
  "head_fits n t \<longleftrightarrow>
     sessions t ! (current t mod N_SESSIONS) \<noteq> None \<longrightarrow> (\<forall>p ps. packet_queue t = p # ps \<longrightarrow> length p + 32 \<le> n)"

lemma send_queued_total:
  assumes c: "crypto_laws c" and inv: "tunn_inv b t w" and n: "head_fits n t"
  obtains r t' w' where "send_queued_packet c t n w = Some (r, t', w')" "kept b t w t' w'"
proof (cases "packet_queue t")
  case Nil
  show ?thesis
    by (rule that [of TunnDone t w])
      (use Nil inv in \<open>simp_all add: send_queued_packet_def dequeue_packet_def kept_same\<close>)
next
  case (Cons p ps)
  have q: "kept b t w (t\<lparr>packet_queue := ps\<rparr>) w"
    using inv_queue(3) [OF inv] Cons by (intro kept_same) (simp_all add: dequeue_packet_def)
  obtain r t' w' where e: "encapsulate c (t\<lparr>packet_queue := ps\<rparr>) p n w = Some (r, t', w')"
    and k: "kept b (t\<lparr>packet_queue := ps\<rparr>) w t' w'"
    by (rule encapsulate_total [OF c keptD(1) [OF q], of p n]) (use n Cons in \<open>auto simp: head_fits_def\<close>)
  have k': "kept b t w t' w'" by (rule kept_trans [OF q k])
  moreover from k' have "kept b t w (requeue_packet t' p) w'"
    by (auto simp: kept_def intro: inv_intros)
  ultimately show ?thesis
    using that Cons e by (cases r) (simp_all add: send_queued_packet_def dequeue_packet_def)
qed

section \<open>Incoming packets\<close>

lemma receive_init_world:
  "receive_handshake_initialization c h m n w = Some (r, h', w') \<Longrightarrow> tw_le w w'"
  by (auto elim!: receive_init_cases format_resp_cases)

lemma receive_resp_world:
  "receive_handshake_response c h m w = Some (r, h', w') \<Longrightarrow> tw_le w w'"
  by (auto elim!: receive_resp_cases)

lemma receive_resp_params:
  "receive_handshake_response c h m w = Some (r, h', w') \<Longrightarrow> params h' = params h"
  by (auto simp: answered_def Let_def elim!: receive_resp_cases)

lemma receive_cookie_keeps:
  assumes "receive_cookie_reply c h m = Some (r, h')"
  shows "params h' = params h" "index_inv b h' \<longleftrightarrow> index_inv b h"
  using assms by (auto simp: receive_cookie_reply_def index_inv_def split: option.splits if_splits)

definition responder_established :: "Tunn \<Rightarrow> Session \<Rightarrow> Tunn" where
  "responder_established t s =
     (let index = local_index s;
          t = t\<lparr>sessions := (sessions t)[index mod N_SESSIONS := Some s]\<rparr>;
          t = timer_tick t TimeLastPacketReceived;
          t = timer_tick t TimeLastPacketSent
      in timer_tick_session_established t False index)"

definition initiator_established :: "Tunn \<Rightarrow> Session \<Rightarrow> Tunn" where
  "initiator_established t s =
     (let l_idx = local_index s;
          index = l_idx mod N_SESSIONS;
          t = t\<lparr>sessions := (sessions t)[index := Some s]\<rparr>;
          t = timer_tick t TimeLastPacketReceived;
          t = timer_tick_session_established t True index
      in set_current_session t l_idx)"

lemma kept_established:
  assumes "tunn_inv b t w" "slot_ok b (local_index s mod N_SESSIONS) s"
  shows "kept b t w (responder_established t s) w" "kept b t w (initiator_established t s) w"
  using assms unfolding responder_established_def initiator_established_def Let_def
  by (auto intro!: kept_same inv_intros)

lemma handle_init_unfold:
  "handle_handshake_init c t p n w =
     (case receive_handshake_initialization c (handshake t) p n w of
        None \<Rightarrow> None
      | Some (Err e, h, w') \<Rightarrow> Some (Err e, t\<lparr>handshake := h\<rparr>, w')
      | Some (Ok (packet, s), h, w') \<Rightarrow>
          Some (Ok (WriteToNetwork packet), responder_established (t\<lparr>handshake := h\<rparr>) s, w'))"
  by (simp add: handle_handshake_init_def responder_established_def Let_def
      split: option.split result.split prod.split)

lemma handle_resp_unfold:
  "handle_handshake_response c t p n w =
     (case receive_handshake_response c (handshake t) p w of
        None \<Rightarrow> None
      | Some (Err e, h, w') \<Rightarrow> Some (Err e, t\<lparr>handshake := h\<rparr>, w')
      | Some (Ok s, h, w') \<Rightarrow>
          (case format_packet_data c s [] n of None \<Rightarrow> None
           | Some (k, s') \<Rightarrow>
               Some (Ok (WriteToNetwork k), initiator_established (t\<lparr>handshake := h\<rparr>) s', w')))"
  by (simp add: handle_handshake_response_def initiator_established_def Let_def
      split: option.split result.split prod.split)

lemma slot_established:
  assumes "session_ok s" "drop_bit 8 (receiving_index s) = b"
  shows "slot_ok b (local_index s mod N_SESSIONS) s"
  using assms by (simp add: slot_ok_def)

lemma handle_init_total:
  assumes c: "crypto_laws c" and inv: "tunn_inv b t w" and m: "wf_packet (HandshakeInit m)"
  obtains r t' w' where "handle_handshake_init c t m n w = Some (r, t', w')" "kept b t w t' w'"
proof -
  obtain r h w' where f: "receive_handshake_initialization c (handshake t) m n w = Some (r, h, w')"
    by (rule receive_init_total [OF c m])
  have k: "kept b t w (t\<lparr>handshake := h\<rparr>) w'"
    using inv receive_init_world [OF f] index_inv_receive_init(1) [OF f tunn_invD(4) [OF inv]]
      receive_init_effect(1) [OF f] by (rule kept_handshake)
  show ?thesis
  proof (cases r)
    case (Err e)
    then show ?thesis using that f k by (simp add: handle_init_unfold)
  next
    case (Ok ds)
    then obtain d s where r: "r = Ok (d, s)" by (cases ds) simp
    have "slot_ok b (local_index s mod N_SESSIONS) s"
      using receive_init_session index_inv_receive_init(2) [OF f tunn_invD(4) [OF inv] r] f r
      by (blast intro: slot_established)
    then have "kept b t w (responder_established (t\<lparr>handshake := h\<rparr>) s) w'"
      using kept_trans [OF k kept_established(1) [OF keptD(1) [OF k]]] by blast
    then show ?thesis using that f r by (simp add: handle_init_unfold)
  qed
qed

lemma handle_resp_total:
  assumes c: "crypto_laws c" and inv: "tunn_inv b t w" and m: "wf_packet (HandshakeResponse m)"
    and n: "32 \<le> n"
  obtains r t' w' where "handle_handshake_response c t m n w = Some (r, t', w')" "kept b t w t' w'"
proof -
  obtain r h w' where f: "receive_handshake_response c (handshake t) m w = Some (r, h, w')"
    by (rule receive_resp_total [OF c m])
  have k: "kept b t w (t\<lparr>handshake := h\<rparr>) w'"
    using inv receive_resp_world [OF f] index_inv_receive_resp(1) [OF f tunn_invD(4) [OF inv]]
      receive_resp_params [OF f] by (rule kept_handshake)
  show ?thesis
  proof (cases r)
    case (Err e)
    then show ?thesis using that f k by (simp add: handle_resp_unfold)
  next
    case (Ok s)
    obtain p s' where p: "format_packet_data c s [] n = Some (p, s')"
      by (rule format_packet_data_eq [OF c, of "[]" n s]) (use n in auto)
    have s: "slot_ok b (local_index s mod N_SESSIONS) s"
      using receive_resp_session index_inv_receive_resp(2) [OF f tunn_invD(4) [OF inv] Ok] f Ok
      by (blast intro: slot_established)
    note s' = format_packet_slot [OF p s]
    then have "slot_ok b (local_index s' mod N_SESSIONS) s'" by (simp add: slot_ok_def)
    then have "kept b t w (initiator_established (t\<lparr>handshake := h\<rparr>) s') w'"
      using kept_trans [OF k kept_established(2) [OF keptD(1) [OF k]]] by blast
    then show ?thesis using that f Ok p by (simp add: handle_resp_unfold)
  qed
qed

lemma handle_cookie_total:
  assumes inv: "tunn_inv b t w" and m: "wf_packet (PacketCookieReply m)"
  obtains r t' where "handle_cookie_reply c t m = Some (r, t')" "kept b t w t' w"
proof -
  obtain r h where f: "receive_cookie_reply c (handshake t) m = Some (r, h)"
    by (rule receive_cookie_total [OF m])
  have k: "kept b t w (t\<lparr>handshake := h\<rparr>) w"
    by (rule kept_handshake)
      (use inv receive_cookie_keeps [OF f] tunn_invD(4) [OF inv] in auto)
  from k have "kept b t w (timer_tick (timer_tick (t\<lparr>handshake := h\<rparr>) TimeLastPacketReceived)
      TimeCookieReceived) w"
    by (auto simp: kept_def intro: inv_intros)
  with k f show ?thesis
    using that by (cases r) (simp_all add: handle_cookie_reply_def)
qed

lemma validate_cases:
  assumes "validate_decapsulated_packet c t p = (r, t')"
  obtains (keepalive) "p = []" "r = TunnDone" "t' = t"
    | (invalid) "r = TunnErr InvalidPacket" "t' = t"
    | (v4) n where "r = WriteToTunnelV4 (take n p) (slice p 12 16)" "n \<le> length p"
      "n = unat (word_of_be (slice p 2 4) :: u16)" "ip_version p = 4" "20 \<le> length p"
      "t' = (timer_tick t TimeLastDataPacketReceived)\<lparr>rx_bytes := usize c (rx_bytes t + of_nat n)\<rparr>"
    | (v6) n where "r = WriteToTunnelV6 (take n p) (slice p 8 24)" "n \<le> length p"
      "n = unat (word_of_be (slice p 4 6) :: u16) + 40" "ip_version p = 6" "40 \<le> length p"
      "t' = (timer_tick t TimeLastDataPacketReceived)\<lparr>rx_bytes := usize c (rx_bytes t + of_nat n)\<rparr>"
  using assms
  by (auto simp: validate_decapsulated_packet_def Let_def ip_const_defs not_less split: if_splits)

lemma kept_validate:
  assumes "tunn_inv b t w" "validate_decapsulated_packet c t p = (r, t')"
  shows "kept b t w t' w"
  using assms(2)
  by (cases rule: validate_cases) (auto intro!: kept_same inv_intros assms(1))

definition data_received :: "Tunn \<Rightarrow> nat \<Rightarrow> Session \<Rightarrow> Tunn" where
  "data_received t r_idx s =
     timer_tick (set_current_session (t\<lparr>sessions := (sessions t)[r_idx mod N_SESSIONS := Some s]\<rparr>) r_idx)
       TimeLastPacketReceived"

lemma data_received_fields [simp]:
  "sessions (data_received t i s) = (sessions t)[i mod N_SESSIONS := Some s]"
  "packet_queue (data_received t i s) = packet_queue t" "handshake (data_received t i s) = handshake t"
  "rate_limiter (data_received t i s) = rate_limiter t"
  "time_started (timers (data_received t i s)) = time_started (timers t)"
  by (simp_all add: data_received_def)

lemma handle_data_unfold:
  "handle_data c t p n =
     (let i = unat (pd_receiver_idx p)
      in case sessions t ! (i mod N_SESSIONS) of
           None \<Rightarrow> Some (Err NoCurrentSession, t)
         | Some s \<Rightarrow>
           (case receive_packet_data c s p n of
              None \<Rightarrow> None
            | Some (Err e, s') \<Rightarrow> Some (Err e, t\<lparr>sessions := (sessions t)[i mod N_SESSIONS := Some s']\<rparr>)
            | Some (Ok d, s') \<Rightarrow>
                Some (Ok (fst (validate_decapsulated_packet c (data_received t i s') d)),
                      snd (validate_decapsulated_packet c (data_received t i s') d))))"
  by (simp add: handle_data_def data_received_def Let_def split: option.split result.split prod.split)

lemma handle_data_total:
  assumes c: "crypto_laws c" and inv: "tunn_inv b t w"
    and n: "length (pd_encrypted_encapsulated_packet p) \<le> n"
  obtains r t' where "handle_data c t p n = Some (r, t')" "kept b t w t' w"
proof -
  define i where "i = unat (pd_receiver_idx p)"
  show ?thesis
  proof (cases "sessions t ! (i mod N_SESSIONS)")
    case None
    show ?thesis
      by (rule that [OF _ kept_same [OF inv refl refl]])
        (use None in \<open>simp add: handle_data_unfold Let_def i_def\<close>)
  next
    case (Some s)
    have s: "slot_ok b (i mod N_SESSIONS) s" by (rule current_slot [OF inv Some])
    then have "session_ok s" by (simp add: slot_ok_def)
    then obtain r s' where r: "receive_packet_data c s p n = Some (r, s')"
      and "session_ok s'" "receiving_index s' = receiving_index s"
      by (rule receive_packet_data_total [OF c _ n])
    with s have s': "slot_ok b (i mod N_SESSIONS) s'" by (simp add: slot_ok_def local_index_def)
    have k1: "kept b t w (t\<lparr>sessions := (sessions t)[i mod N_SESSIONS := Some s']\<rparr>) w"
      using inv s' by (auto intro!: kept_same inv_intros)
    have k2: "kept b t w (data_received t i s') w"
      unfolding data_received_def using keptD(1) [OF k1] by (auto intro!: kept_same inv_intros)
    show ?thesis
    proof (cases r)
      case (Ok d)
      obtain res t3 where v: "validate_decapsulated_packet c (data_received t i s') d = (res, t3)" by force
      show ?thesis
        by (rule that [OF _ kept_trans [OF k2 kept_validate [OF keptD(1) [OF k2] v]]])
          (use Some r in \<open>simp add: handle_data_unfold Let_def i_def [symmetric] Ok v\<close>)
    next
      case (Err e)
      show ?thesis
        by (rule that [OF _ k1]) (use Some r in \<open>simp add: handle_data_unfold Let_def i_def [symmetric] Err\<close>)
    qed
  qed
qed

lemma handle_verified_total:
  assumes c: "crypto_laws c" and inv: "tunn_inv b t w" and m: "wf_packet m" and n: "32 \<le> n"
    and d: "\<And>p. m = PacketData p \<Longrightarrow> length (pd_encrypted_encapsulated_packet p) \<le> n"
  obtains r t' w' where "handle_verified_packet c t m n w = Some (r, t', w')" "kept b t w t' w'"
proof (cases m)
  case (HandshakeInit p)
  obtain r t' w' where "handle_handshake_init c t p n w = Some (r, t', w')" "kept b t w t' w'"
    by (rule handle_init_total [OF c inv m [unfolded HandshakeInit]])
  with HandshakeInit that show ?thesis by simp
next
  case (HandshakeResponse p)
  obtain r t' w' where "handle_handshake_response c t p n w = Some (r, t', w')" "kept b t w t' w'"
    by (rule handle_resp_total [OF c inv m [unfolded HandshakeResponse] n])
  with HandshakeResponse that show ?thesis by simp
next
  case (PacketCookieReply p)
  obtain r t' where "handle_cookie_reply c t p = Some (r, t')" "kept b t w t' w"
    by (rule handle_cookie_total [OF inv m [unfolded PacketCookieReply]])
  with PacketCookieReply that show ?thesis by simp
next
  case (PacketData p)
  obtain r t' where "handle_data c t p n = Some (r, t')" "kept b t w t' w"
    by (rule handle_data_total [OF c inv d [OF PacketData]])
  with PacketData that show ?thesis by simp
qed

lemma limiter_verify_cases:
  assumes c: "crypto_laws c"
    and v: "limiter_verify_packet c r a d n w = (res, w')"
  obtains (ok) p where "res = Ok p" "parse_incoming_packet d = Ok p" "tw_le w w'"
    | (cookie) reply where "res = Err (WriteToNetwork reply)" "length reply = 64" "tw_le w w'"
    | (err) e where "res = Err (TunnErr e)" "tw_le w w'"
proof -
  obtain rl w1 where v1: "verify_packet c (limiters w ! r) a d n w = (res, rl, w1)"
    and w': "w' = w1\<lparr>limiters := (limiters w1)[r := rl]\<rparr>"
    using v by (auto simp: limiter_verify_packet_def Let_def split: prod.splits)
  have "w1 = w \<or> w1 = snd (Instant_now w)"
    using v1 unfolding verify_packet_unfold
    by (auto split: result.splits option.splits if_splits prod.splits)
  then have le: "tw_le w w'" by (auto simp: w' tw_le_def world_le_def Instant_now_def)
  have reply: "length reply = 64"
    if "format_cookie_reply c rl0 i (epoch_cookie c rl1 ad k) m1 n = (Ok reply, rl')"
    for reply rl0 i rl1 ad k m1 rl'
    using that xchacha_laws [OF c]
    by (auto simp: format_cookie_reply_def nonce_def Let_def epoch_cookie_def crypto_len [OF c]
        split: prod.splits if_splits)
  show ?thesis
    using v1 ok cookie err le reply unfolding verify_packet_unfold
    by (auto split: result.splits option.splits if_splits prod.splits)
qed

lemma decapsulate_total:
  assumes c: "crypto_laws c" and inv: "tunn_inv b t w" and n: "64 \<le> n" "length d \<le> n"
    and q: "d = [] \<Longrightarrow> head_fits n t"
  obtains r t' w' where "decapsulate c t a d n w = Some (r, t', w')" "kept b t w t' w'"
proof (cases "d = []")
  case True
  then show ?thesis using send_queued_total [OF c inv q [OF True]] that by (auto simp: decapsulate_def)
next
  case False
  obtain res w1 where v: "limiter_verify_packet c (rate_limiter t) a d COOKIE_REPLY_SZ w = (res, w1)"
    by force
  have k: "kept b t w t w1" if "tw_le w w1" using inv_mono [OF inv that] that by (simp add: kept_def)
  from c v show ?thesis
  proof (cases rule: limiter_verify_cases)
    case (ok p)
    have wf: "wf_packet p" by (rule wf_parsed [OF ok(2)])
    have l: "length (pd_encrypted_encapsulated_packet x) \<le> n" if "p = PacketData x" for x
      using ok(2) that n by (auto simp: parse_incoming_packet_def Let_def split: if_splits)
    obtain r t' w' where "handle_verified_packet c t p n w1 = Some (r, t', w')" "kept b t w1 t' w'"
      by (rule handle_verified_total [OF c keptD(1) [OF k [OF ok(3)]] wf, of n]) (use n l in auto)
    with False v ok that kept_trans [OF k [OF ok(3)]] show ?thesis by (simp add: decapsulate_def)
  next
    case (cookie reply)
    with False v n that k show ?thesis by (simp add: decapsulate_def)
  next
    case (err e)
    with False v that k show ?thesis by (simp add: decapsulate_def)
  qed
qed

section \<open>Timers\<close>

lemma expire_sessions_eq:
  assumes "length sts = length ss" "\<forall>st \<in> set sts. st \<le> now"
  shows "expire_sessions now sts ss =
    Some (map (\<lambda>st. if REJECT_AFTER_TIME < now - st then now else st) sts,
          map2 (\<lambda>st s. if REJECT_AFTER_TIME < now - st then None else s) sts ss)"
  using assms by (induction sts ss rule: list_induct2) simp_all

definition sessions_aged :: "Tunn \<Rightarrow> duration \<Rightarrow> Tunn" where
  "sessions_aged t now =
     t\<lparr>timers := (timers t)\<lparr>session_timers :=
         map (\<lambda>st. if REJECT_AFTER_TIME < now - st then now else st) (session_timers (timers t))\<rparr>,
       sessions := map2 (\<lambda>st s. if REJECT_AFTER_TIME < now - st then None else s)
         (session_timers (timers t)) (sessions t)\<rparr>"

lemma sessions_aged_fields [simp]:
  "handshake (sessions_aged t now) = handshake t" "packet_queue (sessions_aged t now) = packet_queue t"
  "current (sessions_aged t now) = current t" "rate_limiter (sessions_aged t now) = rate_limiter t"
  "timer_values (timers (sessions_aged t now)) = timer_values (timers t)"
  "time_started (timers (sessions_aged t now)) = time_started (timers t)"
  "timer_get (timers (sessions_aged t now)) n = timer_get (timers t) n"
  by (simp_all add: sessions_aged_def timer_get_def)

text \<open>All times a tunnel has recorded are at or before \<open>now\<close>.\<close>

definition times_upto :: "Tunn \<Rightarrow> duration \<Rightarrow> bool" where
  "times_upto t now \<longleftrightarrow>
     (\<forall>d \<in> set (timer_values (timers t)) \<union> set (session_timers (timers t)). d \<le> now)"

lemma times_upto_get:
  assumes "times_upto t now" "shape_ok t"
  shows "timer_get (timers t) n \<le> now"
  using assms timer_index_bound [of n] nth_mem [of "timer_index n" "timer_values (timers t)"]
  by (auto simp: times_upto_def timer_get_def shape_ok_def)

lemma update_session_timers_eq:
  assumes "shape_ok t" "times_upto t now"
  shows "update_session_timers t now = Some (sessions_aged t now)"
  using assms
  by (simp add: update_session_timers_def shape_ok_def times_upto_def expire_sessions_eq sessions_aged_def)

lemma aged_upto: "times_upto t now \<Longrightarrow> times_upto (sessions_aged t now) now"
  by (auto simp: times_upto_def sessions_aged_def)

lemma kept_aged:
  assumes inv: "tunn_inv b t w" and now: "now \<le> since (time_started (timers t)) w"
  shows "kept b t w (sessions_aged t now) w"
proof (rule kept_same)
  have "sessions_ok b (sessions (sessions_aged t now))"
    using tunn_invD(1,3) [OF inv]
    by (auto simp: sessions_ok_def sessions_aged_def shape_ok_def split: if_splits)
  moreover have "times_ok (timers (sessions_aged t now)) w"
    using tunn_invD(2) [OF inv] now by (auto simp: times_ok_def sessions_aged_def)
  ultimately show "tunn_inv b (sessions_aged t now) w"
    using inv by (auto simp: tunn_inv_def shape_ok_def sessions_aged_def)
qed simp_all

text \<open>The conditions of the timer events, as predicates on the recorded times.\<close>

definition silent :: "Timers \<Rightarrow> duration \<Rightarrow> bool" where
  "silent ts now \<longleftrightarrow>
     timer_get ts TimeLastPacketReceived < timer_get ts TimeLastDataPacketSent \<and>
     KEEPALIVE_TIMEOUT + REKEY_TIMEOUT \<le> now - timer_get ts TimeLastPacketReceived"

definition rekey_due :: "Timers \<Rightarrow> duration \<Rightarrow> bool" where
  "rekey_due ts now \<longleftrightarrow>
     (is_initiator ts \<and> timer_get ts TimeSessionEstablished < timer_get ts TimeLastDataPacketSent \<and>
        REKEY_AFTER_TIME \<le> now - timer_get ts TimeSessionEstablished) \<or>
     (is_initiator ts \<and> timer_get ts TimeSessionEstablished < timer_get ts TimeLastDataPacketReceived \<and>
        REJECT_AFTER_TIME - KEEPALIVE_TIMEOUT - REKEY_TIMEOUT
          \<le> now - timer_get ts TimeSessionEstablished) \<or>
     (silent ts now \<and> want_handshake ts)"

definition quiet :: "Timers \<Rightarrow> duration \<Rightarrow> bool" where
  "quiet ts now \<longleftrightarrow>
     timer_get ts TimeLastPacketSent < timer_get ts TimeLastDataPacketReceived \<and>
     KEEPALIVE_TIMEOUT \<le> now - timer_get ts TimeLastPacketSent"

definition persistent_due :: "Timers \<Rightarrow> duration \<Rightarrow> bool" where
  "persistent_due ts now \<longleftrightarrow>
     0 < persistent_keepalive_secs ts \<and>
     from_secs (unat (persistent_keepalive_secs ts)) \<le> now - timer_get ts TimePersistentKeepalive"

definition note_silent :: "Timers \<Rightarrow> duration \<Rightarrow> Timers" where
  "note_silent ts now = (if silent ts now then ts\<lparr>want_handshake := False\<rparr> else ts)"

definition note_quiet :: "Timers \<Rightarrow> duration \<Rightarrow> Timers" where
  "note_quiet ts now = (if quiet ts now then ts\<lparr>want_keepalive := False\<rparr> else ts)"

lemma note_fields [simp]:
  "timer_values (note_silent ts now) = timer_values ts" "timer_values (note_quiet ts now) = timer_values ts"
  "session_timers (note_silent ts now) = session_timers ts" "session_timers (note_quiet ts now) = session_timers ts"
  "time_started (note_silent ts now) = time_started ts" "time_started (note_quiet ts now) = time_started ts"
  "persistent_keepalive_secs (note_silent ts now) = persistent_keepalive_secs ts"
  "persistent_keepalive_secs (note_quiet ts now) = persistent_keepalive_secs ts"
  "want_keepalive (note_silent ts now) = want_keepalive ts"
  "timer_get (note_silent ts now) n = timer_get ts n" "timer_get (note_quiet ts now) n = timer_get ts n"
  "quiet (note_silent ts now) now' = quiet ts now'"
  "persistent_due (note_silent ts now) now' = persistent_due ts now'"
  "persistent_due (note_quiet ts now) now' = persistent_due ts now'"
  by (simp_all add: note_silent_def note_quiet_def timer_get_def quiet_def persistent_due_def)

lemma rekey_margin:
  "checked_sub REJECT_AFTER_TIME KEEPALIVE_TIMEOUT = Some (REJECT_AFTER_TIME - KEEPALIVE_TIMEOUT)"
  "checked_sub (REJECT_AFTER_TIME - KEEPALIVE_TIMEOUT) REKEY_TIMEOUT
     = Some (REJECT_AFTER_TIME - KEEPALIVE_TIMEOUT - REKEY_TIMEOUT)"
  by (simp_all add: REJECT_AFTER_TIME_def KEEPALIVE_TIMEOUT_def REKEY_TIMEOUT_def
      from_mins_def from_secs_def Duration_new_def NANOS_PER_SEC_def)

lemma timer_get_flags [simp]:
  "timer_get (ts\<lparr>want_keepalive := a\<rparr>) n = timer_get ts n"
  "timer_get (ts\<lparr>want_handshake := a\<rparr>) n = timer_get ts n"
  by (simp_all add: timer_get_def)

lemma rekey_check_eq:
  assumes "times_upto t now" "shape_ok t"
  shows "rekey_check t now =
    Some (rekey_due (timers t) now, t\<lparr>timers := note_silent (timers t) now\<rparr>)"
proof -
  note le = times_upto_get [OF assms]
  show ?thesis
    by (auto simp: rekey_check_def Let_def le rekey_margin rekey_due_def silent_def note_silent_def)
qed

lemma keepalive_check_eq:
  assumes "times_upto t now" "shape_ok t"
  shows "keepalive_check t now =
    Some (quiet (timers t) now \<and> want_keepalive (timers t) \<or> persistent_due (timers t) now,
      let t = t\<lparr>timers := note_quiet (timers t) now\<rparr>
      in if persistent_due (timers t) now then timer_tick t TimePersistentKeepalive else t)"
proof -
  note le = times_upto_get [OF assms]
  show ?thesis
    by (auto simp: keepalive_check_def Let_def le quiet_def persistent_due_def note_quiet_def)
qed

lemma kept_note:
  assumes "tunn_inv b t w"
  shows "kept b t w (t\<lparr>timers := note_silent (timers t) now\<rparr>) w"
    "kept b t w (t\<lparr>timers := note_quiet (timers t) now\<rparr>) w"
  using assms by (auto simp: kept_def tunn_inv_def shape_ok_def times_ok_def)

lemma idle_timers_total:
  assumes inv: "tunn_inv b t w" and u: "times_upto t now"
  obtains hs ka t' where "idle_timers t now = Some (hs, ka, t')" "kept b t w t' w"
    "hs \<longleftrightarrow> rekey_due (timers t) now"
    "ka \<longleftrightarrow> \<not> hs \<and> (quiet (timers t) now \<and> want_keepalive (timers t) \<or> persistent_due (timers t) now)"
    "handshake t' = handshake t" "sessions t' = sessions t" "packet_queue t' = packet_queue t"
    "current t' = current t"
proof -
  define t1 where "t1 = t\<lparr>timers := note_silent (timers t) now\<rparr>"
  define t2 where "t2 = t1\<lparr>timers := note_quiet (timers t1) now\<rparr>"
  define t3 where "t3 = (if persistent_due (timers t2) now then timer_tick t2 TimePersistentKeepalive else t2)"
  have k1: "kept b t w t1 w" unfolding t1_def by (rule kept_note(1) [OF inv])
  have k2: "kept b t w t2 w" unfolding t2_def by (rule kept_trans [OF k1 kept_note(2) [OF keptD(1) [OF k1]]])
  have k3: "kept b t w t3 w"
    using k2 inv_tick [OF keptD(1) [OF k2]] by (simp add: t3_def kept_def)
  have u1: "times_upto t1 now" "shape_ok t1"
    using u tunn_invD(1) [OF keptD(1) [OF k1]] by (auto simp: t1_def times_upto_def)
  note e = rekey_check_eq [OF u tunn_invD(1) [OF inv], folded t1_def]
    keepalive_check_eq [OF u1, unfolded Let_def, folded t2_def, folded t3_def]
  have f: "handshake t1 = handshake t" "sessions t1 = sessions t" "packet_queue t1 = packet_queue t"
    "current t1 = current t" "handshake t3 = handshake t" "sessions t3 = sessions t"
    "packet_queue t3 = packet_queue t" "current t3 = current t"
    by (simp_all add: t1_def t2_def t3_def)
  have fl: "quiet (timers t1) now = quiet (timers t) now" "want_keepalive (timers t1) = want_keepalive (timers t)"
    "persistent_due (timers t1) now = persistent_due (timers t) now"
    by (simp_all add: t1_def)
  show ?thesis
  proof (cases "rekey_due (timers t) now")
    case True
    show ?thesis by (rule that [of True False t1]) (simp_all add: idle_timers_def e True k1 f)
  next
    case False
    show ?thesis
      by (rule that [of False "quiet (timers t) now \<and> want_keepalive (timers t) \<or>
          persistent_due (timers t) now" t3]) (simp_all add: idle_timers_def e False f fl k3)
  qed
qed

text \<open>
  The tunnel and the environment after the first part of \<^verbatim>\<open>update_timers\<close>: the clock was read, the
  limiter's counter possibly reset, and the sessions aged.
\<close>

definition timers_now :: "Tunn \<Rightarrow> tunn_world \<Rightarrow> duration" where
  "timers_now t w = since (time_started (timers t)) w"

definition timers_world :: "Tunn \<Rightarrow> tunn_world \<Rightarrow> tunn_world" where
  "timers_world t w =
     (let w = snd (Instant_now w)
      in if should_reset_rr (timers t) then limiter_reset_count (rate_limiter t) w else w)"

definition timers_tunn :: "Tunn \<Rightarrow> tunn_world \<Rightarrow> Tunn" where
  "timers_tunn t w =
     sessions_aged (t\<lparr>timers := timer_set (timers t) TimeCurrent (timers_now t w)\<rparr>) (timers_now t w)"

definition drop_old_cookie :: "Tunn \<Rightarrow> duration \<Rightarrow> Tunn" where
  "drop_old_cookie t now =
     (if has_cookie (handshake t) \<and> COOKIE_EXPIRATION_TIME \<le> now - timer_get (timers t) TimeCookieReceived
      then t\<lparr>handshake := clear_cookie (handshake t)\<rparr> else t)"

lemma clear_cookie_fields [simp]:
  "params (clear_cookie h) = params h" "hs_state (clear_cookie h) = hs_state h"
  "previous (clear_cookie h) = previous h" "next_index (clear_cookie h) = next_index h"
  "timer (clear_cookie h) = timer h" "index_inv b (clear_cookie h) = index_inv b h"
  by (simp_all add: clear_cookie_def timer_def index_inv_def)

lemma drop_old_cookie_fields [simp]:
  "timers (drop_old_cookie t now) = timers t" "sessions (drop_old_cookie t now) = sessions t"
  "packet_queue (drop_old_cookie t now) = packet_queue t" "current (drop_old_cookie t now) = current t"
  "timer (handshake (drop_old_cookie t now)) = timer (handshake t)"
  "rate_limiter (drop_old_cookie t now) = rate_limiter t"
  by (simp_all add: drop_old_cookie_def)

lemma kept_cookie: "tunn_inv b t w \<Longrightarrow> kept b t w (drop_old_cookie t now) w"
  by (auto simp: kept_def drop_old_cookie_def tunn_inv_def shape_ok_def)

lemma tw_le_reset: "tw_le w (limiter_reset_count r w)"
  by (auto simp: limiter_reset_count_def reset_count_def Let_def tw_le_def world_le_def Instant_now_def)

lemma timers_world_le: "tw_le w (timers_world t w)"
  using tw_le_trans [OF tw_le_now tw_le_reset] by (simp add: timers_world_def Let_def)

lemma timers_upto:
  assumes "tunn_inv b t w"
  shows "times_upto (timers_tunn t w) (timers_now t w)"
proof -
  have "times_upto (t\<lparr>timers := timer_set (timers t) TimeCurrent (timers_now t w)\<rparr>) (timers_now t w)"
    using tunn_invD(2) [OF assms] set_update_subset_insert [of "timer_values (timers t)" 0 "timers_now t w"]
    by (auto simp: times_upto_def timer_set_def times_ok_def timers_now_def)
  then show ?thesis unfolding timers_tunn_def by (rule aged_upto)
qed

lemma kept_timers:
  assumes inv: "tunn_inv b t w"
  shows "kept b t w (timers_tunn t w) (timers_world t w)"
proof -
  define u where "u = t\<lparr>timers := timer_set (timers t) TimeCurrent (timers_now t w)\<rparr>"
  have st: "time_started (timers u) = time_started (timers t)" by (simp add: u_def timer_set_def)
  have iu: "tunn_inv b u w"
    using inv times_ok_set [OF tunn_invD(2) [OF inv], of "timers_now t w" TimeCurrent]
    by (simp add: u_def timers_now_def tunn_inv_def shape_ok_def timer_set_def)
  have "kept b u w (sessions_aged u (timers_now t w)) w"
    by (rule kept_aged [OF iu]) (simp add: timers_now_def st)
  then show ?thesis
    using st timers_world_le [of w t] inv_mono
    by (auto simp: kept_def timers_tunn_def u_def)
qed

lemma update_timers_unfold:
  assumes inv: "tunn_inv b t w"
  defines "now \<equiv> timers_now t w" and "t1 \<equiv> timers_tunn t w" and "w1 \<equiv> timers_world t w"
  defines "t2 \<equiv> drop_old_cookie t1 now"
  shows "update_timers c t n w =
    (if is_expired (handshake t) then Some (TunnErr ConnectionExpired, t1, w1)
     else if REJECT_AFTER_TIME * 3 \<le> now - timer_get (timers t1) TimeSessionEstablished
       then Some (expire_tunnel t2 w1)
     else case timer (handshake t) of
       Some sent \<Rightarrow>
         if REKEY_ATTEMPT_TIME \<le> now - timer_get (timers t1) TimeLastHandshakeStarted
         then Some (expire_tunnel t2 w1)
         else if REKEY_TIMEOUT \<le> since sent w1
         then Tunn_format_handshake_initiation c t2 n True (snd (Instant_now w1))
         else Some (TunnDone, t2, snd (Instant_now w1))
     | None \<Rightarrow> (case idle_timers t2 now of
         None \<Rightarrow> None
       | Some (hs, ka, t3) \<Rightarrow>
           if hs then Tunn_format_handshake_initiation c t3 n True w1
           else if ka then encapsulate c t3 [] n w1
           else Some (TunnDone, t3, w1)))"
proof -
  have u: "times_upto t1 now" unfolding t1_def now_def by (rule timers_upto [OF inv])
  have s: "shape_ok t1" using tunn_invD(1) [OF keptD(1) [OF kept_timers [OF inv]]] by (simp add: t1_def)
  note le = times_upto_get [OF u s]
  have h: "handshake t1 = handshake t" by (simp add: t1_def timers_tunn_def)
  define t0 where "t0 = t\<lparr>timers := timer_set (timers t) TimeCurrent now\<rparr>"
  have "times_upto t0 now"
    using tunn_invD(2) [OF inv] set_update_subset_insert [of "timer_values (timers t)" 0 now]
    by (auto simp: t0_def times_upto_def timer_set_def times_ok_def now_def timers_now_def)
  moreover have "shape_ok t0" using tunn_invD(1) [OF inv] by (simp add: t0_def shape_ok_def timer_set_def)
  ultimately have us: "update_session_timers t0 now = Some t1"
    by (simp add: update_session_timers_eq t1_def timers_tunn_def t0_def now_def)
  have now: "duration_since (fst (Instant_now w)) (time_started (timers t)) = now"
    by (simp add: now_def timers_now_def since_def Instant_now_def)
  have cookie: "(if c' then t1\<lparr>handshake := clear_cookie (handshake t1)\<rparr> else t1) = t2"
    if "c' \<longleftrightarrow> has_cookie (handshake t1) \<and> COOKIE_EXPIRATION_TIME \<le> now - timer_get (timers t1) TimeCookieReceived"
    for c' using that by (simp add: t2_def drop_old_cookie_def)
  have w1: "(if should_reset_rr (timers t) then limiter_reset_count (rate_limiter t) (snd (Instant_now w))
      else snd (Instant_now w)) = w1"
    by (simp add: w1_def timers_world_def Let_def)
  have ck: "(if has_cookie (handshake t)
       then do { d \<leftarrow> checked_sub now (timer_get (timers t1) TimeCookieReceived); Some (COOKIE_EXPIRATION_TIME \<le> d) }
       else Some False)
     = Some (has_cookie (handshake t1) \<and> COOKIE_EXPIRATION_TIME \<le> now - timer_get (timers t1) TimeCookieReceived)"
    by (simp add: le h)
  have el: "Instant_elapsed sent w1 = (since sent w1, snd (Instant_now w1))" for sent
    by (simp add: Instant_elapsed_def since_def Instant_now_def Let_def)
  have tm: "timer (handshake t2) = timer (handshake t)" by (simp add: t2_def h)
  show ?thesis
    unfolding update_timers_def Let_def split_beta now w1 t0_def [symmetric] us Option.bind_lunit h ck
      cookie [OF refl, unfolded h] tm
    by (simp add: le tm el bind_split split: option.split)
qed

lemma kept_expire:
  assumes inv: "tunn_inv b t w" and e: "expire_tunnel t w = (r, t', w')"
  shows "kept b t w t' w'"
proof -
  obtain ts w1 where c: "Timers_clear (timers t) w = (ts, w1)" by force
  have k: "kept b t w (t\<lparr>timers := ts\<rparr>) w1" by (rule kept_clear [OF inv c])
  have t': "t' = (t\<lparr>timers := ts\<rparr>)\<lparr>handshake := set_expired (handshake t),
      sessions := map (\<lambda>_. None) (sessions t), packet_queue := []\<rparr>" "w' = w1"
    using e c by (auto simp: expire_tunnel_def clear_all_def Let_def)
  show ?thesis
    using k unfolding t' by (auto simp: kept_def tunn_inv_def shape_ok_def index_inv_def set_expired_def)
qed

lemma update_timers_total:
  assumes c: "crypto_laws c" and inv: "tunn_inv b t w" and n: "32 \<le> n"
  obtains r t' w' where "update_timers c t n w = Some (r, t', w')" "kept b t w t' w'"
proof -
  define now where "now = timers_now t w"
  define t1 where "t1 = timers_tunn t w"
  define w1 where "w1 = timers_world t w"
  define t2 where "t2 = drop_old_cookie t1 now"
  note unf = update_timers_unfold [OF inv, of c n, folded now_def t1_def w1_def, folded t2_def]
  have k1: "kept b t w t1 w1" unfolding t1_def w1_def by (rule kept_timers [OF inv])
  have k2: "kept b t w t2 w1" unfolding t2_def by (rule kept_trans [OF k1 kept_cookie [OF keptD(1) [OF k1]]])
  have k3: "kept b t w t2 (snd (Instant_now w1))"
    using k2 inv_mono [OF keptD(1) [OF k2] tw_le_now] tw_le_trans [OF keptD(2) [OF k2] tw_le_now]
    by (simp add: kept_def)
  have u2: "times_upto t2 now"
    using timers_upto [OF inv] by (simp add: t2_def t1_def now_def times_upto_def)
  obtain rx tx wx where ex: "expire_tunnel t2 w1 = (rx, tx, wx)" by (cases "expire_tunnel t2 w1") auto
  have kx: "kept b t w tx wx" by (rule kept_trans [OF k2 kept_expire [OF keptD(1) [OF k2] ex]])
  obtain hs ka t3 where i: "idle_timers t2 now = Some (hs, ka, t3)" and k4: "kept b t2 w1 t3 w1"
    by (rule idle_timers_total [OF keptD(1) [OF k2] u2])
  have k5: "kept b t w t3 w1" by (rule kept_trans [OF k2 k4])
  obtain ra ta wa where a: "Tunn_format_handshake_initiation c t2 n True (snd (Instant_now w1)) = Some (ra, ta, wa)"
    "kept b t2 (snd (Instant_now w1)) ta wa"
    by (rule Tunn_format_init_total [OF c keptD(1) [OF k3]])
  obtain rb tb wb where f: "Tunn_format_handshake_initiation c t3 n True w1 = Some (rb, tb, wb)"
    "kept b t3 w1 tb wb"
    by (rule Tunn_format_init_total [OF c keptD(1) [OF k5]])
  obtain rc tc wc where e: "encapsulate c t3 [] n w1 = Some (rc, tc, wc)" "kept b t3 w1 tc wc"
    by (rule encapsulate_total [OF c keptD(1) [OF k5], of "[]" n]) (use n in auto)
  have "\<exists>r t' w'. update_timers c t n w = Some (r, t', w') \<and> kept b t w t' w'"
    using k1 k3 k5 kx ex kept_trans [OF k3 a(2)] kept_trans [OF k5 f(2)] kept_trans [OF k5 e(2)]
    unfolding unf i by (auto simp: a(1) f(1) e(1) split: option.split)
  then show ?thesis using that by blast
qed

lemma time_since_last_total:
  assumes inv: "tunn_inv b t w"
  obtains r w' where "time_since_last_handshake t w = Some (r, w')" "tw_le w w'"
proof (cases "sessions t ! (current t mod N_SESSIONS)")
  case None
  then show ?thesis using that by (simp add: time_since_last_handshake_def)
next
  case (Some s)
  have "timer_get (timers t) TimeSessionEstablished
      \<le> duration_since (fst (Instant_now w)) (time_started (timers t))"
    using timer_get_bound [OF tunn_invD(2,1) [OF inv]] by (simp add: since_def Instant_now_def)
  then show ?thesis
    using that Some tw_le_now [of w] by (auto simp: time_since_last_handshake_def split_beta Let_def)
qed

section \<open>Construction\<close>

lemma Handshake_new_world:
  "Handshake_new c sk pk peer idx psk w = Some (h, w') \<Longrightarrow> tw_le w w'"
  by (auto simp: Handshake_new_def TimeStamper_new_def SystemTime_since_epoch_def Instant_now_def Let_def
      tw_le_def world_le_def bind_eq_Some_conv split: if_splits)

lemma RateLimiter_new_world: "RateLimiter_new c pk l w = (rl, w') \<Longrightarrow> tw_le w w'"
  by (auto simp: RateLimiter_new_def OsRng_bytes_def Instant_now_def Let_def tw_le_def world_le_def)

lemma tw_le_Arc: "tw_le w (snd (Arc_new rl w))" "fst (Arc_new rl w) < length (limiters (snd (Arc_new rl w)))"
  by (simp_all add: Arc_new_def tw_le_def world_le_def)

lemma Tunn_new_fields:
  assumes "Tunn_new c sk peer psk ka index lim w = Some (t, w')"
  shows "packet_queue t = [] \<and> sessions t = replicate N_SESSIONS None"
proof -
  obtain h w1 where h: "Handshake_new c sk (x25519_public c sk) peer (push_bit 8 index) psk w = Some (h, w1)"
    using assms by (auto simp: Tunn_new_def Let_def bind_eq_Some_conv)
  then show ?thesis using assms by (auto simp: Tunn_new_def Let_def split: prod.splits)
qed

lemmas Tunn_new_queue = Tunn_new_fields [THEN conjunct1]
  and Tunn_new_sessions = Tunn_new_fields [THEN conjunct2]

lemma drop_push_index: "drop_bit 8 (push_bit 8 index :: u32) = index AND mask 24"
  by (rule bit_word_eqI) (auto simp: bit_simps)

lemma Tunn_new_inv:
  assumes c: "crypto_laws c" and n: "Tunn_new c sk peer psk ka index lim w = Some (t, w')"
    and m: "monotone_clock w" and l: "\<And>r. lim = Some r \<Longrightarrow> r < length (limiters w)"
  shows "tunn_inv (index AND mask 24) t w'" "tw_le w w'"
proof -
  obtain h w1 where h: "Handshake_new c sk (x25519_public c sk) peer (push_bit 8 index) psk w = Some (h, w1)"
    using n by (auto simp: Tunn_new_def Let_def bind_eq_Some_conv)
  define ts where "ts = fst (Timers_new ka (lim = None) w1)"
  define w2 where "w2 = snd (Timers_new ka (lim = None) w1)"
  define rw where "rw = (case lim of Some r \<Rightarrow> (r, w2)
    | None \<Rightarrow> let (rl, w) = RateLimiter_new c (x25519_public c sk) PEER_HANDSHAKE_RATE_LIMIT w2 in Arc_new rl w)"
  have t: "t = \<lparr>handshake = h, sessions = replicate N_SESSIONS None, current = 0, packet_queue = [],
            timers = ts, tx_bytes = 0, rx_bytes = 0, rate_limiter = fst rw\<rparr>" "w' = snd rw"
    using n h by (auto simp: Tunn_new_def ts_def w2_def rw_def Let_def split_beta split: option.splits)
  have le1: "tw_le w w1" by (rule Handshake_new_world [OF h])
  have le2: "tw_le w1 w2" by (simp add: w2_def Timers_new_def Let_def split_beta)
  have le3: "tw_le w2 w' \<and> fst rw < length (limiters w')"
  proof (cases lim)
    case None
    then show ?thesis using RateLimiter_new_world tw_le_Arc tw_le_trans
      unfolding t(2) rw_def by (auto simp: Let_def split: prod.splits) (metis fst_conv snd_conv)+
  next
    case (Some r)
    then show ?thesis using l [OF Some] le1 le2 by (simp add: t(2) rw_def tw_le_def)
  qed
  show le: "tw_le w w'" using le1 le2 le3 tw_le_trans by blast
  have "monotone_clock w'" using m le monotone_clock_le by (auto simp: tw_le_def)
  moreover have "params h = NoiseParams_new c sk (x25519_public c sk) peer psk"
    using h by (auto simp: Handshake_new_def bind_eq_Some_conv)
  moreover have "wf_instant (time_started ts)"
    using m le1 by (simp add: ts_def Timers_new_def Let_def split_beta Instant_now_def monotone_clock_def
        tw_le_def world_le_def)
  ultimately show "tunn_inv (index AND mask 24) t w'"
    using index_inv_new [OF h] le3
    by (auto simp: tunn_inv_def t(1) shape_ok_def times_ok_def drop_push_index NoiseParams_new_def
        crypto_len [OF c] ts_def Timers_new_def Let_def split_beta)
qed

end
