(* ===== verification/TunnProperties.thy ===== *)
theory TunnProperties
  imports TunnInvariant
begin

text \<open>
  What a tunnel guarantees to its caller: it never panics on any sequence of calls with large
  enough buffers, a datagram that ends in an error leaves it as it was but in two cases, old keys are
  dropped, which decrypted bytes are forwarded, and what asking for a queued packet does while there is no
  session.
\<close>

section \<open>Sequences of calls\<close>

datatype tunn_event =
    call_encapsulate bytes
  | call_decapsulate "ip_addr option" bytes
  | call_update_timers

fun tunn_call ::
  "crypto \<Rightarrow> nat \<Rightarrow> tunn_event \<Rightarrow> Tunn \<Rightarrow> tunn_world \<Rightarrow> (TunnResult \<times> Tunn \<times> tunn_world) panics" where
  "tunn_call c n (call_encapsulate src) t w = encapsulate c t src n w"
| "tunn_call c n (call_decapsulate a d) t w = decapsulate c t a d n w"
| "tunn_call c n call_update_timers t w = update_timers c t n w"

fun tunn_calls ::
  "crypto \<Rightarrow> nat \<Rightarrow> tunn_event list \<Rightarrow> Tunn \<Rightarrow> tunn_world \<Rightarrow> (TunnResult list \<times> Tunn \<times> tunn_world) panics" where
  "tunn_calls c n [] t w = Some ([], t, w)"
| "tunn_calls c n (e # es) t w = do {
     (r, t, w) \<leftarrow> tunn_call c n e t w;
     (rs, t, w) \<leftarrow> tunn_calls c n es t w;
     Some (r # rs, t, w)
   }"

text \<open>The documented buffer sizes: 32 bytes more than the packet, and never less than 148.\<close>

fun call_fits :: "nat \<Rightarrow> tunn_event \<Rightarrow> bool" where
  "call_fits n (call_encapsulate src) \<longleftrightarrow> length src + 32 \<le> n"
| "call_fits n (call_decapsulate a d) \<longleftrightarrow> length d \<le> n"
| "call_fits n call_update_timers \<longleftrightarrow> True"

definition queue_fits :: "nat \<Rightarrow> Tunn \<Rightarrow> bool" where
  "queue_fits n t \<longleftrightarrow> (\<forall>p \<in> set (packet_queue t). length p + 32 \<le> n)"

lemma format_init_queue:
  "Tunn_format_handshake_initiation c t n force w = Some (r, t', w') \<Longrightarrow> packet_queue t' = packet_queue t"
  unfolding Tunn_format_init_unfold Let_def
  by (auto split: if_splits prod.splits option.splits result.splits dest: revive_fields(3))

lemma encapsulate_queue:
  assumes "encapsulate c t src n w = Some (r, t', w')"
  shows "set (packet_queue t') \<subseteq> insert src (set (packet_queue t))"
  using assms unfolding encapsulate_unfold
  by (auto split: option.splits if_splits dest!: format_init_queue simp: queue_packet_def)

lemma send_queued_queue:
  assumes "send_queued_packet c t n w = Some (r, t', w')"
  shows "set (packet_queue t') \<subseteq> set (packet_queue t)"
proof (cases "packet_queue t")
  case (Cons p ps)
  then obtain r1 t1 w1 where e: "encapsulate c (t\<lparr>packet_queue := ps\<rparr>) p n w = Some (r1, t1, w1)"
    using assms by (auto simp: send_queued_packet_def dequeue_packet_def bind_eq_Some_conv)
  then have "t' = t1 \<or> t' = requeue_packet t1 p"
    using assms Cons by (cases r1) (auto simp: send_queued_packet_def dequeue_packet_def)
  then show ?thesis using encapsulate_queue [OF e] Cons
    by (auto simp: requeue_packet_def split: if_splits)
qed (use assms in \<open>simp add: send_queued_packet_def dequeue_packet_def\<close>)

lemma established_queue [simp]:
  "packet_queue (responder_established t s) = packet_queue t"
  "packet_queue (initiator_established t s) = packet_queue t"
  by (simp_all add: responder_established_def initiator_established_def Let_def)

lemma validate_queue:
  "validate_decapsulated_packet c t p = (r, t') \<Longrightarrow> packet_queue t' = packet_queue t"
  by (erule validate_cases) auto

lemma handle_verified_queue:
  assumes "handle_verified_packet c t p n w = Some (r, t', w')"
  shows "packet_queue t' = packet_queue t"
proof (cases p)
  case (HandshakeInit m)
  with assms show ?thesis
    by (auto simp: handle_init_unfold split: option.splits result.splits prod.splits)
next
  case (HandshakeResponse m)
  with assms show ?thesis
    by (auto simp: handle_resp_unfold split: option.splits result.splits prod.splits)
next
  case (PacketCookieReply m)
  with assms obtain a h where "receive_cookie_reply c (handshake t) m = Some (a, h)"
    by (auto simp: handle_cookie_reply_def bind_eq_Some_conv)
  with assms PacketCookieReply show ?thesis by (cases a) (auto simp: handle_cookie_reply_def)
next
  case (PacketData m)
  with assms show ?thesis
    using validate_queue [OF prod.collapse [symmetric]]
    by (auto simp: handle_data_unfold Let_def split: option.splits result.splits prod.splits)
qed

lemma decapsulate_queue:
  assumes "decapsulate c t a d n w = Some (r, t', w')"
  shows "set (packet_queue t') \<subseteq> set (packet_queue t)"
  using assms send_queued_queue [of c t n w r t' w'] handle_verified_queue [of c t]
  by (auto simp: decapsulate_def Let_def split: if_splits result.splits TunnResult.splits prod.splits)

lemma update_timers_queue:
  assumes inv: "tunn_inv b t w" and u: "update_timers c t n w = Some (r, t', w')"
  shows "set (packet_queue t') \<subseteq> insert [] (set (packet_queue t))"
proof -
  define t2 where "t2 = drop_old_cookie (timers_tunn t w) (timers_now t w)"
  have q: "packet_queue (timers_tunn t w) = packet_queue t" "packet_queue t2 = packet_queue t"
    by (simp_all add: t2_def timers_tunn_def)
  have i2: "tunn_inv b t2 (timers_world t w)" "times_upto t2 (timers_now t w)"
    using keptD(1) [OF kept_cookie [OF keptD(1) [OF kept_timers [OF inv]]]] timers_upto [OF inv]
    by (auto simp: t2_def times_upto_def)
  obtain hs ka t3 where i: "idle_timers t2 (timers_now t w) = Some (hs, ka, t3)"
    "packet_queue t3 = packet_queue t2"
    by (rule idle_timers_total [OF i2])
  have x: "packet_queue t4 = []" if "expire_tunnel t2 w2 = (r4, t4, w4)" for r4 t4 w2 w4
    using that by (auto simp: expire_tunnel_def clear_all_def Let_def split: prod.splits)
  show ?thesis
    using u q i(2) unfolding update_timers_unfold [OF inv] t2_def [symmetric] i(1)
    by (auto split: if_splits option.splits dest!: format_init_queue encapsulate_queue x)
qed

lemma tunn_call_total:
  assumes c: "crypto_laws c" and inv: "tunn_inv b t w" and q: "queue_fits n t" and n: "148 \<le> n"
    and f: "call_fits n e"
  obtains r t' w' where "tunn_call c n e t w = Some (r, t', w')" "kept b t w t' w'" "queue_fits n t'"
proof (cases e)
  case (call_encapsulate src)
  obtain r t' w' where x: "encapsulate c t src n w = Some (r, t', w')" "kept b t w t' w'"
    by (rule encapsulate_total [OF c inv, of src n]) (use f call_encapsulate in auto)
  have "queue_fits n t'" using encapsulate_queue [OF x(1)] q f call_encapsulate
    by (auto simp: queue_fits_def)
  with x that show ?thesis by (simp add: call_encapsulate)
next
  case (call_decapsulate a d)
  obtain r t' w' where x: "decapsulate c t a d n w = Some (r, t', w')" "kept b t w t' w'"
    by (rule decapsulate_total [OF c inv, of n d a]) (use f n q call_decapsulate in \<open>auto simp: queue_fits_def head_fits_def\<close>)
  have "queue_fits n t'" using decapsulate_queue [OF x(1)] q by (auto simp: queue_fits_def)
  with x that show ?thesis by (simp add: call_decapsulate)
next
  case call_update_timers
  obtain r t' w' where x: "update_timers c t n w = Some (r, t', w')" "kept b t w t' w'"
    by (rule update_timers_total [OF c inv, of n]) (use n in auto)
  have "queue_fits n t'" using update_timers_queue [OF inv x(1)] q n by (auto simp: queue_fits_def)
  with x that show ?thesis by (simp add: call_update_timers)
qed

lemma tunn_calls_total:
  assumes c: "crypto_laws c" and n: "148 \<le> n"
  shows "tunn_inv b t w \<Longrightarrow> queue_fits n t \<Longrightarrow> \<forall>e \<in> set es. call_fits n e \<Longrightarrow>
    \<exists>rs t' w'. tunn_calls c n es t w = Some (rs, t', w') \<and> tunn_inv b t' w'"
proof (induction es arbitrary: t w)
  case (Cons e es)
  obtain r t1 w1 where 1: "tunn_call c n e t w = Some (r, t1, w1)" "kept b t w t1 w1" "queue_fits n t1"
    by (rule tunn_call_total [OF c Cons.prems(1,2) n]) (use Cons.prems(3) in auto)
  with Cons.IH [OF keptD(1) [OF 1(2)] 1(3)] Cons.prems(3) show ?case by auto
qed simp

text \<open>
  C3.  A tunnel never panics.  Started with a monotone clock, a new tunnel survives every sequence of
  calls of \<^verbatim>\<open>encapsulate\<close>, \<^verbatim>\<open>decapsulate\<close> (on arbitrary datagrams from anywhere) and
  \<^verbatim>\<open>update_timers\<close>, as long as the output buffer has the documented size.  Afterwards at most 256
  packets are queued and every session carries the index prefix the tunnel was created with.
\<close>

theorem tunnel_never_panics:
  assumes c: "crypto_laws c" and m: "monotone_clock w"
    and new: "Tunn_new c sk peer psk ka index lim w = Some (t, w0)"
    and l: "\<forall>r. lim = Some r \<longrightarrow> r < length (limiters w)"
    and n: "148 \<le> n" and f: "\<forall>e \<in> set es. call_fits n e"
  shows "\<exists>rs t' w'. tunn_calls c n es t w0 = Some (rs, t', w') \<and>
    length (packet_queue t') \<le> 256 \<and>
    (\<forall>s. Some s \<in> set (sessions t') \<longrightarrow> drop_bit 8 (receiving_index s) = index AND mask 24)"
proof -
  have "queue_fits n t"
    using Tunn_new_queue [OF new] by (simp add: queue_fits_def)
  then obtain rs t' w' where r: "tunn_calls c n es t w0 = Some (rs, t', w')"
    and i: "tunn_inv (index AND mask 24) t' w'"
    using tunn_calls_total [OF c n _ _ f] Tunn_new_inv(1) [OF c new m] l by blast
  have "drop_bit 8 (receiving_index s) = index AND mask 24" if "Some s \<in> set (sessions t')" for s
    using tunn_invD(3) [OF i] that by (auto simp: sessions_ok_def slot_ok_def in_set_conv_nth)
  with r tunn_invD(1) [OF i] show ?thesis by (auto simp: shape_ok_def MAX_QUEUE_DEPTH_def)
qed

text \<open>A concrete environment with room for limiters, and the first tunnel in it.\<close>

definition sample_tw :: tunn_world where
  "sample_tw = world.extend (sample_world 0) \<lparr>limiters = []\<rparr>"

definition sample_tunn :: "bytes \<Rightarrow> bytes \<Rightarrow> (Tunn \<times> tunn_world) panics" where
  "sample_tunn sk peer_sk =
     Tunn_new sample_crypto sk (x25519_public sample_crypto peer_sk) None None 7 None sample_tw"

lemma sample_tw_fields [simp]:
  "clock sample_tw = clock (sample_world 0)" "clock_pos sample_tw = 0" "limiters sample_tw = []"
  "system_clock sample_tw = system_clock (sample_world 0)" "system_pos sample_tw = 0"
  "rng sample_tw = rng (sample_world 0)" "rng_pos sample_tw = 0"
  by (simp_all add: sample_tw_def world.defs sample_world_def)

lemma sample_tw_monotone: "monotone_clock sample_tw"
  using sample_world_monotone [of 0] by (simp add: monotone_clock_def)

lemma Handshake_new_some:
  assumes "0 \<le> system_clock w (system_pos w)"
  shows "\<exists>h w'. Handshake_new c sk pk peer idx psk w = Some (h, w')"
  using assms
  by (simp add: Handshake_new_def TimeStamper_new_def SystemTime_since_epoch_def Let_def Instant_now_def)

lemma Tunn_new_some:
  assumes "0 \<le> system_clock w (system_pos w)"
  obtains t w' where "Tunn_new c sk peer psk ka idx lim w = Some (t, w')"
proof -
  obtain h w1 where "Handshake_new c sk (x25519_public c sk) peer (push_bit 8 idx) psk w = Some (h, w1)"
    using Handshake_new_some [OF assms] by blast
  then have "\<exists>t w'. Tunn_new c sk peer psk ka idx lim w = Some (t, w')"
    by (simp add: Tunn_new_def Let_def split_beta)
  then show ?thesis using that by blast
qed

lemma sample_tunn:
  obtains t w where "sample_tunn sk psk = Some (t, w)"
    "hs_state (handshake t) = HsNone" "write_cookie (cookies (handshake t)) = None"
    "timers t = \<lparr>is_initiator = False, time_started = \<lparr>tv_sec = 101, tv_nsec = 0\<rparr>,
       timer_values = replicate 9 0, session_timers = replicate 8 0, want_keepalive = False,
       want_handshake = False, persistent_keepalive_secs = 0, should_reset_rr = True\<rparr>"
    "clock w = clock (sample_world 0)" "clock_pos w = 4" "rate_limiter t = 0" "length (limiters w) = 1"
    "rl_last_reset (limiters w ! 0) = \<lparr>tv_sec = 103, tv_nsec = 0\<rparr>" "tunn_inv 7 t w"
proof -
  have "0 \<le> system_clock sample_tw (system_pos sample_tw)" by (simp add: sample_world_def)
  then obtain t w where t: "sample_tunn sk psk = Some (t, w)"
    unfolding sample_tunn_def by (rule Tunn_new_some)
  have m: "(7 :: u32) AND mask 24 = 7" by (simp add: mask_eq_exp_minus_1)
  have i: "tunn_inv 7 t w"
    using Tunn_new_inv(1) [OF sample_crypto_laws t [unfolded sample_tunn_def] sample_tw_monotone] m by simp
  show ?thesis
    by (rule that [OF t])
      (use t i in \<open>auto simp: sample_tunn_def Tunn_new_def Handshake_new_def TimeStamper_new_def
        SystemTime_since_epoch_def Timers_new_def RateLimiter_new_def Arc_new_def Instant_now_def
        OsRng_bytes_def Let_def sample_world_def TIMER_TOP_def N_SESSIONS_def\<close>)
qed

theorem tunnel_never_panics_witness:
  "\<exists>t w0 rs t' w'. sample_tunn [1] [2] = Some (t, w0) \<and>
    tunn_calls sample_crypto 148
      [call_encapsulate [0x45], call_decapsulate None (4 # replicate 40 0), call_update_timers,
       call_decapsulate None []] t w0 = Some (rs, t', w') \<and>
    length (packet_queue t') \<le> 256 \<and>
    (\<forall>s. Some s \<in> set (sessions t') \<longrightarrow> drop_bit 8 (receiving_index s) = 7 AND mask 24)"
proof -
  obtain t w0 where t: "sample_tunn [1] [2] = Some (t, w0)" by (rule sample_tunn)
  from tunnel_never_panics [OF sample_crypto_laws sample_tw_monotone t [unfolded sample_tunn_def],
      of 148 "[call_encapsulate [0x45], call_decapsulate None (4 # replicate 40 0), call_update_timers,
       call_decapsulate None []]"] t
  show ?thesis by simp
qed

section \<open>Refused datagrams\<close>

lemma send_queued_no_error: "send_queued_packet c t n w \<noteq> Some (TunnErr e, t', w')"
proof (cases "packet_queue t")
  case (Cons p ps)
  show ?thesis
  proof (cases "encapsulate c (t\<lparr>packet_queue := ps\<rparr>) p n w")
    case (Some x)
    then show ?thesis
      using Cons by (cases x; cases "fst x") (auto simp: send_queued_packet_def dequeue_packet_def)
  qed (simp add: Cons send_queued_packet_def dequeue_packet_def)
qed (simp add: send_queued_packet_def dequeue_packet_def)

lemma session_update_id:
  assumes "sessions t ! i = Some s"
  shows "t\<lparr>sessions := (sessions t)[i := Some s]\<rparr> = t"
proof -
  have "(sessions t)[i := Some s] = sessions t" using list_update_id [of "sessions t" i] assms by simp
  then show ?thesis by simp
qed

text \<open>
  The two ways in which a datagram that ends in an error leaves a trace in the tunnel: an authentic data packet whose
  content is not a complete IP packet, and an authentic initiation for whose response there is no room.
\<close>

definition bad_content :: "crypto \<Rightarrow> nat \<Rightarrow> Tunn \<Rightarrow> packet_data \<Rightarrow> Tunn \<Rightarrow> bool" where
  "bad_content c n t p t' \<longleftrightarrow>
     (\<exists>i s pt s'. i = unat (pd_receiver_idx p) \<and> sessions t ! (i mod N_SESSIONS) = Some s \<and>
        receive_packet_data c s p n = Some (Ok pt, s') \<and> t' = data_received t i s' \<and>
        validate_decapsulated_packet c t' pt = (TunnErr InvalidPacket, t'))"

definition no_room :: "crypto \<Rightarrow> nat \<Rightarrow> Tunn \<Rightarrow> handshake_init \<Rightarrow> Tunn \<Rightarrow> bool" where
  "no_room c n t m t' \<longleftrightarrow>
     n < HANDSHAKE_RESP_SZ \<and> (\<exists>h. unanswered c (handshake t) m h \<and> t' = t\<lparr>handshake := h\<rparr>)"

lemma handle_init_error:
  assumes h: "handle_handshake_init c t m n w = Some (r, t', w')" and e: "unwrap_tunn r = TunnErr e"
  shows "t' = t \<or> e = DestinationBufferTooSmall \<and> no_room c n t m t'"
proof -
  obtain r1 h' w1 where r: "receive_handshake_initialization c (handshake t) m n w = Some (r1, h', w1)"
    using h by (auto simp: handle_init_unfold split: option.splits)
  show ?thesis
  proof (cases r1)
    case (Err e')
    with h e r have "e = e'" "t' = t\<lparr>handshake := h'\<rparr>" by (auto simp: handle_init_unfold)
    with receive_init_error [OF r [unfolded Err]] show ?thesis by (auto simp: no_room_def)
  next
    case (Ok x)
    with h e r show ?thesis by (cases x) (auto simp: handle_init_unfold)
  qed
qed

lemma handle_resp_error:
  assumes h: "handle_handshake_response c t m n w = Some (r, t', w')" and e: "unwrap_tunn r = TunnErr e"
  shows "t' = t"
proof -
  obtain r1 h' w1 where r: "receive_handshake_response c (handshake t) m w = Some (r1, h', w1)"
    using h by (auto simp: handle_resp_unfold split: option.splits)
  then show ?thesis
    by (rule receive_resp_cases) (use h e r in \<open>auto simp: handle_resp_unfold split: result.splits option.splits\<close>)
qed

lemma handle_cookie_error:
  assumes h: "handle_cookie_reply c t m = Some (r, t')" and e: "unwrap_tunn r = TunnErr e"
  shows "t' = t"
proof -
  obtain r1 h' where r: "receive_cookie_reply c (handshake t) m = Some (r1, h')"
    using h by (auto simp: handle_cookie_reply_def bind_eq_Some_conv)
  then show ?thesis
    using h e receive_cookie_error [of c "handshake t" m _ h'] by (cases r1) (auto simp: handle_cookie_reply_def)
qed

lemma handle_data_error:
  assumes h: "handle_data c t m n = Some (r, t')" and e: "unwrap_tunn r = TunnErr e"
  shows "t' = t \<or> e = InvalidPacket \<and> bad_content c n t m t'"
proof -
  define i where "i = unat (pd_receiver_idx m)"
  show ?thesis
  proof (cases "sessions t ! (i mod N_SESSIONS)")
    case None
    with h show ?thesis by (simp add: handle_data_unfold i_def Let_def)
  next
    case (Some s)
    then obtain r1 s' where r: "receive_packet_data c s m n = Some (r1, s')"
      using h by (auto simp: handle_data_unfold i_def [symmetric] Let_def split: option.splits)
    show ?thesis
    proof (cases r1)
      case (Err x)
      then have "s' = s" using receive_packet_data_err r by blast
      with h Some r Err show ?thesis
        by (simp add: handle_data_unfold i_def [symmetric] Let_def session_update_id)
    next
      case (Ok pt)
      obtain u v where v: "validate_decapsulated_packet c (data_received t i s') pt = (u, v)" by force
      with h Some r Ok have "t' = v" "r = result.Ok u"
        by (simp_all add: handle_data_unfold i_def [symmetric] Let_def)
      with v e have "e = InvalidPacket" "v = data_received t i s'" "u = TunnErr InvalidPacket"
        by (cases rule: validate_cases; simp)+
      with v \<open>t' = v\<close> Some r Ok show ?thesis unfolding bad_content_def i_def by blast
    qed
  qed
qed

lemma verified_parses:
  assumes "limiter_verify_packet c r a d n w = (Ok p, w')"
  shows "parse_incoming_packet d = Ok p"
  using assms
  by (auto simp: limiter_verify_packet_def verify_packet_unfold Let_def
      split: prod.splits result.splits option.splits if_splits)

text \<open>
  C17.  What a datagram that ends in an error leaves behind.  Whatever arrives, when \<^verbatim>\<open>decapsulate\<close> returns an error the
  tunnel is exactly as it was (keys, counters, timers, queue and handshake), with two exceptions.  A data packet that
  authenticates under a session and carries a new counter, but no complete IP packet, is counted as received; the error
  is \<^verbatim>\<open>InvalidPacket\<close>.  An initiation that authenticates and has a new time stamp, when the buffer has less than the
  92 bytes of a response, leaves its time stamp; the error is \<^verbatim>\<open>DestinationBufferTooSmall\<close>.
\<close>

theorem decapsulate_error_inert:
  assumes d: "decapsulate c t a d n w = Some (TunnErr e, t', w')"
  shows "t' = t \<or>
    (\<exists>p. parse_incoming_packet d = Ok (PacketData p) \<and> e = InvalidPacket \<and> bad_content c n t p t') \<or>
    (\<exists>m. parse_incoming_packet d = Ok (HandshakeInit m) \<and> e = DestinationBufferTooSmall \<and> no_room c n t m t')"
proof (cases "d = []")
  case True
  with d have "send_queued_packet c t n w = Some (TunnErr e, t', w')" by (simp add: decapsulate_def)
  then show ?thesis by (simp add: send_queued_no_error)
next
  case False
  obtain v w1 where v: "limiter_verify_packet c (rate_limiter t) a d COOKIE_REPLY_SZ w = (v, w1)" by force
  show ?thesis
  proof (cases v)
    case (Err x)
    with d v False show ?thesis by (cases x) (auto simp: decapsulate_def Let_def split: if_splits)
  next
    case (Ok p)
    have "parse_incoming_packet d = Ok p" using verified_parses v Ok by blast
    moreover have "handle_verified_packet c t p n w1 = Some (TunnErr e, t', w')"
      using d v Ok False by (simp add: decapsulate_def)
    ultimately show ?thesis
      by (cases p) (auto simp: bind_eq_Some_conv dest: handle_init_error handle_resp_error handle_cookie_error handle_data_error)
  qed
qed

text \<open>A data packet for a tunnel that has no session.\<close>

definition stray_data :: bytes where
  "stray_data = [4, 0, 0, 0] @ replicate 28 0"

lemma parse_stray_data:
  "parse_incoming_packet stray_data = Ok (PacketData
     \<lparr>pd_receiver_idx = 0, pd_counter = 0, pd_encrypted_encapsulated_packet = replicate 16 0\<rparr>)"
  by code_simp

lemma stray_data_refused:
  assumes "sessions t = replicate N_SESSIONS None"
  shows "decapsulate c t None stray_data 148 w = Some (TunnErr NoCurrentSession, t,
     w\<lparr>limiters := (limiters w)[rate_limiter t := limiters w ! rate_limiter t]\<rparr>)"
proof -
  have "stray_data \<noteq> []" by (simp add: stray_data_def)
  then show ?thesis
    using assms
    by (simp add: decapsulate_def limiter_verify_packet_def verify_packet_unfold parse_stray_data
        handle_data_unfold N_SESSIONS_def Let_def)
qed

theorem decapsulate_error_inert_witness:
  "\<exists>t w w' t'. sample_tunn [1] [2] = Some (t, w) \<and>
     decapsulate sample_crypto t None stray_data 148 w = Some (TunnErr NoCurrentSession, t', w') \<and> t' = t"
proof -
  obtain t w where t: "sample_tunn [1] [2] = Some (t, w)" by (rule sample_tunn)
  have "sessions t = replicate N_SESSIONS None"
    by (rule Tunn_new_sessions [OF t [unfolded sample_tunn_def]])
  note d = stray_data_refused [OF this, of sample_crypto w]
  with t decapsulate_error_inert [OF d] show ?thesis by auto
qed

section \<open>Packets for the interface\<close>

text \<open>
  The layout of the two IP headers: \<open>ipv4_header p len a\<close> says that \<open>p\<close> begins with an IPv4 header of at least 20 bytes with
  total length \<open>len\<close> and source address \<open>a\<close>, and \<open>ipv6_header p len a\<close> that \<open>p\<close> begins with an IPv6 header of 40 bytes
  for a packet of \<open>len\<close> bytes, header included, from \<open>a\<close>.
\<close>

definition ipv4_header :: "bytes \<Rightarrow> nat \<Rightarrow> bytes \<Rightarrow> bool" where
  "ipv4_header p len a \<longleftrightarrow>
     (\<exists>vi tos mid rest. p = [vi, tos] @ word_to_be 2 (of_nat len :: u16) @ mid @ a @ rest \<and> drop_bit 4 vi = 4 \<and>
        len < 2 ^ 16 \<and> length mid = 8 \<and> length a = 4 \<and> 4 \<le> length rest)"

definition ipv6_header :: "bytes \<Rightarrow> nat \<Rightarrow> bytes \<Rightarrow> bool" where
  "ipv6_header p len a \<longleftrightarrow>
     (\<exists>vt flow plen mid rest. p = [vt] @ flow @ word_to_be 2 (of_nat plen :: u16) @ mid @ a @ rest \<and> drop_bit 4 vt = 6 \<and>
        plen < 2 ^ 16 \<and> len = plen + 40 \<and> length flow = 3 \<and> length mid = 2 \<and> length a = 16 \<and> 16 \<le> length rest)"

lemma be16_round_trip:
  "word_of_be (word_to_be 2 w) = (w :: u16)"
  "length bs = 2 \<Longrightarrow> word_to_be 2 (word_of_be bs :: u16) = bs"
  using word_of_be_to_be [where n = 2 and w = w] word_to_le_of_le [of "rev bs" 2, where 'a = 16]
  by (simp_all add: word_to_be_def word_of_be_def)

lemma ipv4_header_iff:
  "ipv4_header p len a \<longleftrightarrow>
     20 \<le> length p \<and> ip_version p = 4 \<and> len = unat (word_of_be (slice p 2 4) :: u16) \<and> a = slice p 12 16"
proof
  assume "20 \<le> length p \<and> ip_version p = 4 \<and> len = unat (word_of_be (slice p 2 4) :: u16) \<and> a = slice p 12 16"
  then have h: "20 \<le> length p" "ip_version p = 4" "len = unat (word_of_be (slice p 2 4) :: u16)" "a = slice p 12 16" by auto
  have "p = slice p 0 2 @ slice p 2 4 @ slice p 4 12 @ slice p 12 16 @ drop 16 p"
    by (simp add: slice_def flip: take_add append_assoc)
  moreover have "slice p 0 2 = [p ! 0, p ! 1]"
    using h(1) by (intro nth_equalityI) (auto simp: nth_slice less_Suc_eq numeral_2_eq_2)
  moreover have "word_to_be 2 (of_nat len :: u16) = slice p 2 4" using h(1,3) by (simp add: be16_round_trip)
  ultimately show "ipv4_header p len a"
    unfolding ipv4_header_def
    by (intro exI [of _ "p ! 0"] exI [of _ "p ! 1"] exI [of _ "slice p 4 12"] exI [of _ "drop 16 p"])
      (use h unat_bound [of "word_of_be (slice p 2 4) :: u16"] in \<open>auto simp: ip_version_def\<close>)
qed (auto simp: ipv4_header_def ip_version_def slice_def be16_round_trip unat_of_nat)

lemma ipv6_header_iff:
  "ipv6_header p len a \<longleftrightarrow>
     40 \<le> length p \<and> ip_version p = 6 \<and> len = unat (word_of_be (slice p 4 6) :: u16) + 40 \<and> a = slice p 8 24"
proof
  assume "40 \<le> length p \<and> ip_version p = 6 \<and> len = unat (word_of_be (slice p 4 6) :: u16) + 40 \<and> a = slice p 8 24"
  then have h: "40 \<le> length p" "ip_version p = 6" "len = unat (word_of_be (slice p 4 6) :: u16) + 40" "a = slice p 8 24" by auto
  have "p = slice p 0 1 @ slice p 1 4 @ slice p 4 6 @ slice p 6 8 @ slice p 8 24 @ drop 24 p"
    by (simp add: slice_def flip: take_add append_assoc)
  moreover have "slice p 0 1 = [p ! 0]" using h(1) by (intro nth_equalityI) (auto simp: nth_slice)
  moreover have "word_to_be 2 (of_nat (len - 40) :: u16) = slice p 4 6" using h(1,3) by (simp add: be16_round_trip)
  ultimately show "ipv6_header p len a"
    unfolding ipv6_header_def
    by (intro exI [of _ "p ! 0"] exI [of _ "slice p 1 4"] exI [of _ "len - 40"] exI [of _ "slice p 6 8"]
          exI [of _ "drop 24 p"])
      (use h unat_bound [of "word_of_be (slice p 4 6) :: u16"] in \<open>auto simp: ip_version_def\<close>)
qed (auto simp: ipv6_header_def ip_version_def slice_def be16_round_trip unat_of_nat)

definition delivered :: "crypto \<Rightarrow> Tunn \<Rightarrow> nat \<Rightarrow> Tunn" where
  "delivered c t len = (timer_tick t TimeLastDataPacketReceived)\<lparr>rx_bytes := usize c (rx_bytes t + of_nat len)\<rparr>"

text \<open>
  C28.  What is handed to the tunnel interface.  Decrypted bytes are handed over exactly when they begin with an IPv4 or
  an IPv6 header that gives a length no larger than their number, cut to that length and with the source address of
  the header, and the receive counter grows by that length.  No bytes are a keepalive; all others are \<^verbatim>\<open>InvalidPacket\<close>,
  and then nothing changes.
\<close>

theorem validated_packet_spec:
  "(validate_decapsulated_packet c t p = (WriteToTunnelV4 q a, t') \<longleftrightarrow>
      (\<exists>len \<le> length p. ipv4_header p len a \<and> q = take len p \<and> t' = delivered c t len)) \<and>
   (validate_decapsulated_packet c t p = (WriteToTunnelV6 q a, t') \<longleftrightarrow>
      (\<exists>len \<le> length p. ipv6_header p len a \<and> q = take len p \<and> t' = delivered c t len)) \<and>
   (validate_decapsulated_packet c t p = (TunnDone, t') \<longleftrightarrow> p = [] \<and> t' = t) \<and>
   (validate_decapsulated_packet c t p = (TunnErr e, t') \<longleftrightarrow>
      p \<noteq> [] \<and> (\<nexists>len a. len \<le> length p \<and> (ipv4_header p len a \<or> ipv6_header p len a)) \<and> e = InvalidPacket \<and> t' = t)"
  by (auto simp: validate_decapsulated_packet_def ipv4_header_iff ipv6_header_iff delivered_def ip_const_defs Let_def
      not_less)

text \<open>An IPv4 packet of 20 bytes from 10.0.0.5, followed by padding.\<close>

theorem validated_packet_spec_witness:
  "\<exists>t w. sample_tunn [1] [2] = Some (t, w) \<and> validate_decapsulated_packet sample_crypto t
     ([0x45, 0] @ word_to_be 2 (20 :: u16) @ replicate 8 0 @ [10, 0, 0, 5] @ [10, 0, 0, 1] @ replicate 7 0) =
     (WriteToTunnelV4 ([0x45, 0] @ word_to_be 2 (20 :: u16) @ replicate 8 0 @ [10, 0, 0, 5] @ [10, 0, 0, 1]) [10, 0, 0, 5],
      delivered sample_crypto t 20)"
proof (rule sample_tunn [of "[1]" "[2]"])
  fix t w
  assume t: "sample_tunn [1] [2] = Some (t, w)"
  define p :: bytes where
    "p = [0x45, 0] @ word_to_be 2 (20 :: u16) @ replicate 8 0 @ [10, 0, 0, 5] @ [10, 0, 0, 1] @ replicate 7 0"
  have v: "drop_bit 4 (0x45 :: u8) = 4" by code_simp
  have "ipv4_header p 20 [10, 0, 0, 5]"
    unfolding ipv4_header_def p_def
    by (rule exI [of _ "0x45"], rule exI [of _ 0], rule exI [of _ "replicate 8 0"], rule exI [of _ "[10, 0, 0, 1] @ replicate 7 0"])
      (simp add: v)
  moreover have "20 \<le> length p" "take 20 p =
      [0x45, 0] @ word_to_be 2 (20 :: u16) @ replicate 8 0 @ [10, 0, 0, 5] @ [10, 0, 0, 1]"
    by (simp_all add: p_def numeral_eq_Suc)
  ultimately show ?thesis
    using t validated_packet_spec [of sample_crypto t p "take 20 p" "[10, 0, 0, 5]" "delivered sample_crypto t 20" InvalidPacket]
    unfolding p_def by metis
qed

section \<open>Expiry of keys\<close>

lemma format_init_sessions:
  "Tunn_format_handshake_initiation c t n force w = Some (r, t', w') \<Longrightarrow> sessions t' = sessions t"
  unfolding Tunn_format_init_unfold Let_def
  by (auto split: if_splits prod.splits option.splits result.splits dest: revive_fields(2))

lemma encapsulate_live:
  assumes "encapsulate c t src n w = Some (r, t', w')" "sessions t' ! i = Some s"
  shows "sessions t ! i \<noteq> None"
  using assms unfolding encapsulate_unfold
  by (cases "i = current t mod N_SESSIONS")
    (auto split: option.splits dest!: format_init_sessions)

lemma aged_live:
  assumes "shape_ok t" "i < 8" "sessions (sessions_aged t now) ! i = Some s"
  shows "sessions t ! i = Some s \<and> now - session_timers (timers t) ! i \<le> REJECT_AFTER_TIME"
  using assms by (auto simp: sessions_aged_def shape_ok_def N_SESSIONS_def split: if_splits)

lemma timers_tunn_live:
  assumes "tunn_inv b t w" "i < 8" "sessions (timers_tunn t w) ! i = Some s"
  shows "sessions t ! i = Some s \<and> timers_now t w - session_timers (timers t) ! i \<le> REJECT_AFTER_TIME"
proof -
  define u where "u = t\<lparr>timers := timer_set (timers t) TimeCurrent (timers_now t w)\<rparr>"
  have "shape_ok u" using tunn_invD(1) [OF assms(1)] by (simp add: u_def shape_ok_def timer_set_def)
  from aged_live [OF this assms(2)] assms(3) show ?thesis
    by (auto simp: timers_tunn_def u_def timer_set_def)
qed

lemma expire_tunnel_clears:
  assumes "expire_tunnel t w = (r, t', w')"
  shows "r = TunnErr ConnectionExpired" "sessions t' = map (\<lambda>_. None) (sessions t)"
    "packet_queue t' = []" "handshake t' = set_expired (handshake t)"
  using assms by (auto simp: expire_tunnel_def clear_all_def Let_def split: prod.splits)

text \<open>
  C18.  Keys do not outlive their limit.  Every session left in the ring by \<^verbatim>\<open>update_timers\<close> was
  there before, and the tunnel recorded its establishment at most 180 seconds ago.
\<close>

theorem old_sessions_dropped:
  assumes inv: "tunn_inv b t w" and u: "update_timers c t n w = Some (r, t', w')"
    and i: "i < 8" and s: "sessions t' ! i \<noteq> None"
  shows "sessions t ! i \<noteq> None \<and>
    since (time_started (timers t)) w - session_timers (timers t) ! i \<le> from_secs 180"
proof -
  define t1 where "t1 = timers_tunn t w"
  define t2 where "t2 = drop_old_cookie t1 (timers_now t w)"
  have s2: "sessions t2 = sessions t1" by (simp add: t2_def)
  have i2: "tunn_inv b t2 (timers_world t w)" "times_upto t2 (timers_now t w)"
    using keptD(1) [OF kept_cookie [OF keptD(1) [OF kept_timers [OF inv]]]] timers_upto [OF inv]
    by (auto simp: t2_def t1_def times_upto_def)
  obtain hs ka t3 where idle: "idle_timers t2 (timers_now t w) = Some (hs, ka, t3)"
    "sessions t3 = sessions t2"
    by (rule idle_timers_total [OF i2])
  have l: "i < length (sessions t2)" using tunn_invD(1) [OF i2(1)] i by (simp add: shape_ok_def N_SESSIONS_def)
  have x: "sessions t4 ! i = None" if "expire_tunnel t2 w2 = (r4, t4, w4)" for r4 t4 w2 w4
    using expire_tunnel_clears(2) [OF that] l by simp
  have "sessions t1 ! i \<noteq> None"
    using u s s2 idle(2) x unfolding update_timers_unfold [OF inv] t1_def [symmetric] t2_def [symmetric] idle(1)
    by (auto split: if_splits option.splits dest!: format_init_sessions dest: encapsulate_live)
  then obtain s1 where "sessions t1 ! i = Some s1" by auto
  from timers_tunn_live [OF inv i this [unfolded t1_def]] show ?thesis
    by (simp add: timers_now_def REJECT_AFTER_TIME_def from_mins_def from_secs_def Duration_new_def)
qed

text \<open>The sample tunnel with a session in slot 1, three seconds after its creation.\<close>

lemma sample_session_slot: "slot_ok 7 1 (Session_new 1793 5 [] [])"
proof -
  have "drop_bit 8 (1793 :: u32) = 7" by code_simp
  then show ?thesis
    using session_ok_new [of 1793 5 "[]" "[]"]
    by (simp add: slot_ok_def local_index_def Session_new_def N_SESSIONS_def)
qed

lemma sample_idle:
  assumes t: "sample_tunn sk psk = Some (t, w)"
  shows "since (time_started (timers t)) w = from_secs 3"
  by (rule sample_tunn [of sk psk])
    (use t in \<open>auto simp: since_def sample_world_def duration_since_def checked_duration_since_def
      from_secs_def Duration_new_def\<close>)

theorem old_sessions_dropped_witness:
  "\<exists>t w r t' w'. sample_tunn [1] [2] = Some (t, w) \<and>
     update_timers sample_crypto (t\<lparr>sessions := (sessions t)[1 := Some (Session_new 1793 5 [] [])]\<rparr>) 148 w
       = Some (r, t', w') \<and> sessions t' ! 1 \<noteq> None \<and>
     since (time_started (timers t)) w - session_timers (timers t) ! 1 \<le> from_secs 180"
proof (rule sample_tunn [of "[1]" "[2]"])
  fix t w
  assume t: "sample_tunn [1] [2] = Some (t, w)" and h: "hs_state (handshake t) = HsNone"
    and ts: "timers t = \<lparr>is_initiator = False, time_started = \<lparr>tv_sec = 101, tv_nsec = 0\<rparr>,
       timer_values = replicate 9 0, session_timers = replicate 8 0, want_keepalive = False,
       want_handshake = False, persistent_keepalive_secs = 0, should_reset_rr = True\<rparr>"
    and inv: "tunn_inv 7 t w"
  define t1 where "t1 = t\<lparr>sessions := (sessions t)[1 := Some (Session_new 1793 5 [] [])]\<rparr>"
  have inv1: "tunn_inv 7 t1 w" unfolding t1_def by (rule inv_session [OF inv sample_session_slot])
  have l: "length (sessions t) = 8" using tunn_invD(1) [OF inv] by (simp add: shape_ok_def N_SESSIONS_def)
  have now: "timers_now t1 w = from_secs 3" using sample_idle [OF t] by (simp add: timers_now_def t1_def)
  define t2 where "t2 = drop_old_cookie (timers_tunn t1 w) (from_secs 3)"
  have i2: "tunn_inv 7 t2 (timers_world t1 w)" "times_upto t2 (from_secs 3)"
    using keptD(1) [OF kept_cookie [OF keptD(1) [OF kept_timers [OF inv1]]]] timers_upto [OF inv1]
    by (auto simp: t2_def now times_upto_def)
  have young: "\<not> REJECT_AFTER_TIME < from_secs 3 - 0"
    by (simp add: REJECT_AFTER_TIME_def from_mins_def from_secs_def Duration_new_def)
  have "map2 (\<lambda>st s. if REJECT_AFTER_TIME < from_secs 3 - st then None else s) (replicate 8 0) ss = ss"
    if "length ss = 8" for ss :: "Session option list"
    using young that by (intro nth_equalityI) auto
  then have t2: "timers t2 = (timers t)\<lparr>timer_values := (replicate 9 0)[0 := from_secs 3]\<rparr>"
    "sessions t2 = sessions t1"
    using l young now by (simp_all add: t2_def timers_tunn_def sessions_aged_def timer_set_def ts t1_def)
  have no: "\<not> rekey_due (timers t2) (from_secs 3)" "\<not> quiet (timers t2) (from_secs 3)"
    "\<not> persistent_due (timers t2) (from_secs 3)"
    by (simp_all add: t2 ts rekey_due_def silent_def quiet_def persistent_due_def timer_get_def)
  obtain t3 where t3: "idle_timers t2 (from_secs 3) = Some (False, False, t3)" "sessions t3 = sessions t2"
    by (rule idle_timers_total [OF i2]) (use no in auto)
  have "timers (timers_tunn t1 w) = timers t2" by (simp add: t2_def)
  then have u: "update_timers sample_crypto t1 148 w = Some (TunnDone, t3, timers_world t1 w)"
    using h t3 unfolding update_timers_unfold [OF inv1] now t2_def [symmetric]
    by (simp add: t1_def is_expired_def timer_def t2 timer_get_def REJECT_AFTER_TIME_def from_mins_def
        from_secs_def Duration_new_def NANOS_PER_SEC_def)
  have "sessions t3 ! 1 \<noteq> None" using l by (simp add: t3 t2 t1_def)
  with old_sessions_dropped [OF inv1 u, of 1] t u show ?thesis by (auto simp: t1_def)
qed

text \<open>
  C19.  A dead connection is wiped.  When no session was established for nine minutes, or an initiation
  went unanswered for ninety seconds, \<^verbatim>\<open>update_timers\<close> reports \<^verbatim>\<open>ConnectionExpired\<close> and leaves no
  session key, no ephemeral key of a pending initiation and no queued packet behind.
\<close>

theorem expired_connection_wiped:
  assumes inv: "tunn_inv b t w" and h: "\<not> is_expired (handshake t)"
    and old: "from_secs 540 \<le> since (time_started (timers t)) w - timer_get (timers t) TimeSessionEstablished \<or>
      timer (handshake t) \<noteq> None \<and>
      from_secs 90 \<le> since (time_started (timers t)) w - timer_get (timers t) TimeLastHandshakeStarted"
  shows "\<exists>t' w'. update_timers c t n w = Some (TunnErr ConnectionExpired, t', w') \<and>
    sessions t' = replicate 8 None \<and> packet_queue t' = [] \<and>
    hs_state (handshake t') = HsExpired \<and> previous (handshake t') = HsExpired"
proof -
  define t2 where "t2 = drop_old_cookie (timers_tunn t w) (timers_now t w)"
  have g: "timer_get (timers (timers_tunn t w)) k = timer_get (timers t) k" if "k \<noteq> TimeCurrent" for k
    using that by (cases k) (simp_all add: timers_tunn_def timer_set_def timer_get_def)
  have l: "length (sessions t2) = 8"
    using tunn_invD(1) [OF keptD(1) [OF kept_timers [OF inv]]] by (simp add: t2_def shape_ok_def N_SESSIONS_def)
  obtain r t' w' where e: "expire_tunnel t2 (timers_world t w) = (r, t', w')"
    by (cases "expire_tunnel t2 (timers_world t w)") auto
  have c: "REJECT_AFTER_TIME * 3 = from_secs 540" "REKEY_ATTEMPT_TIME = from_secs 90"
    by (simp_all add: REJECT_AFTER_TIME_def REKEY_ATTEMPT_TIME_def from_mins_def from_secs_def
        Duration_new_def NANOS_PER_SEC_def)
  have "update_timers c t n w = Some (r, t', w')"
    using h old e unfolding update_timers_unfold [OF inv] t2_def [symmetric]
    by (auto simp: c g timers_now_def)
  moreover have "map (\<lambda>_. None) (sessions t2) = replicate 8 (None :: Session option)"
    using l by (simp add: map_replicate_const)
  ultimately show ?thesis
    using expire_tunnel_clears [OF e] by (simp add: set_expired_def)
qed

lemma later_reading: "k \<le> n \<Longrightarrow> clock_pos w = k \<Longrightarrow> tw_le w (w\<lparr>clock_pos := n\<rparr>)"
  by (simp add: tw_le_def world_le_def)

theorem expired_connection_wiped_witness:
  "\<exists>t w t' w'. sample_tunn [1] [2] = Some (t, w) \<and>
    update_timers sample_crypto t 148 (w\<lparr>clock_pos := 600\<rparr>) = Some (TunnErr ConnectionExpired, t', w') \<and>
    sessions t' = replicate 8 None \<and> packet_queue t' = [] \<and>
    hs_state (handshake t') = HsExpired \<and> previous (handshake t') = HsExpired"
proof (rule sample_tunn [of "[1]" "[2]"])
  fix t w
  assume t: "sample_tunn [1] [2] = Some (t, w)" and h: "hs_state (handshake t) = HsNone"
    and ts: "timers t = \<lparr>is_initiator = False, time_started = \<lparr>tv_sec = 101, tv_nsec = 0\<rparr>,
       timer_values = replicate 9 0, session_timers = replicate 8 0, want_keepalive = False,
       want_handshake = False, persistent_keepalive_secs = 0, should_reset_rr = True\<rparr>"
    and c: "clock w = clock (sample_world 0)" "clock_pos w = 4" and inv: "tunn_inv 7 t w"
  have i: "tunn_inv 7 t (w\<lparr>clock_pos := 600\<rparr>)"
    by (rule inv_mono [OF inv later_reading [OF _ c(2)]]) simp
  have "from_secs 540 \<le> since (time_started (timers t)) (w\<lparr>clock_pos := 600\<rparr>) - timer_get (timers t) TimeSessionEstablished"
    using c by (simp add: ts since_def sample_world_def duration_since_def checked_duration_since_def
        timer_get_def from_secs_def Duration_new_def NANOS_PER_SEC_def)
  then show ?thesis
    using expired_connection_wiped [OF i, of sample_crypto 148] h t by (auto simp: is_expired_def)
qed

section \<open>The queue without a session\<close>

lemma idle_initiates:
  assumes c: "crypto_laws c" and inv: "tunn_inv b t w" and i: "\<not> is_in_progress (handshake t)" and n: "HANDSHAKE_INIT_SZ \<le> n"
  obtains packet t' w' s m where "Tunn_format_handshake_initiation c t n False w = Some (WriteToNetwork packet, t', w')"
    "parse_incoming_packet packet = Ok (HandshakeInit m)" "hs_state (handshake t') = InitSent s"
    "sessions t' = sessions t" "packet_queue t' = packet_queue t" "current t' = current t" "tunn_inv b t' w'"
proof -
  obtain r t' w' where r: "Tunn_format_handshake_initiation c t n False w = Some (r, t', w')" "kept b t w t' w'"
    and f: "sessions t' = sessions t" "packet_queue t' = packet_queue t" "current t' = current t"
    by (rule Tunn_format_init_total [OF c inv])
  obtain t1 w1 where rv: "revive t w = (t1, w1)" by fastforce
  obtain r1 h w2 where g: "format_handshake_initiation c (handshake t) n w1 = Some (r1, h, w2)"
    using r(1) i rv by (auto simp: Tunn_format_init_unfold split: option.splits)
  from g obtain packet s where x: "r1 = Ok packet" "r = WriteToNetwork packet" "hs_state (handshake t') = InitSent s"
  proof (cases rule: format_init_cases)
    case small
    then show ?thesis using n by simp
  next
    case (sent dgram st cs)
    then show ?thesis using r(1) i rv g that by (auto simp: Tunn_format_init_unfold initiation_sent_def)
  qed
  obtain m where "parse_incoming_packet packet = Ok (HandshakeInit m)"
    using format_init_datagram [OF c tunn_invD(5) [OF inv] g [unfolded x(1)]] by blast
  with r f keptD(1) x show thesis using that by blast
qed

text \<open>
  C29.  The queue without a session.  A call of \<^verbatim>\<open>decapsulate\<close> with an empty datagram, which asks for the next queued packet,
  takes the oldest packet and finds no session.  It puts the packet at the end of the queue while an initiation is
  pending, and otherwise puts it there and returns an initiation.  When the buffer is too small for the initiation, the
  packet is put back at both ends of a queue that has room for it, so it will be sent twice.
\<close>

theorem queue_without_session:
  assumes c: "crypto_laws c" and inv: "tunn_inv b t w"
    and s: "sessions t ! (current t mod N_SESSIONS) = None" and q: "packet_queue t = p # ps"
  shows "\<exists>r t' w'. decapsulate c t a [] n w = Some (r, t', w') \<and> sessions t' = sessions t \<and>
    (if is_in_progress (handshake t) then r = TunnDone \<and> t' = t\<lparr>packet_queue := ps @ [p]\<rparr> \<and> w' = w
     else if HANDSHAKE_INIT_SZ \<le> n
     then packet_queue t' = ps @ [p] \<and> is_in_progress (handshake t') \<and>
       (\<exists>d m. r = WriteToNetwork d \<and> parse_incoming_packet d = Ok (HandshakeInit m))
     else r = TunnDone \<and> handshake t' = handshake t \<and>
       packet_queue t' = (if length (p # ps) < MAX_QUEUE_DEPTH then p # ps @ [p] else ps @ [p]))"
proof -
  let ?t = "t\<lparr>packet_queue := ps @ [p]\<rparr>"
  have l: "length ps < MAX_QUEUE_DEPTH" using tunn_invD(1) [OF inv] q by (simp add: shape_ok_def)
  have i: "tunn_inv b ?t w" using inv q by (simp add: tunn_inv_def shape_ok_def)
  have d: "decapsulate c t a [] n w = do {
      (r, t, w) \<leftarrow> Tunn_format_handshake_initiation c ?t n False w;
      case r of TunnErr _ \<Rightarrow> Some (TunnDone, requeue_packet t p, w) | r \<Rightarrow> Some (r, t, w)}"
    using s q l by (simp add: decapsulate_def send_queued_packet_def dequeue_packet_def encapsulate_def queue_packet_def)
  consider (pending) "is_in_progress (handshake t)" | (room) "\<not> is_in_progress (handshake t)" "HANDSHAKE_INIT_SZ \<le> n"
    | (small) "\<not> is_in_progress (handshake t)" "n < HANDSHAKE_INIT_SZ" by linarith
  then show ?thesis
  proof cases
    case pending
    then show ?thesis unfolding d by (simp add: Tunn_format_init_unfold)
  next
    case room
    obtain packet t' w' st m where "Tunn_format_handshake_initiation c ?t n False w = Some (WriteToNetwork packet, t', w')"
      "parse_incoming_packet packet = Ok (HandshakeInit m)" "hs_state (handshake t') = InitSent st"
      "sessions t' = sessions t" "packet_queue t' = ps @ [p]"
      by (rule idle_initiates [OF c i _ room(2)]) (use room(1) in auto)
    with room show ?thesis unfolding d by (simp add: is_in_progress_def)
  next
    case small
    obtain t1 w1 where r: "revive ?t w = (t1, w1)" by fastforce
    show ?thesis
      using small l revive_fields [OF r] unfolding d Tunn_format_init_unfold r
      by (auto simp: format_handshake_initiation_def requeue_packet_def)
  qed
qed

theorem queue_without_session_witness:
  "\<exists>t w t' w'. sample_tunn [1] [2] = Some (t, w) \<and>
     decapsulate sample_crypto (t\<lparr>packet_queue := [[1], [2]]\<rparr>) None [] 0 w = Some (TunnDone, t', w') \<and>
     packet_queue t' = [[1], [2], [1]]"
proof (rule sample_tunn [of "[1]" "[2]"])
  fix t w
  assume t: "sample_tunn [1] [2] = Some (t, w)" and h: "hs_state (handshake t) = HsNone" and i: "tunn_inv 7 t w"
  let ?t = "t\<lparr>packet_queue := [[1], [2]]\<rparr>"
  have s: "sessions ?t ! (current ?t mod N_SESSIONS) = None"
    using Tunn_new_fields [OF t [unfolded sample_tunn_def]] by (simp add: N_SESSIONS_def)
  have i': "tunn_inv 7 ?t w" using i by (simp add: tunn_inv_def shape_ok_def MAX_QUEUE_DEPTH_def)
  show ?thesis
    using t h queue_without_session [OF sample_crypto_laws i' s, of "[1]" "[[2]]" None 0]
    by (auto simp: MAX_QUEUE_DEPTH_def is_in_progress_def HANDSHAKE_INIT_SZ_def)
qed

end
