(* ===== verification/StdParse.thy ===== *)
theory StdParse
  imports Wire
begin

text \<open>
  The parts of the Rust standard library with which the program reads text: string slices,
  \<^verbatim>\<open>from_str_radix\<close> of the unsigned integers, \<^verbatim>\<open>FromStr\<close> of \<^verbatim>\<open>bool\<close>, \<^verbatim>\<open>split\<close> and \<^verbatim>\<open>splitn\<close>.

  A \<^verbatim>\<open>&str\<close> is its UTF-8 bytes.  Its length counts bytes, and a slice whose ends are not
  character boundaries panics.
\<close>

section \<open>Strings\<close>

definition ascii :: "string \<Rightarrow> bytes" where
  "ascii s = map of_char s"

definition is_char_boundary :: "bytes \<Rightarrow> nat \<Rightarrow> bool" where
  "is_char_boundary s i \<longleftrightarrow> i = length s \<or> (i < length s \<and> \<not> (128 \<le> s ! i \<and> s ! i < 192))"

definition str_slice :: "bytes \<Rightarrow> nat \<Rightarrow> nat \<Rightarrow> bytes panics" where
  "str_slice s a b =
     (if a \<le> b \<and> is_char_boundary s a \<and> is_char_boundary s b then Some (slice s a b) else None)"

definition is_ascii :: "bytes \<Rightarrow> bool" where
  "is_ascii s \<longleftrightarrow> (\<forall>b \<in> set s. b < 128)"

lemma str_slice_ascii: "is_ascii s \<Longrightarrow> a \<le> b \<Longrightarrow> b \<le> length s \<Longrightarrow> str_slice s a b = Some (slice s a b)"
  by (auto simp: str_slice_def is_char_boundary_def is_ascii_def not_le)

text \<open>\<^verbatim>\<open>core::str::from_utf8\<close> accepts exactly the well-formed sequences.\<close>

definition is_cont :: "u8 \<Rightarrow> bool" where
  "is_cont b \<longleftrightarrow> 128 \<le> b \<and> b < 192"

fun valid_utf8 :: "bytes \<Rightarrow> bool" where
  "valid_utf8 [] = True"
| "valid_utf8 (a # s) =
     (if a < 128 then valid_utf8 s
      else if 194 \<le> a \<and> a < 224 then
        (case s of b # s' \<Rightarrow> is_cont b \<and> valid_utf8 s' | _ \<Rightarrow> False)
      else if 224 \<le> a \<and> a < 240 then
        (case s of b # c # s' \<Rightarrow>
           is_cont b \<and> is_cont c \<and> (a = 224 \<longrightarrow> 160 \<le> b) \<and> (a = 237 \<longrightarrow> b < 160) \<and> valid_utf8 s'
         | _ \<Rightarrow> False)
      else if 240 \<le> a \<and> a < 245 then
        (case s of b # c # d # s' \<Rightarrow>
           is_cont b \<and> is_cont c \<and> is_cont d \<and> (a = 240 \<longrightarrow> 144 \<le> b) \<and> (a = 244 \<longrightarrow> b < 144) \<and> valid_utf8 s'
         | _ \<Rightarrow> False)
      else False)"

lemma ascii_valid_utf8: "is_ascii s \<Longrightarrow> valid_utf8 s"
  by (induction s) (auto simp: is_ascii_def)

text \<open>
  \<^verbatim>\<open>String::from_utf8_lossy\<close>: the replacement character stands for each byte that cannot begin a character and for each
  longest beginning of a character that does not go on.
\<close>

definition REPLACEMENT :: bytes where "REPLACEMENT = [0xef, 0xbf, 0xbd]"

definition second_ok :: "u8 \<Rightarrow> u8 \<Rightarrow> bool" where
  "second_ok a b \<longleftrightarrow>
     is_cont b \<and> (a = 224 \<longrightarrow> 160 \<le> b) \<and> (a = 237 \<longrightarrow> b < 160) \<and> (a = 240 \<longrightarrow> 144 \<le> b) \<and> (a = 244 \<longrightarrow> b < 144)"

fun utf8_lossy :: "bytes \<Rightarrow> bytes" where
  "utf8_lossy [] = []"
| "utf8_lossy (a # s) =
     (if a < 128 then a # utf8_lossy s
      else if a < 194 \<or> 245 \<le> a then REPLACEMENT @ utf8_lossy s
      else case s of
        [] \<Rightarrow> REPLACEMENT
      | b # s1 \<Rightarrow>
          if \<not> second_ok a b then REPLACEMENT @ utf8_lossy s
          else if a < 224 then a # b # utf8_lossy s1
          else (case s1 of
            [] \<Rightarrow> REPLACEMENT
          | c # s2 \<Rightarrow>
              if \<not> is_cont c then REPLACEMENT @ utf8_lossy s1
              else if a < 240 then a # b # c # utf8_lossy s2
              else (case s2 of
                [] \<Rightarrow> REPLACEMENT
              | d # s3 \<Rightarrow> if \<not> is_cont d then REPLACEMENT @ utf8_lossy s2 else a # b # c # d # utf8_lossy s3)))"

lemma valid_utf8_cases:
  assumes "valid_utf8 (a # s)"
  obtains (one) "a < 128" "valid_utf8 s"
    | (two) b s' where "s = b # s'" "194 \<le> a" "a < 224" "is_cont b" "valid_utf8 s'"
    | (three) b c s' where "s = b # c # s'" "224 \<le> a" "a < 240" "is_cont b" "is_cont c" "a = 224 \<longrightarrow> 160 \<le> b"
        "a = 237 \<longrightarrow> b < 160" "valid_utf8 s'"
    | (four) b c d s' where "s = b # c # d # s'" "240 \<le> a" "a < 245" "is_cont b" "is_cont c" "is_cont d"
        "a = 240 \<longrightarrow> 144 \<le> b" "a = 244 \<longrightarrow> b < 144" "valid_utf8 s'"
  using assms unfolding valid_utf8.simps by (simp only: split: if_splits list.splits) blast+

lemma utf8_lossy_valid: "valid_utf8 s \<Longrightarrow> utf8_lossy s = s"
proof (induction s rule: measure_induct_rule [where f = length])
  case (less s)
  show ?case
  proof (cases s)
    case (Cons a s1)
    with less.prems have "valid_utf8 (a # s1)" by simp
    then show ?thesis
    proof (cases rule: valid_utf8_cases)
      case one
      then show ?thesis using less.IH [of s1] Cons by simp
    next
      case (two b s')
      then have "second_ok a b" "\<not> a < 128" "\<not> (a < 194 \<or> 245 \<le> a)"
        by (auto simp: second_ok_def word_le_nat_alt word_less_nat_alt)
      then show ?thesis using two less.IH [of s'] Cons by simp
    next
      case (three b c s')
      then have "second_ok a b" "\<not> a < 128" "\<not> (a < 194 \<or> 245 \<le> a)" "\<not> a < 224"
        by (auto simp: second_ok_def word_le_nat_alt word_less_nat_alt)
      then show ?thesis using three less.IH [of s'] Cons by simp
    next
      case (four b c d s')
      then have "second_ok a b" "\<not> a < 128" "\<not> (a < 194 \<or> 245 \<le> a)" "\<not> a < 224" "\<not> a < 240"
        by (auto simp: second_ok_def word_le_nat_alt word_less_nat_alt)
      then show ?thesis using four less.IH [of s'] Cons by simp
    qed
  qed simp
qed

section \<open>Integers\<close>

definition to_digit :: "nat \<Rightarrow> u8 \<Rightarrow> nat option" where
  "to_digit radix b =
     (let v = (if 48 \<le> b \<and> b \<le> 57 then unat b - 48
               else if 97 \<le> b \<and> b \<le> 122 then unat b - 87
               else if 65 \<le> b \<and> b \<le> 90 then unat b - 55 else 36)
      in if v < radix then Some v else None)"

fun read_digits :: "nat \<Rightarrow> nat \<Rightarrow> nat \<Rightarrow> bytes \<Rightarrow> nat option" where
  "read_digits mx radix acc [] = Some acc"
| "read_digits mx radix acc (b # bs) = do {
     d \<leftarrow> to_digit radix b;
     let v = acc * radix + d;
     if mx < v then None else read_digits mx radix v bs
   }"

text \<open>\<open>mx\<close> is the greatest value of the type; a leading plus sign is allowed.\<close>

definition from_str_radix :: "nat \<Rightarrow> nat \<Rightarrow> bytes \<Rightarrow> nat option" where
  "from_str_radix mx radix s =
     (case s of
        [] \<Rightarrow> None
      | b # bs \<Rightarrow>
          if bs = [] \<and> (b = 43 \<or> b = 45) then None
          else if b = 43 then read_digits mx radix 0 bs
          else read_digits mx radix 0 s)"

definition parse_u8 :: "bytes \<Rightarrow> u8 option" where
  "parse_u8 s = map_option of_nat (from_str_radix 255 10 s)"

definition parse_u16 :: "bytes \<Rightarrow> u16 option" where
  "parse_u16 s = map_option of_nat (from_str_radix 65535 10 s)"

definition parse_u32 :: "bytes \<Rightarrow> u32 option" where
  "parse_u32 s = map_option of_nat (from_str_radix 4294967295 10 s)"

text \<open>\<^verbatim>\<open>i32\<close>: a leading minus sign is allowed too.\<close>

definition parse_i32 :: "bytes \<Rightarrow> int option" where
  "parse_i32 s =
     (case s of
        b # b' # bs \<Rightarrow>
          if b = 45 then map_option (\<lambda>v. - int v) (read_digits 2147483648 10 0 (b' # bs))
          else map_option int (from_str_radix 2147483647 10 s)
      | _ \<Rightarrow> map_option int (from_str_radix 2147483647 10 s))"

definition parse_bool :: "bytes \<Rightarrow> bool option" where
  "parse_bool s = (if s = ascii ''true'' then Some True else if s = ascii ''false'' then Some False else None)"

lemma read_digits_bound: "read_digits mx radix acc s = Some v \<Longrightarrow> acc \<le> mx \<Longrightarrow> v \<le> mx"
  by (induction mx radix acc s rule: read_digits.induct) (auto simp: bind_eq_Some_conv Let_def split: if_splits)

lemma from_str_radix_bound: "from_str_radix mx radix s = Some v \<Longrightarrow> v \<le> mx"
  by (auto simp: from_str_radix_def simp del: read_digits.simps split: list.splits if_splits
      dest: read_digits_bound)

section \<open>Splitting\<close>

fun split_on :: "u8 \<Rightarrow> bytes \<Rightarrow> bytes list" where
  "split_on p [] = [[]]"
| "split_on p (b # bs) =
     (if b = p then [] # split_on p bs
      else case split_on p bs of f # fs \<Rightarrow> (b # f) # fs | [] \<Rightarrow> [[b]])"

definition splitn2 :: "u8 \<Rightarrow> bytes \<Rightarrow> bytes list" where
  "splitn2 p s =
     (if p \<in> set s then [takeWhile (\<lambda>b. b \<noteq> p) s, drop (length (takeWhile (\<lambda>b. b \<noteq> p) s) + 1) s]
      else [s])"

lemma split_on_absent: "p \<notin> set s \<Longrightarrow> split_on p s = [s]"
  by (induction s) auto

lemma split_on_once: "p \<notin> set s \<Longrightarrow> p \<notin> set t \<Longrightarrow> split_on p (s @ p # t) = [s, t]"
  by (induction s) (auto simp: split_on_absent)

lemma splitn2_once: "p \<notin> set s \<Longrightarrow> splitn2 p (s @ p # t) = [s, t]"
proof -
  assume "p \<notin> set s"
  then have "takeWhile (\<lambda>b. b \<noteq> p) (s @ p # t) = s" by (induction s) auto
  then show ?thesis by (simp add: splitn2_def)
qed

end
