(* ===== verification/Serialization.thy ===== *)
theory Serialization
  imports StdParse SleepyInstant
begin

text \<open>
  Keys as text (\<^verbatim>\<open>serialization.rs\<close>): parsing from hex or base64, printing, and construction from
  bytes or from the operating system's random source.

  The \<^verbatim>\<open>base64\<close> crate is a parameter: a record with its encoder and decoder, of which only the
  documented round trip on keys is assumed (\<open>base64_laws\<close>).
\<close>

section \<open>The base64 engine\<close>

record base64 =
  b64_encode :: "bytes \<Rightarrow> bytes"
  b64_decode :: "bytes \<Rightarrow> bytes option"

definition base64_laws :: "base64 \<Rightarrow> bool" where
  "base64_laws e \<longleftrightarrow>
     (\<forall>k. length k = 32 \<longrightarrow> length (b64_encode e k) = 44 \<and> b64_decode e (b64_encode e k) = Some k)"

section \<open>Keys\<close>

definition KEY_SIZE :: nat where "KEY_SIZE = 32"

datatype KeyBytesError = IllegalCharacter | IllegalSize

fun parse_hex :: "bytes \<Rightarrow> nat list \<Rightarrow> bytes \<Rightarrow> (bytes, KeyBytesError) result panics" where
  "parse_hex s [] internal = Some (Ok internal)"
| "parse_hex s (i # is) internal = do {
     pair \<leftarrow> str_slice s (i * 2) (i * 2 + 2);
     case from_str_radix 255 16 pair of
       None \<Rightarrow> Some (Err IllegalCharacter)
     | Some v \<Rightarrow> parse_hex s is (internal[i := of_nat v])
   }"

definition KeyBytes_from_str :: "base64 \<Rightarrow> bytes \<Rightarrow> (bytes, KeyBytesError) result panics" where
  "KeyBytes_from_str e s =
     (let internal = replicate KEY_SIZE 0
      in if length s = 64 then parse_hex s [0..<KEY_SIZE] internal
         else if length s = 43 \<or> length s = 44 then
           (case b64_decode e s of
              Some decoded_key \<Rightarrow>
                if length decoded_key = length internal then Some (Ok decoded_key)
                else Some (Err IllegalCharacter)
            | None \<Rightarrow> Some (Ok internal))
         else Some (Err IllegalSize))"

definition KeyBytes_from_string :: "base64 \<Rightarrow> bytes \<Rightarrow> (bytes, KeyBytesError) result panics" where
  "KeyBytes_from_string e s = KeyBytes_from_str e s"

definition KeyBytes_secret :: "'w world_scheme \<Rightarrow> bytes \<times> 'w world_scheme" where
  "KeyBytes_secret w = OsRng_bytes 32 w"

definition KeyBytes_from_bytes :: "bytes \<Rightarrow> (bytes, KeyBytesError) result" where
  "KeyBytes_from_bytes bs = (if length bs = KEY_SIZE then Ok bs else Err IllegalSize)"

definition to_base64 :: "base64 \<Rightarrow> bytes \<Rightarrow> bytes" where
  "to_base64 e k = b64_encode e k"

definition to_char :: "u8 \<Rightarrow> u8" where
  "to_char nibble = (if nibble \<le> 9 then 48 + nibble else nibble + 97 - 10)"

definition to_lower_hex :: "bytes \<Rightarrow> bytes" where
  "to_lower_hex k = concat (map (\<lambda>byte. [to_char (drop_bit 4 byte), to_char (byte AND 15)]) k)"

section \<open>Hexadecimal text\<close>

lemma nibbleE:
  assumes "(n :: u8) < 16"
  shows "n \<in> set (map of_nat [0..<16])"
proof -
  have "unat n < 16" using assms by (simp add: word_less_nat_alt)
  moreover have "n = of_nat (unat n)" by simp
  ultimately show ?thesis by (metis atLeastLessThan_iff image_eqI list.set_map set_upt zero_le)
qed

lemma nibble_chars:
  assumes "n < 16"
  shows "to_digit 16 (to_char n) = Some (unat n)" "to_char n < 128" "to_char n \<noteq> 43"
proof -
  have "\<forall>n \<in> set (map of_nat [0..<16]).
      to_digit 16 (to_char n) = Some (unat n) \<and> to_char n < 128 \<and> to_char n \<noteq> 43"
    by code_simp
  then show "to_digit 16 (to_char n) = Some (unat n)" "to_char n < 128" "to_char n \<noteq> 43"
    using nibbleE [OF assms] by blast+
qed

lemma byte_nibbles:
  fixes b :: u8
  shows "drop_bit 4 b < 16" "b AND 15 < 16" "unat (drop_bit 4 b) * 16 + unat (b AND 15) = unat b"
proof -
  have m: "b AND 15 = take_bit 4 b" by (simp add: take_bit_eq_mask mask_eq_exp_minus_1)
  have u: "unat (drop_bit 4 b) = unat b div 16" "unat (b AND 15) = unat b mod 16"
    unfolding m by (simp_all add: unsigned_drop_bit_eq unsigned_take_bit_eq drop_bit_eq_div take_bit_eq_mod
        unat_div unat_mod)
  then show "drop_bit 4 b < 16" "b AND 15 < 16" "unat (drop_bit 4 b) * 16 + unat (b AND 15) = unat b"
    using unat_bound [of b] by (simp_all add: word_less_nat_alt)
qed

lemma hex_pair: "from_str_radix 255 16 [to_char (drop_bit 4 b), to_char (b AND 15)] = Some (unat (b :: u8))"
proof -
  have "unat b \<le> 255" using unat_bound [of b] by simp
  moreover have "unat (drop_bit 4 b) \<le> 255" using unat_bound [of "drop_bit 4 b"] by simp
  ultimately show ?thesis
    using byte_nibbles [of b] nibble_chars [of "drop_bit 4 b"] nibble_chars [of "b AND 15"]
    by (simp add: from_str_radix_def)
qed

lemma length_to_lower_hex [simp]: "length (to_lower_hex k) = 2 * length k"
  by (induction k) (auto simp: to_lower_hex_def)

lemma to_lower_hex_ascii: "is_ascii (to_lower_hex k)"
  using nibble_chars(2) byte_nibbles(1,2) by (auto simp: to_lower_hex_def is_ascii_def)

lemma slice_to_lower_hex:
  "i < length k \<Longrightarrow>
     slice (to_lower_hex k) (i * 2) (i * 2 + 2) = [to_char (drop_bit 4 (k ! i)), to_char ((k ! i) AND 15)]"
proof (induction k arbitrary: i)
  case (Cons b k)
  then show ?case by (cases i) (auto simp: to_lower_hex_def slice_def)
qed simp

lemma parse_hex_printed:
  assumes "i \<le> length k" "length xs = length k" "take i xs = take i k"
  shows "parse_hex (to_lower_hex k) [i..<length k] xs = Some (Ok k)"
  using assms
proof (induction "length k - i" arbitrary: i xs)
  case 0
  then show ?case by simp
next
  case (Suc n)
  then have i: "i < length k" by simp
  have "str_slice (to_lower_hex k) (i * 2) (i * 2 + 2)
      = Some [to_char (drop_bit 4 (k ! i)), to_char ((k ! i) AND 15)]"
    using i by (simp add: str_slice_ascii [OF to_lower_hex_ascii] slice_to_lower_hex [simplified])
  moreover have "take (Suc i) (xs[i := k ! i]) = take (Suc i) k"
    using i Suc.prems by (simp add: take_Suc_conv_app_nth take_update_cancel)
  ultimately show ?case
    using i Suc.hyps(1) [of "Suc i" "xs[i := k ! i]"] Suc.hyps(2) Suc.prems
    by (simp add: upt_rec [of i] hex_pair)
qed

abbreviation hex_at :: "bytes \<Rightarrow> nat \<Rightarrow> nat option" where
  "hex_at s i \<equiv> from_str_radix 255 16 (slice s (2 * i) (2 * i + 2))"

lemma parse_hex_ascii:
  assumes "is_ascii s" "length s = 2 * length xs" "i \<le> length xs"
  shows "parse_hex s [i..<length xs] xs = Some (
    if \<forall>j \<in> {i..<length xs}. hex_at s j \<noteq> None
    then Ok (take i xs @ map (\<lambda>j. of_nat (the (hex_at s j))) [i..<length xs])
    else Err IllegalCharacter)"
  using assms(2,3)
proof (induction "length xs - i" arbitrary: i xs)
  case 0
  then show ?case by simp
next
  case (Suc n)
  then have i: "i < length xs" by simp
  have sl: "str_slice s (i * 2) (i * 2 + 2) = Some (slice s (2 * i) (2 * i + 2))"
    using i Suc.prems by (simp add: str_slice_ascii [OF assms(1)] mult.commute)
  have split: "{i..<length xs} = insert i {Suc i..<length xs}" using i by auto
  show ?case
  proof (cases "hex_at s i")
    case None
    then show ?thesis using i sl by (simp add: upt_rec [of i] split)
  next
    case (Some v)
    have "take (Suc i) (xs[i := of_nat v]) = take i xs @ [of_nat v]"
      using i by (simp add: take_Suc_conv_app_nth take_update_cancel)
    then show ?thesis
      using i sl Some Suc.hyps(1) [of "xs[i := of_nat v]" "Suc i"] Suc.hyps(2) Suc.prems
      by (simp add: upt_rec [of i] split)
  qed
qed

section \<open>Properties\<close>

text \<open>
  C30.  Keys survive printing.  A key printed in hexadecimal or in base64 is parsed back to the same
  key, without a panic.
\<close>

theorem key_text_round_trip:
  assumes "base64_laws e" "length k = KEY_SIZE"
  shows "KeyBytes_from_str e (to_lower_hex k) = Some (Ok k) \<and>
    KeyBytes_from_str e (to_base64 e k) = Some (Ok k)"
  using assms parse_hex_printed [of 0 k "replicate KEY_SIZE 0"]
  by (simp add: KeyBytes_from_str_def to_base64_def base64_laws_def KEY_SIZE_def)

text \<open>An engine with the assumed law, for the witnesses: twelve times the letter A and then the key.\<close>

definition sample_base64 :: base64 where
  "sample_base64 =
     \<lparr>b64_encode = (\<lambda>k. replicate 12 65 @ k),
      b64_decode = (\<lambda>s. if take 12 s = replicate 12 65 then Some (drop 12 s) else None)\<rparr>"

lemma sample_base64_laws: "base64_laws sample_base64"
  by (simp add: base64_laws_def sample_base64_def)

theorem key_text_round_trip_witness:
  "KeyBytes_from_str sample_base64 (to_lower_hex (map of_nat [0..<32])) = Some (Ok (map of_nat [0..<32])) \<and>
   KeyBytes_from_str sample_base64 (to_base64 sample_base64 (map of_nat [0..<32])) = Some (Ok (map of_nat [0..<32]))"
  by (rule key_text_round_trip [OF sample_base64_laws]) (simp add: KEY_SIZE_def)

text \<open>
  C31.  What \<^verbatim>\<open>from_str\<close> accepts.  For ASCII text it never panics, and the outcome is decided by the
  length: 64 bytes are a key exactly when every pair is a hexadecimal byte, 43 or 44 bytes are what the
  base64 decoder says, except that text the decoder refuses is the all-zero key and not an error, and any
  other length is an error.
\<close>

theorem from_str_outcome:
  assumes "is_ascii s"
  shows "KeyBytes_from_str e s = Some (
    if length s = 64 then
      (if \<forall>i \<in> {0..<32}. hex_at s i \<noteq> None then Ok (map (\<lambda>i. of_nat (the (hex_at s i))) [0..<32])
       else Err IllegalCharacter)
    else if length s = 43 \<or> length s = 44 then
      (case b64_decode e s of
         Some k \<Rightarrow> if length k = 32 then Ok k else Err IllegalCharacter
       | None \<Rightarrow> Ok (replicate 32 0))
    else Err IllegalSize)"
  using parse_hex_ascii [OF assms, of "replicate 32 0" 0]
  by (auto simp: KeyBytes_from_str_def KEY_SIZE_def split: option.split)

theorem from_str_outcome_witness:
  "is_ascii (replicate 43 33) \<and> KeyBytes_from_str sample_base64 (replicate 43 33) = Some (Ok (replicate 32 0))"
proof -
  have "is_ascii (replicate 43 33)" by (simp add: is_ascii_def)
  from from_str_outcome [OF this, of sample_base64] this show ?thesis
    by (simp add: sample_base64_def)
qed

text \<open>
  Text that is not ASCII can crash the parser.  A string of 64 bytes with a three-byte character at
  its start makes \<^verbatim>\<open>from_str\<close> slice inside the character, which panics.
\<close>

theorem from_str_panics:
  "KeyBytes_from_str e ([226, 130, 172] @ replicate 61 48) = None"
  by (simp add: KeyBytes_from_str_def KEY_SIZE_def upt_rec str_slice_def is_char_boundary_def)

end
