(* ===== verification/Bindings.thy ===== *)
theory Bindings
  imports TunnProperties Serialization
begin

text \<open>
  The two foreign interfaces of a tunnel: the objects exported through UniFFI (\<^verbatim>\<open>export.rs\<close>) and the C
  functions (\<^verbatim>\<open>ffi/mod.rs\<close>).

  An exported \<^verbatim>\<open>Tunnel\<close> is an \<^verbatim>\<open>Arc<Mutex<Tunn>>\<close> of the standard library.  What a panic inside a method does depends on
  the profile the library is built with.  The release profile of the workspace (\<^verbatim>\<open>Cargo.toml\<close>) aborts: the process ends.
  Another profile unwinds: the caller sees the panic, the lock is poisoned, and later calls find \<^verbatim>\<open>lock()\<close> failing.
  A method is a function of the profile to the outcome, the object and the environment; \<^term>\<open>None\<close> is the end of the process,
  and the outcome \<^term>\<open>None\<close> a panic that the caller sees.  After a panic the environment is returned as it was before
  the call: nothing reads it any more through a poisoned object.

  In the C interface a pointer to a tunnel is the tunnel itself, the output buffer is its size, a C
  string is its bytes, and a null result is \<^term>\<open>None\<close>.  A panic there ends the process.
\<close>

section \<open>UniFFI\<close>

definition MIN_BUFFER_SIZE :: nat where "MIN_BUFFER_SIZE = 148"

datatype TunnelResult =
    ResDone
  | ResErr WireGuardError
  | ResWriteToNetwork bytes
  | ResWriteToTunnelV4 bytes
  | ResWriteToTunnelV6 bytes

fun TunnelResult_from :: "TunnResult \<Rightarrow> TunnelResult" where
  "TunnelResult_from TunnDone = ResDone"
| "TunnelResult_from (TunnErr e) = ResErr e"
| "TunnelResult_from (WriteToNetwork b) = ResWriteToNetwork b"
| "TunnelResult_from (WriteToTunnelV4 b a) = ResWriteToTunnelV4 b"
| "TunnelResult_from (WriteToTunnelV6 b a) = ResWriteToTunnelV6 b"

record TunnelStats =
  ts_tx_bytes :: u64
  ts_rx_bytes :: u64
  ts_last_handshake :: u64

datatype Tunnel = Free Tunn | Poisoned

datatype panic_profile = Abort | Unwind

fun after_panic :: "panic_profile \<Rightarrow> 'w \<Rightarrow> ('r panics \<times> Tunnel \<times> 'w) option" where
  "after_panic Abort w = None"
| "after_panic Unwind w = Some (None, Poisoned, w)"

definition Tunnel_new ::
  "crypto \<Rightarrow> base64 \<Rightarrow> bytes \<Rightarrow> bytes \<Rightarrow> bytes option \<Rightarrow> u16 option \<Rightarrow> u32 \<Rightarrow> tunn_world
     \<Rightarrow> ((Tunnel, KeyBytesError) result \<times> tunn_world) panics" where
  "Tunnel_new c e private_key server_public_key psk keep_alive index w = do {
     r \<leftarrow> KeyBytes_from_string e private_key;
     case r of Err x \<Rightarrow> Some (Err x, w) | Ok private_key \<Rightarrow> do {
       r \<leftarrow> KeyBytes_from_string e server_public_key;
       case r of Err x \<Rightarrow> Some (Err x, w) | Ok server_public_key \<Rightarrow> do {
         r \<leftarrow> (case psk of
             None \<Rightarrow> Some (Ok None)
           | Some key \<Rightarrow> do {
               r \<leftarrow> KeyBytes_from_string e key;
               case r of Err x \<Rightarrow> Some (Err x) | Ok key \<Rightarrow> Some (Ok (Some key))
             });
         case r of Err x \<Rightarrow> Some (Err x, w) | Ok psk \<Rightarrow> do {
           (t, w) \<leftarrow> Tunn_new c private_key server_public_key psk keep_alive index None w;
           Some (Ok (Free t), w)
         }
       }
     }
   }"

definition with_lock ::
  "panic_profile \<Rightarrow> (Tunn \<Rightarrow> tunn_world \<Rightarrow> (TunnResult \<times> Tunn \<times> tunn_world) panics) \<Rightarrow> Tunnel \<Rightarrow> tunn_world
     \<Rightarrow> (TunnelResult panics \<times> Tunnel \<times> tunn_world) option" where
  "with_lock pp f self w =
     (case self of
        Poisoned \<Rightarrow> Some (Some (ResErr LockFailed), self, w)
      | Free tunn \<Rightarrow>
          (case f tunn w of
             None \<Rightarrow> after_panic pp w
           | Some (r, tunn, w) \<Rightarrow> Some (Some (TunnelResult_from r), Free tunn, w)))"

definition Tunnel_tick ::
  "panic_profile \<Rightarrow> crypto \<Rightarrow> Tunnel \<Rightarrow> tunn_world \<Rightarrow> (TunnelResult panics \<times> Tunnel \<times> tunn_world) option" where
  "Tunnel_tick pp c self = with_lock pp (\<lambda>tunn. update_timers c tunn MIN_BUFFER_SIZE) self"

definition Tunnel_force_handshake ::
  "panic_profile \<Rightarrow> crypto \<Rightarrow> Tunnel \<Rightarrow> tunn_world \<Rightarrow> (TunnelResult panics \<times> Tunnel \<times> tunn_world) option" where
  "Tunnel_force_handshake pp c self =
     with_lock pp (\<lambda>tunn. Tunn_format_handshake_initiation c tunn MIN_BUFFER_SIZE True) self"

definition Tunnel_read ::
  "panic_profile \<Rightarrow> crypto \<Rightarrow> Tunnel \<Rightarrow> bytes \<Rightarrow> tunn_world \<Rightarrow> (TunnelResult panics \<times> Tunnel \<times> tunn_world) option" where
  "Tunnel_read pp c self src =
     (let dst_len = max (length src + 32) MIN_BUFFER_SIZE
      in with_lock pp (\<lambda>tunn. decapsulate c tunn None src dst_len) self)"

definition Tunnel_write ::
  "panic_profile \<Rightarrow> crypto \<Rightarrow> Tunnel \<Rightarrow> bytes \<Rightarrow> tunn_world \<Rightarrow> (TunnelResult panics \<times> Tunnel \<times> tunn_world) option" where
  "Tunnel_write pp c self src =
     (let dst_len = max (length src + 32) MIN_BUFFER_SIZE
      in with_lock pp (\<lambda>tunn. encapsulate c tunn src dst_len) self)"

definition Tunnel_stats ::
  "panic_profile \<Rightarrow> Tunnel \<Rightarrow> tunn_world \<Rightarrow> (TunnelStats panics \<times> Tunnel \<times> tunn_world) option" where
  "Tunnel_stats pp self w =
     (case self of
        Poisoned \<Rightarrow> Some (Some \<lparr>ts_tx_bytes = 0, ts_rx_bytes = 0, ts_last_handshake = 0\<rparr>, self, w)
      | Free tunn \<Rightarrow>
          (case do {
             ((_, tx, rx, _), w) \<leftarrow> Tunn_stats tunn w;
             (time, w) \<leftarrow> last_handshake_time tunn w;
             Some (\<lparr>ts_tx_bytes = tx, ts_rx_bytes = rx,
                    ts_last_handshake = (case time of None \<Rightarrow> 0 | Some d \<Rightarrow> of_nat (as_secs d))\<rparr>, w)
           } of
             None \<Rightarrow> after_panic pp w
           | Some (s, w) \<Rightarrow> Some (Some s, self, w)))"

section \<open>The C interface\<close>

datatype result_type =
    WIREGUARD_DONE
  | WRITE_TO_NETWORK
  | WIREGUARD_ERROR
  | WRITE_TO_TUNNEL_IPV4
  | WRITE_TO_TUNNEL_IPV6

record wireguard_result =
  op :: result_type
  res_size :: nat

text \<open>The discriminant of an error, \<^verbatim>\<open>e as usize\<close>.\<close>

fun error_code :: "WireGuardError \<Rightarrow> nat" where
  "error_code DestinationBufferTooSmall = 0"
| "error_code IncorrectPacketLength = 1"
| "error_code UnexpectedPacket = 2"
| "error_code WrongPacketType = 3"
| "error_code WrongIndex = 4"
| "error_code WrongKey = 5"
| "error_code WrongTai64nTimestamp = 6"
| "error_code InvalidMac = 7"
| "error_code InvalidAeadTag = 8"
| "error_code InvalidCounter = 9"
| "error_code DuplicateCounter = 10"
| "error_code InvalidPacket = 11"
| "error_code NoCurrentSession = 12"
| "error_code LockFailed = 13"
| "error_code ConnectionExpired = 14"
| "error_code UnderLoad = 15"

fun wireguard_result_from :: "TunnResult \<Rightarrow> wireguard_result" where
  "wireguard_result_from TunnDone = \<lparr>op = WIREGUARD_DONE, res_size = 0\<rparr>"
| "wireguard_result_from (TunnErr e) = \<lparr>op = WIREGUARD_ERROR, res_size = error_code e\<rparr>"
| "wireguard_result_from (WriteToNetwork b) = \<lparr>op = WRITE_TO_NETWORK, res_size = length b\<rparr>"
| "wireguard_result_from (WriteToTunnelV4 b _) = \<lparr>op = WRITE_TO_TUNNEL_IPV4, res_size = length b\<rparr>"
| "wireguard_result_from (WriteToTunnelV6 b _) = \<lparr>op = WRITE_TO_TUNNEL_IPV6, res_size = length b\<rparr>"

definition x25519_secret_key :: "'w world_scheme \<Rightarrow> bytes \<times> 'w world_scheme" where
  "x25519_secret_key w = OsRng_bytes 32 w"

definition x25519_public_key :: "crypto \<Rightarrow> bytes \<Rightarrow> bytes" where
  "x25519_public_key c private_key = x25519_public c private_key"

text \<open>\<^verbatim>\<open>CString::new\<close> fails on an interior zero byte, and the \<^verbatim>\<open>unwrap\<close> panics.\<close>

definition CString_new :: "bytes \<Rightarrow> bytes panics" where
  "CString_new s = (if 0 \<in> set s then None else Some s)"

definition x25519_key_to_base64 :: "base64 \<Rightarrow> bytes \<Rightarrow> bytes panics" where
  "x25519_key_to_base64 e key = CString_new (b64_encode e key)"

definition x25519_key_to_hex :: "(bytes \<Rightarrow> bytes) \<Rightarrow> bytes \<Rightarrow> bytes panics" where
  "x25519_key_to_hex encode_hex key = CString_new (encode_hex key)"

definition check_base64_encoded_x25519_key :: "base64 \<Rightarrow> bytes \<Rightarrow> int" where
  "check_base64_encoded_x25519_key e key =
     (if \<not> valid_utf8 key then 0
      else case b64_decode e key of
        Some key \<Rightarrow>
          (let len = length key; zero = fold (\<lambda>b zero. zero OR b) key 0
           in if len = 32 \<and> zero \<noteq> 0 then 1 else 0)
      | None \<Rightarrow> 0)"

definition new_tunnel ::
  "crypto \<Rightarrow> base64 \<Rightarrow> bytes \<Rightarrow> bytes \<Rightarrow> bytes option \<Rightarrow> u16 \<Rightarrow> u32 \<Rightarrow> tunn_world
     \<Rightarrow> (Tunn option \<times> tunn_world) panics" where
  "new_tunnel c e sk server_pk psk keep_alive index w =
     (if \<not> valid_utf8 sk then Some (None, w)
      else if \<not> valid_utf8 server_pk then Some (None, w)
      else do {
        psk \<leftarrow> (case psk of
            None \<Rightarrow> Some (Some None)
          | Some s \<Rightarrow>
              if valid_utf8 s then do {
                r \<leftarrow> KeyBytes_from_str e s;
                case r of Ok key \<Rightarrow> Some (Some (Some key)) | Err _ \<Rightarrow> Some None
              } else Some None);
        case psk of None \<Rightarrow> Some (None, w) | Some psk \<Rightarrow> do {
          r \<leftarrow> KeyBytes_from_str e sk;
          case r of Err _ \<Rightarrow> Some (None, w) | Ok private_key \<Rightarrow> do {
            r \<leftarrow> KeyBytes_from_str e server_pk;
            case r of Err _ \<Rightarrow> Some (None, w) | Ok public_key \<Rightarrow> do {
              let keep_alive = (if keep_alive = 0 then None else Some keep_alive);
              (t, w) \<leftarrow> Tunn_new c private_key public_key psk keep_alive index None w;
              Some (Some t, w)
            }
          }
        }
      })"

definition wireguard_write ::
  "crypto \<Rightarrow> Tunn \<Rightarrow> bytes \<Rightarrow> nat \<Rightarrow> tunn_world \<Rightarrow> (wireguard_result \<times> Tunn \<times> tunn_world) panics" where
  "wireguard_write c tunnel src dst_size w = do {
     (r, tunnel, w) \<leftarrow> encapsulate c tunnel src dst_size w;
     Some (wireguard_result_from r, tunnel, w)
   }"

definition wireguard_read ::
  "crypto \<Rightarrow> Tunn \<Rightarrow> bytes \<Rightarrow> nat \<Rightarrow> tunn_world \<Rightarrow> (wireguard_result \<times> Tunn \<times> tunn_world) panics" where
  "wireguard_read c tunnel src dst_size w = do {
     (r, tunnel, w) \<leftarrow> decapsulate c tunnel None src dst_size w;
     Some (wireguard_result_from r, tunnel, w)
   }"

definition wireguard_tick ::
  "crypto \<Rightarrow> Tunn \<Rightarrow> nat \<Rightarrow> tunn_world \<Rightarrow> (wireguard_result \<times> Tunn \<times> tunn_world) panics" where
  "wireguard_tick c tunnel dst_size w = do {
     (r, tunnel, w) \<leftarrow> update_timers c tunnel dst_size w;
     Some (wireguard_result_from r, tunnel, w)
   }"

definition wireguard_force_handshake ::
  "crypto \<Rightarrow> Tunn \<Rightarrow> nat \<Rightarrow> tunn_world \<Rightarrow> (wireguard_result \<times> Tunn \<times> tunn_world) panics" where
  "wireguard_force_handshake c tunnel dst_size w = do {
     (r, tunnel, w) \<leftarrow> Tunn_format_handshake_initiation c tunnel dst_size True w;
     Some (wireguard_result_from r, tunnel, w)
   }"

text \<open>\<^verbatim>\<open>wireguard_stats\<close> without the field \<^verbatim>\<open>estimated_loss\<close>; the casts wrap as they do in Rust.\<close>

record stats =
  st_time_since_last_handshake :: "64 word"
  st_tx_bytes :: u64
  st_rx_bytes :: u64
  st_estimated_rtt :: "32 word"

definition wireguard_stats :: "Tunn \<Rightarrow> tunn_world \<Rightarrow> (stats \<times> tunn_world) panics" where
  "wireguard_stats tunnel w = do {
     ((time, tx, rx, rtt), w) \<leftarrow> Tunn_stats tunnel w;
     Some (\<lparr>st_time_since_last_handshake = (case time of None \<Rightarrow> - 1 | Some t \<Rightarrow> of_nat (as_secs t)),
            st_tx_bytes = tx, st_rx_bytes = rx,
            st_estimated_rtt = (case rtt of None \<Rightarrow> - 1 | Some r \<Rightarrow> r)\<rparr>, w)
   }"

section \<open>Properties of the exported object\<close>

lemma with_lock_total:
  assumes "\<exists>r t' w'. f t w = Some (r, t', w') \<and> P t' w'"
  shows "\<exists>r t' w'. with_lock pp f (Free t) w = Some (Some r, Free t', w') \<and> P t' w'"
  using assms by (auto simp: with_lock_def)

text \<open>
  C32.  Which calls of the exported object return.  On a tunnel in a consistent state \<^verbatim>\<open>tick\<close>, \<^verbatim>\<open>force_handshake\<close>, \<^verbatim>\<open>write\<close>
  of any packet and \<^verbatim>\<open>read\<close> of any datagram return a result, leave the lock usable and the tunnel consistent.  The one
  exception is \<^verbatim>\<open>read\<close> of the empty datagram, which flushes the queue, when there is a session and the oldest queued packet is
  longer than 116 bytes: its buffer of 148 bytes is too small, and it panics.  In the release profile of the
  workspace that ends the process; in a profile that unwinds it poisons the lock.
\<close>

theorem exported_calls_return:
  assumes c: "crypto_laws c" and inv: "tunn_inv b t w"
  shows "(\<forall>call \<in> {Tunnel_tick pp c, Tunnel_force_handshake pp c, \<lambda>s. Tunnel_write pp c s src}.
      \<exists>r t' w'. call (Free t) w = Some (Some r, Free t', w') \<and> tunn_inv b t' w') \<and>
    (if d = [] \<and> sessions t ! (current t mod N_SESSIONS) \<noteq> None \<and> (\<exists>p ps. packet_queue t = p # ps \<and> 116 < length p)
     then Tunnel_read pp c (Free t) d w = after_panic pp w
     else \<exists>r t' w'. Tunnel_read pp c (Free t) d w = Some (Some r, Free t', w') \<and> tunn_inv b t' w')"
proof (intro conjI ballI)
  fix call assume call: "call \<in> {Tunnel_tick pp c, Tunnel_force_handshake pp c, \<lambda>s. Tunnel_write pp c s src}"
  let ?n = "max (length src + 32) MIN_BUFFER_SIZE"
  have 1: "\<exists>r t' w'. update_timers c t MIN_BUFFER_SIZE w = Some (r, t', w') \<and> tunn_inv b t' w'"
    by (rule update_timers_total [OF c inv, of MIN_BUFFER_SIZE]) (auto simp: MIN_BUFFER_SIZE_def dest: keptD(1))
  have 2: "\<exists>r t' w'. Tunn_format_handshake_initiation c t MIN_BUFFER_SIZE True w = Some (r, t', w') \<and> tunn_inv b t' w'"
    by (rule Tunn_format_init_total [OF c inv, of MIN_BUFFER_SIZE True]) (auto dest: keptD(1))
  have 3: "\<exists>r t' w'. encapsulate c t src ?n w = Some (r, t', w') \<and> tunn_inv b t' w'"
    by (rule encapsulate_total [OF c inv, of src ?n]) (auto dest: keptD(1))
  show "\<exists>r t' w'. call (Free t) w = Some (Some r, Free t', w') \<and> tunn_inv b t' w'"
    using call with_lock_total [of "\<lambda>t. update_timers c t MIN_BUFFER_SIZE", OF 1]
      with_lock_total [of "\<lambda>t. Tunn_format_handshake_initiation c t MIN_BUFFER_SIZE True", OF 2]
      with_lock_total [of "\<lambda>t. encapsulate c t src ?n", OF 3]
    by (auto simp: Tunnel_tick_def Tunnel_force_handshake_def Tunnel_write_def)
next
  let ?n = "max (length d + 32) MIN_BUFFER_SIZE"
  let ?long = "d = [] \<and> sessions t ! (current t mod N_SESSIONS) \<noteq> None \<and> (\<exists>p ps. packet_queue t = p # ps \<and> 116 < length p)"
  have "\<exists>r t' w'. decapsulate c t None d ?n w = Some (r, t', w') \<and> tunn_inv b t' w'" if "\<not> ?long"
    by (rule decapsulate_total [OF c inv, of ?n d None])
      (use that in \<open>auto simp: MIN_BUFFER_SIZE_def head_fits_def dest: keptD(1)\<close>)
  from with_lock_total [of "\<lambda>t. decapsulate c t None d ?n", OF this]
  have "\<exists>r t' w'. Tunnel_read pp c (Free t) d w = Some (Some r, Free t', w') \<and> tunn_inv b t' w'" if "\<not> ?long"
    using that by (simp add: Tunnel_read_def)
  moreover have "Tunnel_read pp c (Free t) d w = after_panic pp w" if l: "?long"
  proof -
    from l obtain s p ps where s: "sessions t ! (current t mod N_SESSIONS) = Some s" "packet_queue t = p # ps" "116 < length p"
      by blast
    have "format_packet_data c s p 148 = None" using s(3) by (intro format_packet_data_panics) simp
    then have "decapsulate c t None [] 148 w = None"
      using s by (simp add: decapsulate_def send_queued_packet_def dequeue_packet_def encapsulate_def)
    then show ?thesis using l by (simp add: Tunnel_read_def with_lock_def MIN_BUFFER_SIZE_def)
  qed
  ultimately show "if ?long then Tunnel_read pp c (Free t) d w = after_panic pp w
     else \<exists>r t' w'. Tunnel_read pp c (Free t) d w = Some (Some r, Free t', w') \<and> tunn_inv b t' w'" by simp
qed

theorem exported_calls_return_witness:
  "\<exists>t t1 w r t' w'. sample_tunn [1] [2] = Some (t, w) \<and>
     Tunnel_read Abort sample_crypto (Free t) [1] w = Some (Some r, Free t', w') \<and> tunn_inv 7 t' w' \<and>
     t1 = t\<lparr>sessions := (sessions t)[0 := Some (Session_new 1792 5 [] [])], current := 0,
         packet_queue := [replicate 117 0]\<rparr> \<and>
     Tunnel_read Abort sample_crypto (Free t1) [] w = None"
proof (rule sample_tunn [of "[1]" "[2]"])
  fix t w
  assume t: "sample_tunn [1] [2] = Some (t, w)" and i: "tunn_inv 7 t w"
  let ?t = "t\<lparr>sessions := (sessions t)[0 := Some (Session_new 1792 5 [] [])], current := 0,
         packet_queue := [replicate 117 0]\<rparr>"
  have d: "drop_bit 8 (1792 :: u32) = 7" by code_simp
  have "slot_ok 7 0 (Session_new 1792 5 [] [])"
    using d session_ok_new [of 1792 5 "[]" "[]"] by (simp add: slot_ok_def local_index_def Session_new_def N_SESSIONS_def)
  from inv_session [OF i this] have i': "tunn_inv 7 ?t w" by (simp add: tunn_inv_def shape_ok_def MAX_QUEUE_DEPTH_def)
  have s: "sessions t = replicate N_SESSIONS None"
    by (rule Tunn_new_sessions [OF t [unfolded sample_tunn_def]])
  have "Tunnel_read Abort sample_crypto (Free ?t) [] w = None"
    using exported_calls_return [OF sample_crypto_laws i', of Abort "[]" "[]"] s by (simp add: N_SESSIONS_def)
  with t exported_calls_return [OF sample_crypto_laws i, of Abort "[]" "[1]"] show ?thesis by auto
qed

section \<open>Properties of the C interface\<close>

lemma from_str_total:
  assumes "is_ascii s"
  shows "\<exists>r. KeyBytes_from_str e s = Some r"
proof (cases "length s = 64")
  case True
  then show ?thesis
    using parse_hex_ascii [OF assms, of "replicate 32 0" 0] by (simp add: KeyBytes_from_str_def KEY_SIZE_def)
qed (auto simp: KeyBytes_from_str_def Let_def split: option.split)

lemma Tunn_new_keepalive:
  assumes "Tunn_new c sk peer psk ka idx lim w = Some (t, w')"
  shows "persistent_keepalive_secs (timers t) = (case ka of Some k \<Rightarrow> k | None \<Rightarrow> 0)"
proof -
  obtain h w1 where "Handshake_new c sk (x25519_public c sk) peer (push_bit 8 idx) psk w = Some (h, w1)"
    using assms by (auto simp: Tunn_new_def Let_def bind_eq_Some_conv)
  then show ?thesis using assms by (auto simp: Tunn_new_def Timers_new_def Let_def split: prod.splits)
qed

text \<open>
  C33.  Creating a tunnel from text.  For ASCII arguments and a wall clock after 1970 \<^verbatim>\<open>new_tunnel\<close> always
  returns.  It returns null exactly when one of the given keys is not parsed, and otherwise a tunnel in a
  consistent state, whose sessions will carry the low 24 bits of the index, with the keepalive interval
  asked for, zero meaning none.
\<close>

theorem new_tunnel_outcome:
  assumes c: "crypto_laws c" and m: "monotone_clock w" "0 \<le> system_clock w (system_pos w)"
    and a: "is_ascii sk" "is_ascii pk" "\<forall>s. psk = Some s \<longrightarrow> is_ascii s"
  shows "\<exists>r w'. new_tunnel c e sk pk psk ka index w = Some (r, w') \<and>
    (r = None \<longleftrightarrow> (\<exists>k \<in> {sk, pk} \<union> set_option psk. \<exists>x. KeyBytes_from_str e k = Some (Err x))) \<and>
    (\<forall>t. r = Some t \<longrightarrow> tunn_inv (index AND mask 24) t w' \<and>
       persistent_keepalive t = (if ka = 0 then None else Some ka))"
proof -
  obtain rs rp where r: "KeyBytes_from_str e sk = Some rs" "KeyBytes_from_str e pk = Some rp"
    using from_str_total [OF a(1)] from_str_total [OF a(2)] by blast
  have v: "valid_utf8 sk" "valid_utf8 pk" using a ascii_valid_utf8 by auto
  define T where "T k p q = Tunn_new c k p q (if ka = 0 then None else Some ka) index None w" for k p q
  define t w' where "t k p q = fst (the (T k p q))" and "w' k p q = snd (the (T k p q))" for k p q
  have t: "Tunn_new c k p q (if ka = 0 then None else Some ka) index None w = Some (t k p q, w' k p q)" for k p q
    by (rule Tunn_new_some [OF m(2), of c k p q "if ka = 0 then None else Some ka" index None])
      (simp add: t_def w'_def T_def)
  have new: "tunn_inv (index AND mask 24) (t k p q) (w' k p q)"
    "persistent_keepalive (t k p q) = (if ka = 0 then None else Some ka)" for k p q
    using Tunn_new_inv(1) [OF c t m(1)] Tunn_new_keepalive [OF t]
    by (auto simp: persistent_keepalive_def word_gt_0)
  show ?thesis
  proof (cases psk)
    case None
    then show ?thesis using r v new
      by (cases rs; cases rp) (auto simp: new_tunnel_def t)
  next
    case (Some s)
    obtain rk where rk: "KeyBytes_from_str e s = Some rk" "valid_utf8 s"
      using a(3) Some from_str_total ascii_valid_utf8 by blast
    then show ?thesis using r v new Some
      by (cases rs; cases rp; cases rk) (auto simp: new_tunnel_def t)
  qed
qed

theorem new_tunnel_outcome_witness:
  "\<exists>t w'. new_tunnel sample_crypto sample_base64 (replicate 44 65) (replicate 44 65) None 25 7 sample_tw
     = Some (Some t, w') \<and> tunn_inv 7 t w' \<and> persistent_keepalive t = Some 25"
proof -
  have m: "(7 :: u32) AND mask 24 = 7" by (simp add: mask_eq_exp_minus_1)
  have a: "is_ascii (replicate 44 65)" by (simp add: is_ascii_def)
  have k: "KeyBytes_from_str sample_base64 (replicate 44 65) = Some (Ok (replicate 32 65))"
    by (simp add: KeyBytes_from_str_def sample_base64_def KEY_SIZE_def)
  show ?thesis
    using new_tunnel_outcome [OF sample_crypto_laws sample_tw_monotone _ a a, of None sample_base64 25 7] k m
    by (auto simp: sample_world_def)
qed

end
