(* ===== verification/NetParse.thy ===== *)
theory NetParse
  imports StdParse
begin

text \<open>
  \<^verbatim>\<open>FromStr\<close> of \<^verbatim>\<open>IpAddr\<close> and \<^verbatim>\<open>SocketAddr\<close>, as the parser of the standard library reads them.  A parser takes
  the remaining text and returns the value and the rest, or \<^term>\<open>None\<close>, in which case nothing is consumed.
\<close>

type_synonym 'a parser = "bytes \<Rightarrow> ('a \<times> bytes) option"

definition read_given_char :: "u8 \<Rightarrow> bytes \<Rightarrow> bytes option" where
  "read_given_char ch s = (case s of b # bs \<Rightarrow> if b = ch then Some bs else None | [] \<Rightarrow> None)"

definition read_separator :: "u8 \<Rightarrow> nat \<Rightarrow> 'a parser \<Rightarrow> 'a parser" where
  "read_separator sep index inner s =
     (if 0 < index then do { s \<leftarrow> read_given_char sep s; inner s } else inner s)"

definition read_number :: "nat \<Rightarrow> nat option \<Rightarrow> bool \<Rightarrow> nat \<Rightarrow> nat parser" where
  "read_number radix max_digits allow_zero_prefix mx s =
     (let digits = takeWhile (\<lambda>b. to_digit radix b \<noteq> None) s;
          count = length digits;
          value = foldl (\<lambda>acc b. acc * radix + the (to_digit radix b)) 0 digits
      in if (case max_digits of Some m \<Rightarrow> m < count | None \<Rightarrow> False) then None
         else if count = 0 then None
         else if \<not> allow_zero_prefix \<and> hd s = 48 \<and> 1 < count then None
         else if mx < value then None
         else Some (value, drop count s))"

definition read_ipv4_addr :: "bytes parser" where
  "read_ipv4_addr s = do {
     let oct = read_number 10 (Some 3) False 255;
     (a, s) \<leftarrow> read_separator 46 0 oct s;
     (b, s) \<leftarrow> read_separator 46 1 oct s;
     (c, s) \<leftarrow> read_separator 46 2 oct s;
     (d, s) \<leftarrow> read_separator 46 3 oct s;
     Some (map of_nat [a, b, c, d], s)
   }"

text \<open>Up to \<open>k\<close> more groups of an IPv6 address, the first of them being group \<open>i\<close>; whether it ended in IPv4 form.\<close>

fun read_groups :: "nat \<Rightarrow> nat \<Rightarrow> bytes \<Rightarrow> u16 list \<times> bool \<times> bytes" where
  "read_groups i 0 s = ([], False, s)"
| "read_groups i (Suc k) s =
     (case (if 0 < k then read_separator 58 i read_ipv4_addr s else None) of
        Some (v4, s) \<Rightarrow> ([word_of_be (take 2 v4), word_of_be (drop 2 v4)], True, s)
      | None \<Rightarrow>
          (case read_separator 58 i (read_number 16 (Some 4) True 65535) s of
             Some (g, s) \<Rightarrow> (let (gs, v4, s) = read_groups (Suc i) k s in (of_nat g # gs, v4, s))
           | None \<Rightarrow> ([], False, s)))"

definition read_ipv6_addr :: "bytes parser" where
  "read_ipv6_addr s =
     (let (head, head_ipv4, s) = read_groups 0 8 s
      in if length head = 8 then Some (concat (map (word_to_be 2) head), s)
         else if head_ipv4 then None
         else do {
           s \<leftarrow> read_given_char 58 s;
           s \<leftarrow> read_given_char 58 s;
           let (tail, _, s) = read_groups 0 (8 - (length head + 1)) s;
           Some (concat (map (word_to_be 2) (head @ replicate (8 - length head - length tail) 0 @ tail)), s)
         })"

definition or_else :: "'a parser \<Rightarrow> 'a parser \<Rightarrow> 'a parser" where
  "or_else p q s = (case p s of Some r \<Rightarrow> Some r | None \<Rightarrow> q s)"

definition read_ip_addr :: "ip_addr parser" where
  "read_ip_addr =
     or_else (\<lambda>s. do { (a, s) \<leftarrow> read_ipv4_addr s; Some (V4 a, s) })
       (\<lambda>s. do { (a, s) \<leftarrow> read_ipv6_addr s; Some (V6 a, s) })"

definition parse_with :: "'a parser \<Rightarrow> bytes \<Rightarrow> 'a option" where
  "parse_with p s = (case p s of Some (x, []) \<Rightarrow> Some x | _ \<Rightarrow> None)"

definition parse_ip_addr :: "bytes \<Rightarrow> ip_addr option" where
  "parse_ip_addr = parse_with read_ip_addr"

text \<open>A socket address: octets and port, and for version 6 the flow information and the scope.\<close>

datatype socket_addr =
    SockV4 (sock_octets: bytes) (sock_port: u16)
  | SockV6 (sock_octets: bytes) (sock_port: u16) u32 u32

fun sock_ip :: "socket_addr \<Rightarrow> ip_addr" where
  "sock_ip (SockV4 a _) = V4 a"
| "sock_ip (SockV6 a _ _ _) = V6 a"

fun is_ipv4 :: "socket_addr \<Rightarrow> bool" where
  "is_ipv4 (SockV4 _ _) = True"
| "is_ipv4 (SockV6 _ _ _ _) = False"

definition read_port :: "nat parser" where
  "read_port s = do { s \<leftarrow> read_given_char 58 s; read_number 10 None True 65535 s }"

definition read_socket_addr_v4 :: "socket_addr parser" where
  "read_socket_addr_v4 s = do {
     (a, s) \<leftarrow> read_ipv4_addr s;
     (port, s) \<leftarrow> read_port s;
     Some (SockV4 a (of_nat port), s)
   }"

definition read_socket_addr_v6 :: "socket_addr parser" where
  "read_socket_addr_v6 s = do {
     s \<leftarrow> read_given_char 91 s;
     (a, s) \<leftarrow> read_ipv6_addr s;
     let (scope, s) =
       (case do { s \<leftarrow> read_given_char 37 s; read_number 10 None True 4294967295 s } of
          Some r \<Rightarrow> r | None \<Rightarrow> (0, s));
     s \<leftarrow> read_given_char 93 s;
     (port, s) \<leftarrow> read_port s;
     Some (SockV6 a (of_nat port) 0 (of_nat scope), s)
   }"

definition parse_socket_addr :: "bytes \<Rightarrow> socket_addr option" where
  "parse_socket_addr = parse_with (or_else read_socket_addr_v4 read_socket_addr_v6)"

section \<open>Parsed addresses are well formed\<close>

lemma read_ipv4_length: "read_ipv4_addr s = Some (a, r) \<Longrightarrow> length a = 4"
  by (auto simp: read_ipv4_addr_def Let_def bind_eq_Some_conv)

lemma length_groups: "length (concat (map (word_to_be 2) (gs :: u16 list))) = 2 * length gs"
  by (induction gs) auto

lemma read_groups_length: "length (fst (read_groups i k s)) \<le> k"
proof (induction i k s rule: read_groups.induct)
  case (2 i k s)
  then show ?case
    by (cases k) (auto split: option.splits if_splits prod.splits simp: split_beta Let_def)
qed simp

lemma read_ipv6_length: "read_ipv6_addr s = Some (a, r) \<Longrightarrow> length a = 16"
proof -
  assume r: "read_ipv6_addr s = Some (a, r)"
  obtain head v s1 where h: "read_groups 0 8 s = (head, v, s1)" by (metis prod_cases3)
  have l: "length head \<le> 8" using read_groups_length [of 0 8 s] h by simp
  have "2 * length head + (2 * (8 - (length head + length t)) + 2 * length t) = 16"
    if "length t \<le> 7 - length head" "length head \<noteq> 8" for t :: "u16 list"
    using that l by linarith
  then show ?thesis
    using r read_groups_length [of 0 "7 - length head"] by (auto simp: read_ipv6_addr_def h Let_def split_beta bind_eq_Some_conv length_groups
        simp flip: map_append split: if_splits)
qed

lemma parse_ip_wf: "parse_ip_addr s = Some a \<Longrightarrow> wf_ip a"
  using read_ipv4_length read_ipv6_length
  by (auto simp: parse_ip_addr_def parse_with_def read_ip_addr_def or_else_def bind_eq_Some_conv
      split: option.splits list.splits)

end
