(* ===== verification/AllowedIps.thy ===== *)
theory AllowedIps
  imports Wire "HOL-Library.DAList"
begin

text \<open>
  The routing tables of the device and of a peer (\<^verbatim>\<open>device/allowed_ips.rs\<close>).

  The crates \<^verbatim>\<open>ip_network\<close> and \<^verbatim>\<open>ip_network_table\<close> are parameters: a record of the operations the
  program calls.  An \<^verbatim>\<open>IpNetwork\<close> is seen through its network address and netmask.  \<open>ip_table_laws\<close>
  states what their documentation promises: truncation clears the host bits, the table is a map from
  networks to data, and \<^verbatim>\<open>longest_match\<close> returns an entry of greatest netmask among those that contain
  the address.
\<close>

section \<open>Prefixes\<close>

type_synonym net = "ip_addr \<times> u8"

fun octets :: "ip_addr \<Rightarrow> bytes" where
  "octets (V4 a) = a"
| "octets (V6 a) = a"

definition same_family :: "ip_addr \<Rightarrow> ip_addr \<Rightarrow> bool" where
  "same_family a b = (case (a, b) of (V4 _, V4 _) \<Rightarrow> True | (V6 _, V6 _) \<Rightarrow> True | _ \<Rightarrow> False)"

definition addr_bits :: "ip_addr \<Rightarrow> bool list" where
  "addr_bits a = concat (map (\<lambda>b. map (bit b) (rev [0..<8])) (octets a))"

text \<open>The first \<open>l\<close> bits of the two addresses agree.\<close>

definition in_net :: "ip_addr \<Rightarrow> net \<Rightarrow> bool" where
  "in_net x n \<longleftrightarrow> same_family x (fst n) \<and>
     take (unat (snd n)) (addr_bits x) = take (unat (snd n)) (addr_bits (fst n))"

lemma in_net_trans: "in_net a n \<Longrightarrow> snd m = snd n \<Longrightarrow> in_net (fst n) m \<Longrightarrow> in_net a m"
  by (auto simp: in_net_def same_family_def split: ip_addr.splits)

lemma in_net_sym: "in_net a n \<Longrightarrow> in_net (fst n) (a, snd n)"
  by (auto simp: in_net_def same_family_def split: ip_addr.splits)

section \<open>The table of the library\<close>

record ('t, 'd) ip_table =
  new_truncate :: "ip_addr \<Rightarrow> u8 \<Rightarrow> net option"
  tbl_new :: 't
  tbl_insert :: "'t \<Rightarrow> net \<Rightarrow> 'd \<Rightarrow> 'd option \<times> 't"
  tbl_longest_match :: "'t \<Rightarrow> ip_addr \<Rightarrow> (net \<times> 'd) option"
  tbl_retain :: "'t \<Rightarrow> (net \<Rightarrow> 'd \<Rightarrow> bool) \<Rightarrow> 't"
  tbl_iter :: "'t \<Rightarrow> (net \<times> 'd) list"

abbreviation entries :: "('t, 'd) ip_table \<Rightarrow> 't \<Rightarrow> net \<Rightarrow> 'd option" where
  "entries T t \<equiv> map_of (tbl_iter T t)"

definition ip_table_laws :: "('t, 'd) ip_table \<Rightarrow> bool" where
  "ip_table_laws T \<longleftrightarrow>
     (\<forall>a l. new_truncate T a l \<noteq> None \<longleftrightarrow> unat l \<le> 8 * length (octets a)) \<and>
     (\<forall>a l n. new_truncate T a l = Some n \<longrightarrow> snd n = l \<and> in_net a n) \<and>
     (\<forall>a b l n. wf_ip a \<longrightarrow> wf_ip b \<longrightarrow> new_truncate T a l = Some n \<longrightarrow> in_net b (a, l) \<longrightarrow>
        new_truncate T b l = Some n) \<and>
     tbl_iter T (tbl_new T) = [] \<and>
     (\<forall>t. distinct (map fst (tbl_iter T t))) \<and>
     (\<forall>t n d. fst (tbl_insert T t n d) = entries T t n \<and>
        entries T (snd (tbl_insert T t n d)) = (entries T t)(n \<mapsto> d)) \<and>
     (\<forall>t f n. entries T (tbl_retain T t f) n =
        (case entries T t n of Some d \<Rightarrow> if f n d then Some d else None | None \<Rightarrow> None)) \<and>
     (\<forall>t a. case tbl_longest_match T t a of
          None \<Rightarrow> (\<forall>n \<in> dom (entries T t). \<not> in_net a n)
        | Some (n, d) \<Rightarrow> entries T t n = Some d \<and> in_net a n \<and>
            (\<forall>m \<in> dom (entries T t). in_net a m \<longrightarrow> snd m \<le> snd n))"

lemma ip_table_lawsD:
  assumes "ip_table_laws T"
  shows "\<forall>a l. new_truncate T a l \<noteq> None \<longleftrightarrow> unat l \<le> 8 * length (octets a)"
    "\<forall>a l n. new_truncate T a l = Some n \<longrightarrow> snd n = l \<and> in_net a n"
    "\<forall>a b l n. wf_ip a \<longrightarrow> wf_ip b \<longrightarrow> new_truncate T a l = Some n \<longrightarrow> in_net b (a, l) \<longrightarrow>
        new_truncate T b l = Some n"
    "tbl_iter T (tbl_new T) = []"
    "\<forall>t n d. fst (tbl_insert T t n d) = entries T t n \<and>
        entries T (snd (tbl_insert T t n d)) = (entries T t)(n \<mapsto> d)"
    "\<forall>t f n. entries T (tbl_retain T t f) n =
        (case entries T t n of Some d \<Rightarrow> if f n d then Some d else None | None \<Rightarrow> None)"
    "\<forall>t a. case tbl_longest_match T t a of
          None \<Rightarrow> (\<forall>n \<in> dom (entries T t). \<not> in_net a n)
        | Some (n, d) \<Rightarrow> entries T t n = Some d \<and> in_net a n \<and>
            (\<forall>m \<in> dom (entries T t). in_net a m \<longrightarrow> snd m \<le> snd n)"
  by (insert assms [unfolded ip_table_laws_def]; elim conjE; assumption)+

lemma truncate_valid:
  assumes "ip_table_laws T" "unat l \<le> 8 * length (octets a)"
  obtains n where "new_truncate T a l = Some n"
  using ip_table_lawsD(1) [OF assms(1)] assms(2) by blast

lemma truncate_same:
  "ip_table_laws T \<Longrightarrow> wf_ip a \<Longrightarrow> wf_ip b \<Longrightarrow> new_truncate T a l = Some n \<Longrightarrow> in_net b (a, l) \<Longrightarrow>
     new_truncate T b l = Some n"
  using ip_table_lawsD(3) by blast

lemma in_truncated:
  assumes T: "ip_table_laws T" and n: "new_truncate T b l = Some n"
  shows "in_net a n \<longleftrightarrow> in_net a (b, l)" "snd n = l"
proof -
  have "snd n = l" "in_net b n" using ip_table_lawsD(2) [OF T] n by blast+
  then show "in_net a n \<longleftrightarrow> in_net a (b, l)" "snd n = l"
    by (auto simp: in_net_def same_family_def split: ip_addr.splits)
qed

section \<open>The operations\<close>

definition AllowedIps_new :: "('t, 'd) ip_table \<Rightarrow> 't" where
  "AllowedIps_new T = tbl_new T"

definition AllowedIps_clear :: "('t, 'd) ip_table \<Rightarrow> 't \<Rightarrow> 't" where
  "AllowedIps_clear T ips = tbl_new T"

definition AllowedIps_insert ::
  "('t, 'd) ip_table \<Rightarrow> 't \<Rightarrow> ip_addr \<Rightarrow> u32 \<Rightarrow> 'd \<Rightarrow> ('d option \<times> 't) panics" where
  "AllowedIps_insert T ips key cidr data = do {
     net \<leftarrow> new_truncate T key (ucast cidr);
     Some (tbl_insert T ips net data)
   }"

definition AllowedIps_find :: "('t, 'd) ip_table \<Rightarrow> 't \<Rightarrow> ip_addr \<Rightarrow> 'd option" where
  "AllowedIps_find T ips key = map_option (\<lambda>(net, data). data) (tbl_longest_match T ips key)"

definition AllowedIps_remove :: "('t, 'd) ip_table \<Rightarrow> 't \<Rightarrow> ('d \<Rightarrow> bool) \<Rightarrow> 't" where
  "AllowedIps_remove T ips predicate = tbl_retain T ips (\<lambda>_ v. \<not> predicate v)"

definition AllowedIps_iter :: "('t, 'd) ip_table \<Rightarrow> 't \<Rightarrow> ('d \<times> ip_addr \<times> u8) list" where
  "AllowedIps_iter T ips = map (\<lambda>(ipa, d). (d, fst ipa, snd ipa)) (tbl_iter T ips)"

definition Iter_next :: "'a list \<Rightarrow> 'a option \<times> 'a list" where
  "Iter_next it = (case it of [] \<Rightarrow> (None, []) | x # xs \<Rightarrow> (Some x, xs))"

record AllowedIP =
  addr :: ip_addr
  cidr :: u8

fun insert_all :: "('t, 'd) ip_table \<Rightarrow> 't \<Rightarrow> (AllowedIP \<times> 'd) list \<Rightarrow> 't panics" where
  "insert_all T ips [] = Some ips"
| "insert_all T ips ((ip, data) # rest) = do {
     (_, ips) \<leftarrow> AllowedIps_insert T ips (addr ip) (ucast (cidr ip)) data;
     insert_all T ips rest
   }"

definition AllowedIps_from_iter :: "('t, 'd) ip_table \<Rightarrow> (AllowedIP \<times> 'd) list \<Rightarrow> 't panics" where
  "AllowedIps_from_iter T it = insert_all T (AllowedIps_new T) it"

section \<open>Longest prefix match\<close>

text \<open>
  The reference: among the entries of the configuration whose prefix contains the address, one with the
  greatest prefix length, and of several such entries the last one given.
\<close>

fun best_match :: "ip_addr \<Rightarrow> (AllowedIP \<times> 'd) list \<Rightarrow> (u8 \<times> 'd) option" where
  "best_match a [] = None"
| "best_match a ((ip, d) # rest) =
     (case best_match a rest of
        Some (l, e) \<Rightarrow> if in_net a (addr ip, cidr ip) \<and> l < cidr ip then Some (cidr ip, d) else Some (l, e)
      | None \<Rightarrow> if in_net a (addr ip, cidr ip) then Some (cidr ip, d) else None)"

definition valid_allowed :: "AllowedIP \<Rightarrow> bool" where
  "valid_allowed ip \<longleftrightarrow> wf_ip (addr ip) \<and> unat (cidr ip) \<le> 8 * length (octets (addr ip))"

lemma cidr_cast [simp]: "ucast (ucast (l :: u8) :: u32) = l"
  by (rule bit_word_eqI) (simp add: bit_simps)

lemma insert_all_total:
  assumes T: "ip_table_laws T"
  shows "\<forall>(ip, d) \<in> set xs. valid_allowed ip \<Longrightarrow> \<exists>t. insert_all T ips xs = Some t"
proof (induction xs arbitrary: ips)
  case (Cons x xs)
  obtain ip d where x: "x = (ip, d)" by force
  then have "unat (cidr ip) \<le> 8 * length (octets (addr ip))" using Cons.prems by (auto simp: valid_allowed_def)
  from truncate_valid [OF T this] obtain n where "new_truncate T (addr ip) (cidr ip) = Some n" .
  with Cons x show ?case by (auto simp: AllowedIps_insert_def split_beta)
qed simp

text \<open>The networks of a configuration, with later entries overriding earlier ones.\<close>

definition nets :: "('t, 'd) ip_table \<Rightarrow> (AllowedIP \<times> 'd) list \<Rightarrow> (net \<times> 'd) list" where
  "nets T xs = map (\<lambda>(ip, d). (the (new_truncate T (addr ip) (cidr ip)), d)) xs"

lemma entries_insert_all:
  assumes T: "ip_table_laws T"
  shows "insert_all T ips xs = Some t \<Longrightarrow> entries T t = entries T ips ++ map_of (rev (nets T xs))"
proof (induction xs arbitrary: ips)
  case (Cons x xs)
  obtain ip d where x: "x = (ip, d)" by force
  obtain n where n: "new_truncate T (addr ip) (cidr ip) = Some n"
    and r: "insert_all T (snd (tbl_insert T ips n d)) xs = Some t"
    using Cons.prems by (auto simp: x AllowedIps_insert_def bind_eq_Some_conv split_beta)
  have "entries T (snd (tbl_insert T ips n d)) = (entries T ips)(n \<mapsto> d)"
    using ip_table_lawsD(5) [OF T] by blast
  note upd = this
  show ?case unfolding Cons.IH [OF r] upd by (simp add: nets_def x n)
qed (simp add: nets_def)

lemma best_match_in: "best_match a xs = Some (l, d) \<Longrightarrow>
  \<exists>ip. (ip, d) \<in> set xs \<and> in_net a (addr ip, cidr ip) \<and> l = cidr ip"
proof (induction xs arbitrary: l d)
  case (Cons x xs)
  obtain ip f where x: "x = (ip, f)" by (cases x)
  show ?case
  proof (cases "best_match a xs = Some (l, d)")
    case True
    from Cons.IH [OF this] show ?thesis by auto
  next
    case False
    with Cons.prems have "in_net a (addr ip, cidr ip) \<and> l = cidr ip \<and> d = f"
      by (auto simp: x split: if_splits option.splits)
    then show ?thesis by (auto simp: x)
  qed
qed simp

lemma best_match_max: "(ip, d) \<in> set xs \<Longrightarrow> in_net a (addr ip, cidr ip) \<Longrightarrow>
  \<exists>l e. best_match a xs = Some (l, e) \<and> cidr ip \<le> l"
  by (induction xs) (force split: option.splits)+

text \<open>The networks of two entries that contain the same address and have the same length are equal.\<close>

lemma same_net:
  assumes T: "ip_table_laws T" and v: "valid_allowed ip" "valid_allowed jp" and l: "cidr ip = cidr jp"
    and a: "in_net a (addr ip, cidr ip)" "in_net a (addr jp, cidr jp)"
  shows "new_truncate T (addr ip) (cidr ip) = new_truncate T (addr jp) (cidr jp)"
proof -
  obtain n where n: "new_truncate T (addr jp) (cidr jp) = Some n"
    by (rule truncate_valid [OF T]) (use v(2) in \<open>auto simp: valid_allowed_def\<close>)
  have "in_net (addr ip) (addr jp, cidr jp)"
    using a l by (auto simp: in_net_def same_family_def split: ip_addr.splits)
  with truncate_same [OF T _ _ n] v n l show ?thesis by (simp add: valid_allowed_def)
qed

lemma net_entry:
  assumes T: "ip_table_laws T" and v: "\<forall>(ip, d) \<in> set xs. valid_allowed ip"
    and m: "map_of (rev (nets T xs)) n = Some d"
  obtains ip where "(ip, d) \<in> set xs" "new_truncate T (addr ip) (cidr ip) = Some n"
    "\<And>a. in_net a n \<longleftrightarrow> in_net a (addr ip, cidr ip)" "snd n = cidr ip"
proof -
  obtain ip where i: "(ip, d) \<in> set xs" "n = the (new_truncate T (addr ip) (cidr ip))"
    using map_of_SomeD [OF m] by (auto simp: nets_def)
  have "unat (cidr ip) \<le> 8 * length (octets (addr ip))" using v i(1) by (auto simp: valid_allowed_def)
  from truncate_valid [OF T this] i(2) have n: "new_truncate T (addr ip) (cidr ip) = Some n" by fastforce
  show ?thesis by (rule that [OF i(1) n in_truncated [OF T n]])
qed

lemma net_present:
  assumes "(ip, d) \<in> set xs" "new_truncate T (addr ip) (cidr ip) = Some n"
  shows "n \<in> dom (map_of (rev (nets T xs)))"
proof -
  have "(n, d) \<in> set (rev (nets T xs))" using assms by (force simp: nets_def)
  from weak_map_of_SomeI [OF this] show ?thesis by auto
qed

lemma no_match: "best_match a xs = None \<Longrightarrow> (ip, d) \<in> set xs \<Longrightarrow> \<not> in_net a (addr ip, cidr ip)"
  using best_match_max by fastforce

lemma best_entry:
  assumes T: "ip_table_laws T" and v: "\<forall>(ip, d) \<in> set xs. valid_allowed ip"
    and b: "best_match a xs = Some (l, e)" and j: "(jp, f) \<in> set xs" "in_net a (addr jp, cidr jp)" "cidr jp = l"
    and n: "new_truncate T (addr jp) (cidr jp) = Some n"
  shows "map_of (rev (nets T xs)) n = Some e"
  using v b j n
proof (induction xs arbitrary: l e jp f n)
  case (Cons x xs)
  obtain ip d where x: "x = (ip, d)" by force
  have v: "\<forall>(ip, d) \<in> set xs. valid_allowed ip" "valid_allowed ip" using Cons.prems(1) by (auto simp: x)
  have step: "map_of (rev (nets T (x # xs))) n = (case map_of (rev (nets T xs)) n of Some g \<Rightarrow> Some g
      | None \<Rightarrow> if the (new_truncate T (addr ip) (cidr ip)) = n then Some d else None)"
    by (auto simp: nets_def x map_add_def split: option.splits)
  have an: "in_net a n" "snd n = l" using in_truncated [OF T Cons.prems(6)] Cons.prems(4,5) by auto
  show ?case
  proof (cases "\<exists>r. best_match a xs = Some r \<and> \<not> (in_net a (addr ip, cidr ip) \<and> fst r < cidr ip)")
    case True
    then have b: "best_match a xs = Some (l, e)" using Cons.prems(2) by (auto simp: x)
    obtain kp where k: "(kp, e) \<in> set xs" "in_net a (addr kp, cidr kp)" "cidr kp = l"
      using best_match_in [OF b] by auto
    have "valid_allowed jp" "valid_allowed kp" using Cons.prems(1,3) k(1) by auto
    from same_net [OF T this(2,1) _ k(2) Cons.prems(4)] have "new_truncate T (addr kp) (cidr kp) = Some n"
      using k(3) Cons.prems(5,6) by simp
    from Cons.IH [OF v(1) b k this] show ?thesis by (simp add: step)
  next
    case False
    have new: "in_net a (addr ip, cidr ip)" "l = cidr ip" "e = d"
      using Cons.prems(2) False by (auto simp: x split: option.splits if_splits)
    have small: "cidr kp < l" if "(kp, g) \<in> set xs" "in_net a (addr kp, cidr kp)" for kp g
      using best_match_max [OF that] False new by fastforce
    have "map_of (rev (nets T xs)) n = None"
    proof (rule ccontr)
      assume "map_of (rev (nets T xs)) n \<noteq> None"
      then obtain g where "map_of (rev (nets T xs)) n = Some g" by blast
      from net_entry [OF T v(1) this] small an show False by (metis less_irrefl)
    qed
    moreover have "(jp, f) = (ip, d)" using Cons.prems(3,4,5) small by (auto simp: x)
    ultimately show ?thesis using Cons.prems(6) new by (simp add: step)
  qed
qed simp

text \<open>
  C8.  The table is a longest prefix match.  Built from a list of allowed addresses, each with a prefix no
  longer than the address, the table is complete without a panic, and a lookup returns the datum of the
  longest prefix that contains the address, the last one given if a prefix occurs more than once.
\<close>

theorem allowed_ips_longest_prefix:
  assumes T: "ip_table_laws T" and v: "\<forall>(ip, d) \<in> set xs. valid_allowed ip"
  shows "\<exists>t. AllowedIps_from_iter T xs = Some t \<and>
    (\<forall>a. AllowedIps_find T t a = map_option snd (best_match a xs))"
proof -
  obtain t where t: "insert_all T (tbl_new T) xs = Some t" using insert_all_total [OF T v] by blast
  have en: "entries T t = map_of (rev (nets T xs))"
    using entries_insert_all [OF T t] ip_table_lawsD(4) [OF T] by simp
  have lm: "case tbl_longest_match T t a of
          None \<Rightarrow> (\<forall>n \<in> dom (entries T t). \<not> in_net a n)
        | Some (n, d) \<Rightarrow> entries T t n = Some d \<and> in_net a n \<and>
            (\<forall>m \<in> dom (entries T t). in_net a m \<longrightarrow> snd m \<le> snd n)" for a
    using ip_table_lawsD(7) [OF T] by blast
  have rep: "\<exists>m. new_truncate T (addr ip) (cidr ip) = Some m \<and> m \<in> dom (entries T t) \<and> in_net a m \<and> snd m = cidr ip"
    if "(ip, d) \<in> set xs" "in_net a (addr ip, cidr ip)" for ip d a
  proof (rule truncate_valid [OF T, of "cidr ip" "addr ip"])
    show "unat (cidr ip) \<le> 8 * length (octets (addr ip))" using v that by (auto simp: valid_allowed_def)
    fix n assume n: "new_truncate T (addr ip) (cidr ip) = Some n"
    show ?thesis using n net_present [OF that(1) n] in_truncated [OF T n] that(2) en by simp
  qed
  have "AllowedIps_find T t a = map_option snd (best_match a xs)" for a
  proof (cases "tbl_longest_match T t a")
    case None
    then have "best_match a xs = None"
      using lm [of a] best_match_in [of a xs] rep by (cases "best_match a xs") (auto, blast)
    with None show ?thesis by (simp add: AllowedIps_find_def)
  next
    case (Some r)
    obtain n d where r: "r = (n, d)" by (cases r)
    have n: "map_of (rev (nets T xs)) n = Some d" "in_net a n"
      "\<And>m. m \<in> dom (entries T t) \<Longrightarrow> in_net a m \<Longrightarrow> snd m \<le> snd n"
      using lm [of a] Some r en by auto
    obtain ip where i: "(ip, d) \<in> set xs" "new_truncate T (addr ip) (cidr ip) = Some n"
      "in_net a (addr ip, cidr ip)" "snd n = cidr ip"
      using net_entry [OF T v n(1)] n(2) by metis
    obtain l e where b: "best_match a xs = Some (l, e)" "cidr ip \<le> l" using best_match_max [OF i(1,3)] by blast
    have "l \<le> cidr ip"
      using best_match_in [OF b(1)] rep n(3) i(4) by metis
    then have "cidr ip = l" using b(2) by simp
    from best_entry [OF T v b(1) i(1,3) this i(2)] n(1) b(1) Some r show ?thesis
      by (simp add: AllowedIps_find_def)
  qed
  with t show ?thesis by (auto simp: AllowedIps_from_iter_def AllowedIps_new_def)
qed

section \<open>A concrete table\<close>

text \<open>An association list with the laws of the library table; it serves the witnesses.\<close>

fun clear_host :: "nat \<Rightarrow> bytes \<Rightarrow> bytes" where
  "clear_host l [] = []"
| "clear_host l (b # bs) =
     (if 8 \<le> l then b # clear_host (l - 8) bs else (b AND NOT (mask (8 - l))) # map (\<lambda>_. 0) bs)"

definition net_of :: "ip_addr \<Rightarrow> u8 \<Rightarrow> net" where
  "net_of a l = (case a of V4 x \<Rightarrow> V4 (clear_host (unat l) x) | V6 x \<Rightarrow> V6 (clear_host (unat l) x), l)"

fun longest :: "ip_addr \<Rightarrow> (net \<times> 'd) list \<Rightarrow> (net \<times> 'd) option" where
  "longest a [] = None"
| "longest a ((n, d) # xs) =
     (case longest a xs of
        Some (m, e) \<Rightarrow> if in_net a n \<and> snd m < snd n then Some (n, d) else Some (m, e)
      | None \<Rightarrow> if in_net a n then Some (n, d) else None)"

definition sample_table :: "((net, 'd) alist, 'd) ip_table" where
  "sample_table =
     \<lparr>new_truncate = (\<lambda>a l. if unat l \<le> 8 * length (octets a) then Some (net_of a l) else None),
      tbl_new = DAList.empty,
      tbl_insert = (\<lambda>t n d. (DAList.lookup t n, DAList.update n d t)),
      tbl_longest_match = (\<lambda>t a. longest a (DAList.impl_of t)),
      tbl_retain = (\<lambda>t f. DAList.filter (\<lambda>(n, d). f n d) t),
      tbl_iter = DAList.impl_of\<rparr>"

lemma length_octet_bits: "length (addr_bits a) = 8 * length (octets a)"
  by (simp add: addr_bits_def length_concat comp_def sum_list_triv)

lemma longest_in: "longest a xs = Some (n, d) \<Longrightarrow> (n, d) \<in> set xs \<and> in_net a n"
proof (induction xs)
  case (Cons x xs)
  obtain m e where x: "x = (m, e)" by (cases x)
  with Cons show ?case by (cases "longest a xs") (auto split: if_splits)
qed simp

lemma longest_max: "(m, e) \<in> set xs \<Longrightarrow> in_net a m \<Longrightarrow> \<exists>n d. longest a xs = Some (n, d) \<and> snd m \<le> snd n"
  by (induction xs) (force split: option.splits)+

abbreviation octet_bits :: "bytes \<Rightarrow> bool list" where
  "octet_bits xs \<equiv> concat (map (\<lambda>b. map (bit b) (rev [0..<8])) xs)"

lemma octet_bits_Cons:
  "take l (octet_bits (b # xs)) =
     (if 8 \<le> l then map (bit b) (rev [0..<8]) @ take (l - 8) (octet_bits xs) else take l (map (bit b) (rev [0..<8])))"
  by simp

lemma top_bits_eq:
  assumes "l < 8"
  shows "take l (map (bit b) (rev [0..<8])) = take l (map (bit c) (rev [0..<8])) \<longleftrightarrow>
    (\<forall>i. 8 - l \<le> i \<and> i < 8 \<longrightarrow> bit b i = bit c i)"
proof -
  have "take l (map f (rev [0..<8])) = map f (rev [8 - l..<8])" for f :: "nat \<Rightarrow> bool"
    by (simp add: take_map take_rev del: upt_conv_Cons upt.simps)
  then show ?thesis by (auto simp del: upt_conv_Cons upt.simps)
qed

lemma all_bits_eq: "map (bit b) (rev [0..<8]) = map (bit c) (rev [0..<8]) \<longleftrightarrow> b = (c :: u8)"
  by (auto simp del: upt_conv_Cons upt.simps intro: bit_word_eqI)

lemma clear_host_bits: "take l (octet_bits (clear_host l xs)) = take l (octet_bits xs)"
proof (induction xs arbitrary: l)
  case (Cons b xs)
  show ?case
  proof (cases "8 \<le> l")
    case True
    then show ?thesis using Cons.IH [of "l - 8"] by simp
  next
    case False
    then have "take l (map (bit (b AND NOT (mask (8 - l)))) (rev [0..<8])) = take l (map (bit b) (rev [0..<8]))"
      by (subst top_bits_eq) (auto simp: bit_simps)
    with False show ?thesis unfolding clear_host.simps by (simp add: octet_bits_Cons del: map_map)
  qed
qed simp

lemma clear_host_eq:
  "length xs = length ys \<Longrightarrow> take l (octet_bits xs) = take l (octet_bits ys) \<Longrightarrow> clear_host l xs = clear_host l ys"
proof (induction xs ys arbitrary: l rule: list_induct2)
  case (Cons b xs d ys)
  show ?case
  proof (cases "8 \<le> l")
    case True
    then have "map (bit b) (rev [0..<8]) = map (bit d) (rev [0..<8]) \<and>
        take (l - 8) (octet_bits xs) = take (l - 8) (octet_bits ys)"
      using Cons.prems by (simp add: octet_bits_Cons)
    then have "b = d" "take (l - 8) (octet_bits xs) = take (l - 8) (octet_bits ys)"
      unfolding all_bits_eq by blast+
    with True Cons.IH show ?thesis by simp
  next
    case False
    then have "take l (map (bit b) (rev [0..<8])) = take l (map (bit d) (rev [0..<8]))"
      using Cons.prems by (simp only: octet_bits_Cons if_False)
    then have "b AND NOT (mask (8 - l)) = d AND NOT (mask (8 - l))"
      using False by (subst (asm) top_bits_eq) (auto intro!: bit_word_eqI simp: bit_simps)
    moreover have "map (\<lambda>_. 0) xs = map (\<lambda>_. 0 :: u8) ys" using Cons.hyps by (simp add: map_replicate_const)
    ultimately show ?thesis using False by simp
  qed
qed simp

lemma length_clear_host [simp]: "length (clear_host l xs) = length xs"
  by (induction l xs rule: clear_host.induct) auto

lemma in_net_of: "in_net a (net_of a l)"
  using clear_host_bits by (auto simp: in_net_def net_of_def addr_bits_def same_family_def split: ip_addr.splits)

lemma net_of_eq: "wf_ip a \<Longrightarrow> wf_ip b \<Longrightarrow> in_net b (a, l) \<Longrightarrow> net_of b l = net_of a l"
  by (cases a; cases b) (auto simp: in_net_def net_of_def addr_bits_def same_family_def intro: clear_host_eq)

lemma map_of_filter_keys:
  "distinct (map fst xs) \<Longrightarrow> map_of (filter (\<lambda>(k, v). f k v) xs) n =
     (case map_of xs n of Some d \<Rightarrow> if f n d then Some d else None | None \<Rightarrow> None)"
proof (induction xs)
  case (Cons x xs)
  then have "map_of xs (fst x) = None" by (simp add: map_of_eq_None_iff)
  with Cons show ?case by (cases x) auto
qed simp

lemma sample_table_laws: "ip_table_laws (sample_table :: ((net, 'd) alist, 'd) ip_table)"
  unfolding ip_table_laws_def
proof (intro conjI allI impI)
  let ?T = "sample_table :: ((net, 'd) alist, 'd) ip_table"
  fix t :: "(net, 'd) alist" and a b :: ip_addr and l :: u8 and n :: net and d :: 'd and f
  show "(new_truncate ?T a l \<noteq> None) = (unat l \<le> 8 * length (octets a))" by (simp add: sample_table_def)
  show "distinct (map fst (tbl_iter ?T t))" "tbl_iter ?T (tbl_new ?T) = []"
    by (simp_all add: sample_table_def DAList.empty.rep_eq)
  show "fst (tbl_insert ?T t n d) = entries ?T t n" by (simp add: sample_table_def DAList.lookup.rep_eq)
  show "entries ?T (snd (tbl_insert ?T t n d)) = (entries ?T t)(n \<mapsto> d)"
    by (simp add: sample_table_def DAList.update.rep_eq update_conv')
  show "entries ?T (tbl_retain ?T t f) n =
        (case entries ?T t n of Some d \<Rightarrow> if f n d then Some d else None | None \<Rightarrow> None)"
    by (simp add: sample_table_def DAList.filter.rep_eq map_of_filter_keys)
  show "case tbl_longest_match ?T t a of
          None \<Rightarrow> (\<forall>n \<in> dom (entries ?T t). \<not> in_net a n)
        | Some (n, d) \<Rightarrow> entries ?T t n = Some d \<and> in_net a n \<and>
            (\<forall>m \<in> dom (entries ?T t). in_net a m \<longrightarrow> snd m \<le> snd n)"
  proof (cases "longest a (DAList.impl_of t)")
    case None
    have "\<not> in_net a m" if "map_of (DAList.impl_of t) m = Some e" for m e
      using longest_max [OF map_of_SomeD [OF that], of a] None by auto
    with None show ?thesis by (auto simp: sample_table_def)
  next
    case (Some r)
    obtain m e where r: "r = (m, e)" by (cases r)
    have "(m, e) \<in> set (DAList.impl_of t)" "in_net a m" using longest_in [of a _ m e] Some r by auto
    moreover have "snd k \<le> snd m" if "map_of (DAList.impl_of t) k = Some g" "in_net a k" for k g
      using longest_max [OF map_of_SomeD [OF that(1)] that(2)] Some r by auto
    ultimately show ?thesis using Some r by (auto simp: sample_table_def)
  qed
  assume n: "new_truncate ?T a l = Some n"
  then show "snd n = l" "in_net a n"
    using in_net_of by (auto simp: sample_table_def net_of_def split: if_splits)
  assume "wf_ip a" "wf_ip b" "in_net b (a, l)"
  with n net_of_eq show "new_truncate ?T b l = Some n"
    by (cases a; cases b) (auto simp: sample_table_def in_net_def same_family_def split: if_splits)
qed

definition sample_allowed :: "(AllowedIP \<times> string) list" where
  "sample_allowed =
     [(\<lparr>addr = V4 [192, 168, 4, 0], cidr = 24\<rparr>, ''a''), (\<lparr>addr = V4 [192, 168, 0, 0], cidr = 16\<rparr>, ''c'')]"

theorem allowed_ips_longest_prefix_witness:
  "\<exists>t. AllowedIps_from_iter sample_table sample_allowed = Some t \<and>
     AllowedIps_find sample_table t (V4 [192, 168, 4, 20]) = Some ''a'' \<and>
     AllowedIps_find sample_table t (V4 [192, 168, 200, 182]) = Some ''c'' \<and>
     AllowedIps_find sample_table t (V4 [10, 0, 0, 1]) = None"
proof -
  have v: "\<forall>(ip, d) \<in> set sample_allowed. valid_allowed ip" by code_simp
  have b: "best_match (V4 [192, 168, 4, 20]) sample_allowed = Some (24, ''a'')"
    "best_match (V4 [192, 168, 200, 182]) sample_allowed = Some (16, ''c'')"
    "best_match (V4 [10, 0, 0, 1]) sample_allowed = None"
    by code_simp+
  from allowed_ips_longest_prefix [OF sample_table_laws v] b show ?thesis by fastforce
qed

end
