(* ===== verification/EventPoll.thy ===== *)
theory EventPoll
  imports Prelude
begin

text \<open>
  The operating system as the device sees it, and the registry of pollable events (\<^verbatim>\<open>device/epoll.rs\<close>).

  A system call is a value of \<open>os_op\<close>.  Its result is the next value the environment supplies, and the
  call is appended to a trace, so that what a function does to the outside is visible.  As in C,
  \<open>-1\<close> is failure.  Nothing is assumed of the results.

  The registry is a vector indexed by file descriptor.  A slot that the source reaches with an index out of
  range, an \<^verbatim>\<open>expect\<close> on an empty slot and a failed \<^verbatim>\<open>assert!\<close> are panics.
\<close>

section \<open>System calls\<close>

datatype os_op =
    EpollCreate
  | EpollAdd int u32
  | EpollMod int u32
  | EpollDel int
  | TimerfdCreate string
  | TimerfdSettime int nat nat
  | Eventfd
  | Signalfd int
  | Close int
  | Dup int
  | WriteEventfd int
  | ReadEventfd int
  | SocketNew string string
  | SetReuseAddress int
  | Bind int bytes u16
  | LocalPort int
  | Connect int bytes u16
  | SetNonblocking int
  | SetMark int u32
  | Shutdown int
  | SendTo int bytes u16 bytes
  | SendConn int bytes
  | WriteTun int bytes
  | Open bytes
  | Ioctl int string bytes
  | GetFlags int
  | SetFlags int int
  | PathExists bytes
  | SetGid int
  | SetUid int
  | KqueueNew
  | Kevent nat int u16 u32 int
  | IgnoreSignal int
  | ConnectUnit int u32
  | IfIndex bytes
  | GetName int
  | CreateDir bytes
  | Chown bytes int int
  | RemoveFile bytes
  | UnixBind bytes
  | ReadFd int
  | SocketPair

record os_world =
  os :: "nat \<Rightarrow> int"
  os_pos :: nat
  trace :: "os_op list"

definition os_call :: "os_op \<Rightarrow> 'a os_world_scheme \<Rightarrow> int \<times> 'a os_world_scheme" where
  "os_call x w = (os w (os_pos w), w\<lparr>os_pos := Suc (os_pos w), trace := trace w @ [x]\<rparr>)"

text \<open>Calls in sequence up to the first that fails, as a chain of \<^verbatim>\<open>?\<close>.\<close>

fun os_all :: "os_op list \<Rightarrow> 'a os_world_scheme \<Rightarrow> bool \<times> 'a os_world_scheme" where
  "os_all [] w = (True, w)"
| "os_all (x # xs) w = (let (r, w) = os_call x w in if r = -1 then (False, w) else os_all xs w)"

section \<open>The registry\<close>

datatype Error =
    IoError | SocketErr | BindErr | FCntl | EventQueue | IOCtl | ConnectErr | SetSockOpt
  | InvalidTunnelName | GetSockOpt | GetSockName | Timer | IfaceRead | DropPrivileges | ApiSocket

definition EPOLLIN :: u32 where "EPOLLIN = 1"
definition EPOLLOUT :: u32 where "EPOLLOUT = 4"
definition EPOLLONESHOT :: u32 where "EPOLLONESHOT = 0x40000000"
definition EPOLLET :: u32 where "EPOLLET = 0x80000000"

record 'h Event =
  ev_flags :: u32
  ev_fd :: int
  ev_handler :: 'h
  ev_notifier :: bool
  ev_needs_read :: bool

record 'h EventPoll =
  events :: "'h Event option list"
  epoll :: int

definition EventPoll_new :: "'a os_world_scheme \<Rightarrow> ('h EventPoll, Error) result \<times> 'a os_world_scheme" where
  "EventPoll_new w =
     (let (r, w) = os_call EpollCreate w
      in if r = -1 then (Err EventQueue, w) else (Ok \<lparr>events = [], epoll = r\<rparr>, w))"

text \<open>\<^verbatim>\<open>fd as usize\<close> on a 64-bit machine.\<close>

definition fd_index :: "int \<Rightarrow> nat" where
  "fd_index fd = nat (fd mod 2 ^ 64)"

definition insert_at ::
  "'h EventPoll \<Rightarrow> nat \<Rightarrow> 'h Event \<Rightarrow> 'a os_world_scheme \<Rightarrow> 'h EventPoll \<times> 'a os_world_scheme" where
  "insert_at q index data w =
     (let es = events q @ replicate (Suc index - length (events q)) None;
          w = (if es ! index \<noteq> None then snd (os_call (EpollDel (int index)) w) else w)
      in (q\<lparr>events := es[index := Some data]\<rparr>, w))"

definition register_event ::
  "'h EventPoll \<Rightarrow> 'h Event \<Rightarrow> 'a os_world_scheme \<Rightarrow> (int, Error) result \<times> 'h EventPoll \<times> 'a os_world_scheme" where
  "register_event q ev w =
     (let trigger = ev_fd ev;
          (q, w) = insert_at q (fd_index trigger) ev w;
          (r, w) = os_call (EpollAdd trigger (ev_flags ev)) w
      in if r = -1 then (Err EventQueue, q, w) else (Ok trigger, q, w))"

definition new_event ::
  "'h EventPoll \<Rightarrow> int \<Rightarrow> 'h \<Rightarrow> 'a os_world_scheme \<Rightarrow> (int, Error) result \<times> 'h EventPoll \<times> 'a os_world_scheme" where
  "new_event q trigger handler w =
     register_event q \<lparr>ev_flags = EPOLLIN OR EPOLLONESHOT, ev_fd = trigger, ev_handler = handler,
       ev_notifier = False, ev_needs_read = False\<rparr> w"

definition new_write_event ::
  "'h EventPoll \<Rightarrow> int \<Rightarrow> 'h \<Rightarrow> 'a os_world_scheme \<Rightarrow> (int, Error) result \<times> 'h EventPoll \<times> 'a os_world_scheme" where
  "new_write_event q trigger handler w =
     register_event q \<lparr>ev_flags = EPOLLOUT OR EPOLLET OR EPOLLONESHOT, ev_fd = trigger, ev_handler = handler,
       ev_notifier = False, ev_needs_read = False\<rparr> w"

definition new_periodic_event ::
  "'h EventPoll \<Rightarrow> 'h \<Rightarrow> nat \<times> nat \<Rightarrow> 'a os_world_scheme
     \<Rightarrow> (int, Error) result \<times> 'h EventPoll \<times> 'a os_world_scheme" where
  "new_periodic_event q handler period w =
     (let (r, w) = os_call (TimerfdCreate ''CLOCK_BOOTTIME'') w;
          (tfd, w) = (if r = -1 then os_call (TimerfdCreate ''CLOCK_MONOTONIC'') w else (r, w))
      in if tfd = -1 then (Err Timer, q, w)
         else let (r, w) = os_call (TimerfdSettime tfd (fst period) (snd period)) w
         in if r = -1 then let (_, w) = os_call (Close tfd) w in (Err Timer, q, w)
            else register_event q \<lparr>ev_flags = EPOLLIN OR EPOLLONESHOT, ev_fd = tfd, ev_handler = handler,
              ev_notifier = False, ev_needs_read = True\<rparr> w)"

definition new_notifier ::
  "'h EventPoll \<Rightarrow> 'h \<Rightarrow> 'a os_world_scheme \<Rightarrow> (int, Error) result \<times> 'h EventPoll \<times> 'a os_world_scheme" where
  "new_notifier q handler w =
     (let (efd, w) = os_call Eventfd w
      in if efd = -1 then (Err EventQueue, q, w)
         else register_event q \<lparr>ev_flags = EPOLLIN, ev_fd = efd, ev_handler = handler,
           ev_notifier = True, ev_needs_read = False\<rparr> w)"

definition new_signal_event ::
  "'h EventPoll \<Rightarrow> int \<Rightarrow> 'h \<Rightarrow> 'a os_world_scheme \<Rightarrow> (int, Error) result \<times> 'h EventPoll \<times> 'a os_world_scheme" where
  "new_signal_event q signal handler w =
     (let (sfd, w) = os_call (Signalfd signal) w
      in if sfd = -1 then (Err EventQueue, q, w)
         else register_event q \<lparr>ev_flags = EPOLLIN OR EPOLLONESHOT, ev_fd = sfd, ev_handler = handler,
           ev_notifier = False, ev_needs_read = True\<rparr> w)"

definition slot :: "'h EventPoll \<Rightarrow> nat \<Rightarrow> 'h Event option panics" where
  "slot q i = (if i < length (events q) then Some (events q ! i) else None)"

definition trigger_notification :: "'h EventPoll \<Rightarrow> int \<Rightarrow> 'a os_world_scheme \<Rightarrow> 'a os_world_scheme panics" where
  "trigger_notification q ref w = do {
     event_ref \<leftarrow> slot q (fd_index ref);
     event_data \<leftarrow> event_ref;
     if ev_notifier event_data then Some (snd (os_call (WriteEventfd ref) w)) else None
   }"

definition stop_notification :: "'h EventPoll \<Rightarrow> int \<Rightarrow> 'a os_world_scheme \<Rightarrow> 'a os_world_scheme panics" where
  "stop_notification q ref w = do {
     event_ref \<leftarrow> slot q (fd_index ref);
     event_data \<leftarrow> event_ref;
     if ev_notifier event_data then Some (snd (os_call (ReadEventfd ref) w)) else None
   }"

definition clear_event_by_fd ::
  "'h EventPoll \<Rightarrow> int \<Rightarrow> 'a os_world_scheme \<Rightarrow> ('h EventPoll \<times> 'a os_world_scheme) panics" where
  "clear_event_by_fd q index w =
     (if index < 0 then None
      else do {
        old \<leftarrow> slot q (nat index);
        Some (q\<lparr>events := (events q)[nat index := None]\<rparr>,
              if old \<noteq> None then snd (os_call (EpollDel index) w) else w)
      })"

definition notify_writable :: "'h Event \<Rightarrow> bool \<Rightarrow> 'h Event" where
  "notify_writable ev enabled =
     ev\<lparr>ev_flags := (if enabled then EPOLLOUT OR EPOLLIN OR EPOLLET OR EPOLLONESHOT
                     else EPOLLIN OR EPOLLONESHOT)\<rparr>"

section \<open>Waiting\<close>

text \<open>
  What \<^verbatim>\<open>epoll_wait\<close> reports: an error, or the descriptor of a registered event and whether the other side hung
  up.  The pointer to the event that the kernel hands back is the event registered under the descriptor.
\<close>

datatype wait_report = WaitFailed | Triggered int bool

datatype 'h WaitResult = WaitOk "'h Event" | WaitEoF "'h Event" | WaitError

definition wait :: "'h EventPoll \<Rightarrow> wait_report \<Rightarrow> 'h WaitResult panics" where
  "wait q report =
     (case report of
        WaitFailed \<Rightarrow> Some WaitError
      | Triggered fd hup \<Rightarrow> do {
          event_data \<leftarrow> slot q (fd_index fd);
          event_data \<leftarrow> event_data;
          Some (if hup then WaitEoF event_data else WaitOk event_data)
        })"

text \<open>Dropping the guard of an event: read it until there is nothing left, then enable it again.\<close>

partial_function (option) drain :: "int \<Rightarrow> 'a os_world_scheme \<Rightarrow> 'a os_world_scheme option" where
  "drain fd w = (let (r, w) = os_call (ReadFd fd) w in if r = -1 then Some w else drain fd w)"

definition guard_drop :: "'h Event \<Rightarrow> 'a os_world_scheme \<Rightarrow> 'a os_world_scheme option" where
  "guard_drop ev w = do {
     w \<leftarrow> (if ev_needs_read ev then drain (ev_fd ev) w else Some w);
     Some (snd (os_call (EpollMod (ev_fd ev) (ev_flags ev)) w))
   }"

definition guard_cancel ::
  "'h EventPoll \<Rightarrow> 'h Event \<Rightarrow> 'a os_world_scheme \<Rightarrow> ('h EventPoll \<times> 'a os_world_scheme) panics" where
  "guard_cancel q ev w = clear_event_by_fd q (ev_fd ev) w"

section \<open>The registry as a map\<close>

text \<open>What the registry holds for a descriptor, and how the operations change it.\<close>

text \<open>Emptying a descriptor ends as soon as a read fails.\<close>

lemma drain_returns: "os w (os_pos w + n) = -1 \<Longrightarrow> drain fd w \<noteq> None"
proof (induction n arbitrary: w)
  case 0
  then show ?case by (subst drain.simps) (simp add: os_call_def)
next
  case (Suc n)
  have "drain fd (snd (os_call (ReadFd fd) w)) \<noteq> None" by (rule Suc.IH) (use Suc.prems in \<open>simp add: os_call_def\<close>)
  then show ?case by (subst drain.simps) (simp add: Let_def split_beta)
qed

definition registered :: "'h EventPoll \<Rightarrow> int \<Rightarrow> 'h Event option" where
  "registered q fd = (if fd_index fd < length (events q) then events q ! fd_index fd else None)"

lemma registered_insert_at:
  "registered (fst (insert_at q i ev w)) fd = (if fd_index fd = i then Some ev else registered q fd)"
  by (auto simp: registered_def insert_at_def Let_def nth_append)

lemma registered_register:
  assumes "register_event q ev w = (r, q', w')"
  shows "registered q' fd = (if fd_index fd = fd_index (ev_fd ev) then Some ev else registered q fd)"
proof -
  have "q' = fst (insert_at q (fd_index (ev_fd ev)) ev w)"
    using assms by (auto simp: register_event_def Let_def split: prod.splits if_splits)
  then show ?thesis by (simp add: registered_insert_at)
qed

lemma notification_iff:
  "trigger_notification q ref w \<noteq> None \<longleftrightarrow> (\<exists>ev. registered q ref = Some ev \<and> ev_notifier ev)"
  "stop_notification q ref w \<noteq> None \<longleftrightarrow> (\<exists>ev. registered q ref = Some ev \<and> ev_notifier ev)"
  by (auto simp: trigger_notification_def stop_notification_def slot_def registered_def split: option.splits
      bind_splits if_splits)

section \<open>Later registrations\<close>

text \<open>One more registration or removal, on any descriptor but \<open>ref\<close>.\<close>

inductive registry_step :: "int \<Rightarrow> 'h EventPoll \<Rightarrow> 'h EventPoll \<Rightarrow> bool" for ref where
  step_register: "register_event q ev (w :: os_world) = (r, q', w') \<Longrightarrow> fd_index (ev_fd ev) \<noteq> fd_index ref \<Longrightarrow>
    registry_step ref q q'"
| step_clear: "clear_event_by_fd q fd (w :: os_world) = Some (q', w') \<Longrightarrow> nat fd \<noteq> fd_index ref \<Longrightarrow> registry_step ref q q'"

inductive_cases registry_stepE: "registry_step ref q q'"

lemma registered_clear:
  assumes "clear_event_by_fd q fd w = Some (q', w')" "fd_index fd' \<noteq> nat fd"
  shows "registered q' fd' = registered q fd'"
  using assms by (auto simp: clear_event_by_fd_def slot_def registered_def split: if_splits)

lemma registry_step_keeps: "registry_step ref q q' \<Longrightarrow> registered q' ref = registered q ref"
  by (erule registry_stepE) (simp_all add: registered_register registered_clear)

lemma new_notifier_registers:
  assumes "new_notifier q h w = (Ok ref, q1, w1)"
  shows "\<exists>ev. registered q1 ref = Some ev \<and> ev_notifier ev"
proof -
  define ev where "ev = \<lparr>ev_flags = EPOLLIN, ev_fd = fst (os_call Eventfd w), ev_handler = h,
    ev_notifier = True, ev_needs_read = False\<rparr>"
  have r: "register_event q ev (snd (os_call Eventfd w)) = (Ok ref, q1, w1)"
    using assms by (auto simp: new_notifier_def ev_def Let_def split: prod.splits if_splits)
  moreover have "ref = ev_fd ev"
    using r by (auto simp: register_event_def Let_def split: prod.splits if_splits)
  ultimately show ?thesis by (simp add: registered_register ev_def)
qed

interpretation epn: notifier_registry "\<lambda>q ref. \<exists>ev. registered q ref = Some ev \<and> ev_notifier ev" "\<lambda>_. True"
  new_notifier trigger_notification stop_notification registry_step
  by unfold_locales (blast intro: new_notifier_registers, metis registry_step_keeps, use notification_iff in blast)

text \<open>
  C35.  A notifier stays usable.  Once \<^verbatim>\<open>new_notifier\<close> has returned a reference, \<^verbatim>\<open>trigger_notification\<close> and
  \<^verbatim>\<open>stop_notification\<close> on it never panic, whatever events are registered or removed under other
  descriptors in between.
\<close>

theorem notifier_stays_usable:
  assumes "new_notifier q h w = (Ok ref, q1, w1)" "(registry_step ref)\<^sup>*\<^sup>* q1 q2"
  shows "trigger_notification q2 ref w2 \<noteq> None \<and> stop_notification q2 ref w2 \<noteq> None"
  by (rule epn.stays_usable [OF TrueI assms])

definition sample_os :: os_world where
  "sample_os = \<lparr>os = int, os_pos = 3, trace = []\<rparr>"

theorem notifier_stays_usable_witness:
  "\<exists>q1 w1 r q2 w2. new_notifier \<lparr>events = [], epoll = 0\<rparr> () sample_os = (Ok 3, q1, w1) \<and>
     new_event q1 9 () w1 = (r, q2, w2) \<and> trigger_notification q2 3 w2 \<noteq> None"
proof -
  obtain q1 w1 where n: "new_notifier \<lparr>events = [], epoll = 0\<rparr> () sample_os = (Ok 3, q1, w1)"
    by (auto simp: new_notifier_def register_event_def insert_at_def os_call_def sample_os_def fd_index_def Let_def)
  obtain r q2 w2 where e: "new_event q1 9 () w1 = (r, q2, w2)" by (metis prod_cases3)
  have "registry_step 3 q1 q2"
    by (rule step_register [OF e [unfolded new_event_def]]) (simp add: fd_index_def)
  with notifier_stays_usable [OF n r_into_rtranclp, of q2 w2] n e show ?thesis by blast
qed

end
