(* ===== verification/Peer.thy ===== *)
theory Peer
  imports Tunn NetParse AllowedIps EventPoll
begin

text \<open>
  A peer of the device (\<^verbatim>\<open>device/peer.rs\<close>): its tunnel, its endpoint and the addresses it may use.
  Sockets are file descriptors; every call on them is a system call of the environment.  The locks around the
  endpoint protect single operations and are not modelled.
\<close>

record Endpoint =
  ep_addr :: "socket_addr option"
  ep_conn :: "int option"

record 'u Peer =
  tunnel :: Tunn
  peer_idx :: u32
  endpoint :: Endpoint
  allowed_ips :: 'u
  preshared_key :: "bytes option"

definition AllowedIP_from_str :: "bytes \<Rightarrow> AllowedIP option" where
  "AllowedIP_from_str s =
     (let ip = split_on 47 s
      in if length ip \<noteq> 2 then None
         else case (parse_ip_addr (ip ! 0), parse_u8 (ip ! 1)) of
           (Some (V4 a), Some c) \<Rightarrow> if c \<le> 32 then Some \<lparr>addr = V4 a, cidr = c\<rparr> else None
         | (Some (V6 a), Some c) \<Rightarrow> if c \<le> 128 then Some \<lparr>addr = V6 a, cidr = c\<rparr> else None
         | _ \<Rightarrow> None)"

definition Peer_new ::
  "('u, unit) ip_table \<Rightarrow> Tunn \<Rightarrow> u32 \<Rightarrow> socket_addr option \<Rightarrow> AllowedIP list \<Rightarrow> bytes option \<Rightarrow> 'u Peer panics" where
  "Peer_new T tunn index ep ips psk = do {
     table \<leftarrow> AllowedIps_from_iter T (map (\<lambda>ip. (ip, ())) ips);
     Some \<lparr>tunnel = tunn, peer_idx = index, endpoint = \<lparr>ep_addr = ep, ep_conn = None\<rparr>,
           allowed_ips = table, preshared_key = psk\<rparr>
   }"

definition Peer_update_timers ::
  "crypto \<Rightarrow> 'u Peer \<Rightarrow> nat \<Rightarrow> tunn_world \<Rightarrow> (TunnResult \<times> 'u Peer \<times> tunn_world) panics" where
  "Peer_update_timers c p dst_len w = do {
     (r, t, w) \<leftarrow> update_timers c (tunnel p) dst_len w;
     Some (r, p\<lparr>tunnel := t\<rparr>, w)
   }"

text \<open>\<^verbatim>\<open>conn.shutdown(..).unwrap()\<close>, after which the socket is dropped and closed.\<close>

definition drop_conn :: "int \<Rightarrow> 'a os_world_scheme \<Rightarrow> 'a os_world_scheme panics" where
  "drop_conn conn w =
     (let (r, w) = os_call (Shutdown conn) w
      in if r = -1 then None else Some (snd (os_call (Close conn) w)))"

definition shutdown_endpoint :: "'u Peer \<Rightarrow> 'a os_world_scheme \<Rightarrow> ('u Peer \<times> 'a os_world_scheme) panics" where
  "shutdown_endpoint p w =
     (case ep_conn (endpoint p) of
        Some conn \<Rightarrow> do {
          w \<leftarrow> drop_conn conn w;
          Some (p\<lparr>endpoint := (endpoint p)\<lparr>ep_conn := None\<rparr>\<rparr>, w)
        }
      | None \<Rightarrow> Some (p, w))"

definition set_endpoint ::
  "'u Peer \<Rightarrow> socket_addr \<Rightarrow> 'a os_world_scheme \<Rightarrow> (bool \<times> 'u Peer \<times> 'a os_world_scheme) panics" where
  "set_endpoint p a w =
     (if ep_addr (endpoint p) \<noteq> Some a then do {
        w \<leftarrow> (case ep_conn (endpoint p) of Some conn \<Rightarrow> drop_conn conn w | None \<Rightarrow> Some w);
        Some (True, p\<lparr>endpoint := \<lparr>ep_addr = Some a, ep_conn = None\<rparr>\<rparr>, w)
      } else Some (False, p, w))"

definition connect_endpoint ::
  "'u Peer \<Rightarrow> u16 \<Rightarrow> u32 option \<Rightarrow> 'a os_world_scheme
     \<Rightarrow> ((int, Error) result \<times> 'u Peer \<times> 'a os_world_scheme) panics" where
  "connect_endpoint p port mark w =
     (if ep_conn (endpoint p) \<noteq> None then Some (Err ConnectErr, p, w)
      else do {
        a \<leftarrow> ep_addr (endpoint p);
        let (udp_conn, w) = os_call (SocketNew (if is_ipv4 a then ''IPV4'' else ''IPV6'') ''STREAM'') w;
        if udp_conn = -1 then Some (Err IoError, p, w)
        else
          let bind_addr = (if is_ipv4 a then replicate 4 0 else replicate 16 0);
              (ok, w) = os_all
                ([SetReuseAddress udp_conn, Bind udp_conn bind_addr port,
                  Connect udp_conn (sock_octets a) (sock_port a), SetNonblocking udp_conn]
                 @ (case mark of Some m \<Rightarrow> [SetMark udp_conn m] | None \<Rightarrow> [])) w
          in if \<not> ok then Some (Err IoError, p, snd (os_call (Close udp_conn) w))
             else let (conn, w) = os_call (Dup udp_conn) w
             in if conn = -1 then None
                else Some (Ok udp_conn, p\<lparr>endpoint := (endpoint p)\<lparr>ep_conn := Some conn\<rparr>\<rparr>, w)
      })"

definition is_allowed_ip :: "('u, unit) ip_table \<Rightarrow> 'u Peer \<Rightarrow> ip_addr \<Rightarrow> bool" where
  "is_allowed_ip T p a = (AllowedIps_find T (allowed_ips p) a \<noteq> None)"

definition Peer_allowed_ips :: "('u, unit) ip_table \<Rightarrow> 'u Peer \<Rightarrow> (ip_addr \<times> u8) list" where
  "Peer_allowed_ips T p = map (\<lambda>(_, ip, c). (ip, c)) (AllowedIps_iter T (allowed_ips p))"

definition Peer_time_since_last_handshake ::
  "'u Peer \<Rightarrow> tunn_world \<Rightarrow> (duration option \<times> tunn_world) panics" where
  "Peer_time_since_last_handshake p w = time_since_last_handshake (tunnel p) w"

definition Peer_last_handshake_time :: "'u Peer \<Rightarrow> tunn_world \<Rightarrow> (duration option \<times> tunn_world) panics" where
  "Peer_last_handshake_time p w = last_handshake_time (tunnel p) w"

definition Peer_persistent_keepalive :: "'u Peer \<Rightarrow> u16 option" where
  "Peer_persistent_keepalive p = persistent_keepalive (tunnel p)"

section \<open>Allowed addresses\<close>

lemma parsed_allowed_valid:
  assumes "AllowedIP_from_str s = Some ip"
  shows "valid_allowed ip"
proof -
  have "unat c \<le> 32" if "c \<le> (32 :: u8)" for c using that by (simp add: word_le_nat_alt)
  moreover have "unat c \<le> 128" if "c \<le> (128 :: u8)" for c using that by (simp add: word_le_nat_alt)
  ultimately show ?thesis
    using assms parse_ip_wf [of "split_on 47 s ! 0"]
    by (auto simp: AllowedIP_from_str_def valid_allowed_def Let_def split: option.splits ip_addr.splits if_splits)
qed

end
