(* ===== verification/Device.thy ===== *)
theory Device
  imports Peer Serialization
begin

text \<open>
  The device (\<^verbatim>\<open>device/mod.rs\<close>): its configuration operations and its event handlers.

  \<^item> An \<^verbatim>\<open>Arc<Mutex<Peer>>\<close> is a position in \<open>peer_store\<close>, so the three tables of the device and the handlers
    of connected sockets share the peer they point to.
  \<^item> The table of peers is an association list.  The order in which a \<^verbatim>\<open>HashMap\<close> is iterated is
    unspecified; it is the parameter \<open>hash_order\<close>.
  \<^item> A handler is a value of \<open>Handler\<close> in the event registry.  Running one is a function of the packets
    waiting on its descriptor, given as a list that ends where the descriptor would block.
  \<^item> The tunnel interface is its descriptor and its name.
  \<^item> Packets sent and written are system calls in the trace of the environment; their results are ignored, as
    in the source.
\<close>

section \<open>Peer indices\<close>

record IndexLfsr =
  lfsr_initial :: u32
  lfsr :: u32
  lfsr_mask :: u32

definition LFSR_MAX :: u32 where "LFSR_MAX = 0xffffff"
definition LFSR_POLY :: u32 where "LFSR_POLY = 0xd80000"

partial_function (option) random_index :: "'w world_scheme \<Rightarrow> (u32 \<times> 'w world_scheme) option" where
  "random_index w =
     (let (r, w) = OsRng_next_u32 w; i = r AND LFSR_MAX
      in if 0 < i then Some (i, w) else random_index w)"

definition IndexLfsr_next :: "IndexLfsr \<Rightarrow> (u32 \<times> IndexLfsr) panics" where
  "IndexLfsr_next s =
     (let value = lfsr s - 1;
          l = drop_bit 1 (lfsr s) XOR ((0 - (lfsr s AND 1)) AND LFSR_POLY)
      in if l = lfsr_initial s then None
         else Some (value XOR lfsr_mask s, s\<lparr>lfsr := l\<rparr>))"

definition IndexLfsr_default :: "'w world_scheme \<Rightarrow> (IndexLfsr \<times> 'w world_scheme) panics" where
  "IndexLfsr_default w = do {
     (seed, w) \<leftarrow> random_index w;
     (m, w) \<leftarrow> random_index w;
     Some (\<lparr>lfsr_initial = seed, lfsr = seed, lfsr_mask = m\<rparr>, w)
   }"

section \<open>State\<close>

definition HANDSHAKE_RATE_LIMIT :: u64 where "HANDSHAKE_RATE_LIMIT = 100"
definition MAX_UDP_SIZE :: nat where "MAX_UDP_SIZE = 65535"
definition MAX_ITR :: nat where "MAX_ITR = 100"

datatype Action = Continue | Yield | Exit

datatype Handler =
    YieldNotice
  | ExitNotice
  | LimiterTimer
  | PeersTimer
  | UdpHandler int
  | ConnHandler nat int ip_addr
  | IfaceHandler int
  | ApiListener int
  | ApiFd int
  | MonitorTimer bytes
  | SignalExit

record DeviceConfig =
  n_threads :: nat
  use_connected_socket :: bool
  use_multi_queue :: bool
  cfg_uapi_fd :: int

definition DeviceConfig_default :: DeviceConfig where
  "DeviceConfig_default =
     \<lparr>n_threads = 4, use_connected_socket = True, use_multi_queue = True, cfg_uapi_fd = -1\<rparr>"

record 'p Device =
  key_pair :: "(bytes \<times> bytes) option"
  queue :: "Handler EventPoll"
  listen_port :: u16
  fwmark :: "u32 option"
  iface :: int
  iface_name :: bytes
  udp4 :: "int option"
  udp6 :: "int option"
  yield_notice :: "int option"
  exit_notice :: "int option"
  peers :: "(bytes \<times> nat) list"
  peers_by_ip :: 'p
  peers_by_idx :: "u32 \<Rightarrow> nat option"
  next_idx :: IndexLfsr
  dev_config :: DeviceConfig
  mtu :: nat
  dev_rate_limiter :: "nat option"
  cleanup_paths :: "bytes list"

record 'u dev_world = os_world +
  tw :: tunn_world
  peer_store :: "'u Peer list"

text \<open>The libraries the device calls.\<close>

record ('u, 'p) libs =
  lib_crypto :: crypto
  lib_base64 :: base64
  peer_table :: "('u, unit) ip_table"
  dev_table :: "('p, nat) ip_table"
  hash_order :: "(bytes \<times> nat) list \<Rightarrow> (bytes \<times> nat) list"

definition put_peer :: "nat \<Rightarrow> 'u Peer \<Rightarrow> 'u dev_world \<Rightarrow> 'u dev_world" where
  "put_peer i p w = w\<lparr>peer_store := (peer_store w)[i := p]\<rparr>"

definition Device_init :: "('u, 'p) libs \<Rightarrow> Handler EventPoll \<Rightarrow> int \<Rightarrow> bytes \<Rightarrow> nat \<Rightarrow> DeviceConfig \<Rightarrow> IndexLfsr \<Rightarrow> 'p Device" where
  "Device_init L poll ifc name m conf l =
     \<lparr>key_pair = None, queue = poll, listen_port = 0, fwmark = None, iface = ifc, iface_name = name, udp4 = None, udp6 = None,
      yield_notice = None, exit_notice = None, peers = [], peers_by_ip = AllowedIps_new (dev_table L),
      peers_by_idx = (\<lambda>_. None), next_idx = l, dev_config = conf, mtu = m, dev_rate_limiter = None, cleanup_paths = []\<rparr>"

section \<open>Configuration\<close>

definition dev_next_index :: "'p Device \<Rightarrow> (u32 \<times> 'p Device) panics" where
  "dev_next_index d = do {
     (i, l) \<leftarrow> IndexLfsr_next (next_idx d);
     Some (i, d\<lparr>next_idx := l\<rparr>)
   }"

definition remove_peer ::
  "('u, 'p) libs \<Rightarrow> 'p Device \<Rightarrow> bytes \<Rightarrow> 'u dev_world \<Rightarrow> ('p Device \<times> 'u dev_world) panics" where
  "remove_peer L d pub_key w =
     (case map_of (peers d) pub_key of
        Some peer \<Rightarrow> do {
          let d = d\<lparr>peers := filter (\<lambda>(k, _). k \<noteq> pub_key) (peers d)\<rparr>;
          (p, w) \<leftarrow> shutdown_endpoint (peer_store w ! peer) w;
          let w = put_peer peer p w;
          let d = d\<lparr>peers_by_idx := (peers_by_idx d)(peer_idx p := None)\<rparr>;
          Some (d\<lparr>peers_by_ip := AllowedIps_remove (dev_table L) (peers_by_ip d) (\<lambda>p. p = peer)\<rparr>, w)
        }
      | None \<Rightarrow> Some (d, w))"

definition update_peer ::
  "('u, 'p) libs \<Rightarrow> 'p Device \<Rightarrow> bytes \<Rightarrow> bool \<Rightarrow> bool \<Rightarrow> socket_addr option \<Rightarrow> AllowedIP list \<Rightarrow> u16 option
     \<Rightarrow> bytes option \<Rightarrow> 'u dev_world \<Rightarrow> ('p Device \<times> 'u dev_world) panics" where
  "update_peer L d pub_key remove replace_ips ep ips keepalive psk w =
     (if remove then remove_peer L d pub_key w
      else if map_of (peers d) pub_key \<noteq> None then None
      else do {
        (next, d) \<leftarrow> dev_next_index d;
        case key_pair d of
          None \<Rightarrow> Some (d, w)
        | Some device_key_pair \<Rightarrow> do {
            (tunn, w') \<leftarrow> Tunn_new (lib_crypto L) (fst device_key_pair) pub_key psk keepalive next None (tw w);
            p \<leftarrow> Peer_new (peer_table L) tunn next ep ips psk;
            let peer = length (peer_store w);
            let w = w\<lparr>tw := w', peer_store := peer_store w @ [p]\<rparr>;
            let d = d\<lparr>peers := (pub_key, peer) # peers d,
                      peers_by_idx := (peers_by_idx d)(next := Some peer)\<rparr>;
            t \<leftarrow> insert_all (dev_table L) (peers_by_ip d) (map (\<lambda>ip. (ip, peer)) ips);
            Some (d\<lparr>peers_by_ip := t\<rparr>, w)
          }
      })"

text \<open>
  Clearing the peers drops the references of the three tables.  A connected socket of a peer has a handler, which holds
  a reference as well, so the peer and its socket live on and nothing is closed here.  The one exception, a socket whose
  handler was cancelled at the end of its stream, is left out.
\<close>

definition clear_peers :: "('u, 'p) libs \<Rightarrow> 'p Device \<Rightarrow> 'p Device" where
  "clear_peers L d =
     d\<lparr>peers := [], peers_by_idx := (\<lambda>_. None), peers_by_ip := AllowedIps_clear (dev_table L) (peers_by_ip d)\<rparr>"

fun rekey_peers :: "crypto \<Rightarrow> bytes \<Rightarrow> bytes \<Rightarrow> nat \<Rightarrow> (bytes \<times> nat) list \<Rightarrow> 'u dev_world \<Rightarrow> 'u dev_world panics" where
  "rekey_peers c sk pk limiter [] w = Some w"
| "rekey_peers c sk pk limiter ((_, i) # ps) w = do {
     let p = peer_store w ! i;
     (t, w') \<leftarrow> Tunn_set_static_private c (tunnel p) sk pk (Some limiter) (tw w);
     rekey_peers c sk pk limiter ps (put_peer i (p\<lparr>tunnel := t\<rparr>) (w\<lparr>tw := w'\<rparr>))
   }"

definition set_key :: "('u, 'p) libs \<Rightarrow> 'p Device \<Rightarrow> bytes \<Rightarrow> 'u dev_world \<Rightarrow> ('p Device \<times> 'u dev_world) panics" where
  "set_key L d private_key w =
     (let c = lib_crypto L;
          public_key = x25519_public c private_key
      in if Some public_key = map_option snd (key_pair d) then Some (d, w)
         else
           let (rl, w') = RateLimiter_new c public_key HANDSHAKE_RATE_LIMIT (tw w);
               (limiter, w') = Arc_new rl w'
           in do {
             w \<leftarrow> rekey_peers c private_key public_key limiter (hash_order L (peers d)) (w\<lparr>tw := w'\<rparr>);
             Some (d\<lparr>key_pair := Some (private_key, public_key), dev_rate_limiter := Some limiter\<rparr>, w)
           })"

definition conns :: "('u, 'p) libs \<Rightarrow> 'p Device \<Rightarrow> 'u dev_world \<Rightarrow> int list" where
  "conns L d w =
     concat (map (\<lambda>(_, i). case ep_conn (endpoint (peer_store w ! i)) of Some s \<Rightarrow> [s] | None \<Rightarrow> [])
       (hash_order L (peers d)))"

definition set_fwmark ::
  "('u, 'p) libs \<Rightarrow> 'p Device \<Rightarrow> u32 \<Rightarrow> 'u dev_world \<Rightarrow> (unit, Error) result \<times> 'p Device \<times> 'u dev_world" where
  "set_fwmark L d mark w =
     (let d = d\<lparr>fwmark := Some mark\<rparr>;
          socks = (case udp4 d of Some s \<Rightarrow> [s] | None \<Rightarrow> []) @ (case udp6 d of Some s \<Rightarrow> [s] | None \<Rightarrow> []) @ conns L d w;
          (ok, w) = os_all (map (\<lambda>s. SetMark s mark) socks) w
      in (if ok then Ok () else Err IoError, d, w))"

section \<open>Registration\<close>

definition register_notifiers :: "'p Device \<Rightarrow> 'u dev_world \<Rightarrow> (unit, Error) result \<times> 'p Device \<times> 'u dev_world" where
  "register_notifiers d w =
     (case new_notifier (queue d) YieldNotice w of
        (Err e, q, w) \<Rightarrow> (Err e, d\<lparr>queue := q\<rparr>, w)
      | (Ok yield_ev, q, w) \<Rightarrow>
          (let d = d\<lparr>queue := q, yield_notice := Some yield_ev\<rparr>
           in case new_notifier (queue d) ExitNotice w of
                (Err e, q, w) \<Rightarrow> (Err e, d\<lparr>queue := q\<rparr>, w)
              | (Ok exit_ev, q, w) \<Rightarrow> (Ok (), d\<lparr>queue := q, exit_notice := Some exit_ev\<rparr>, w)))"

definition register_timers :: "'p Device \<Rightarrow> 'u dev_world \<Rightarrow> (unit, Error) result \<times> 'p Device \<times> 'u dev_world" where
  "register_timers d w =
     (case new_periodic_event (queue d) LimiterTimer (1, 0) w of
        (Err e, q, w) \<Rightarrow> (Err e, d\<lparr>queue := q\<rparr>, w)
      | (Ok _, q, w) \<Rightarrow>
          (let d = d\<lparr>queue := q\<rparr>
           in case new_periodic_event (queue d) PeersTimer (1, 0) w of
                (Err e, q, w) \<Rightarrow> (Err e, d\<lparr>queue := q\<rparr>, w)
              | (Ok _, q, w) \<Rightarrow> (Ok (), d\<lparr>queue := q\<rparr>, w)))"

definition trigger_yield :: "'p Device \<Rightarrow> 'u dev_world \<Rightarrow> 'u dev_world panics" where
  "trigger_yield d w = do { r \<leftarrow> yield_notice d; trigger_notification (queue d) r w }"

definition trigger_exit :: "'p Device \<Rightarrow> 'u dev_world \<Rightarrow> 'u dev_world panics" where
  "trigger_exit d w = do { r \<leftarrow> exit_notice d; trigger_notification (queue d) r w }"

definition cancel_yield :: "'p Device \<Rightarrow> 'u dev_world \<Rightarrow> 'u dev_world panics" where
  "cancel_yield d w = do { r \<leftarrow> yield_notice d; stop_notification (queue d) r w }"

definition register_udp_handler ::
  "'p Device \<Rightarrow> int \<Rightarrow> 'u dev_world \<Rightarrow> (unit, Error) result \<times> 'p Device \<times> 'u dev_world" where
  "register_udp_handler d udp w =
     (let (r, q, w) = new_event (queue d) udp (UdpHandler udp) w
      in (case r of Ok _ \<Rightarrow> Ok () | Err e \<Rightarrow> Err e, d\<lparr>queue := q\<rparr>, w))"

definition register_conn_handler ::
  "'p Device \<Rightarrow> nat \<Rightarrow> int \<Rightarrow> ip_addr \<Rightarrow> 'u dev_world \<Rightarrow> (unit, Error) result \<times> 'p Device \<times> 'u dev_world" where
  "register_conn_handler d peer udp peer_addr w =
     (let (r, q, w) = new_event (queue d) udp (ConnHandler peer udp peer_addr) w
      in (case r of Ok _ \<Rightarrow> Ok () | Err e \<Rightarrow> Err e, d\<lparr>queue := q\<rparr>, w))"

definition register_iface_handler ::
  "'p Device \<Rightarrow> int \<Rightarrow> 'u dev_world \<Rightarrow> (unit, Error) result \<times> 'p Device \<times> 'u dev_world" where
  "register_iface_handler d ifc w =
     (let (r, q, w) = new_event (queue d) ifc (IfaceHandler ifc) w
      in (case r of Ok _ \<Rightarrow> Ok () | Err e \<Rightarrow> Err e, d\<lparr>queue := q\<rparr>, w))"

section \<open>Sockets\<close>

definition close_udp :: "int option \<Rightarrow> 'p Device \<Rightarrow> 'u dev_world \<Rightarrow> ('p Device \<times> 'u dev_world) panics" where
  "close_udp sock d w =
     (case sock of
        Some s \<Rightarrow> do {
          (q, w) \<leftarrow> clear_event_by_fd (queue d) s w;
          Some (d\<lparr>queue := q\<rparr>, snd (os_call (Close s) w))
        }
      | None \<Rightarrow> Some (d, w))"

fun shutdown_peers :: "(bytes \<times> nat) list \<Rightarrow> 'u dev_world \<Rightarrow> 'u dev_world panics" where
  "shutdown_peers [] w = Some w"
| "shutdown_peers ((_, i) # ps) w = do {
     (p, w) \<leftarrow> shutdown_endpoint (peer_store w ! i) w;
     shutdown_peers ps (put_peer i p w)
   }"

definition udp_socket :: "string \<Rightarrow> bytes \<Rightarrow> u16 \<Rightarrow> 'u dev_world \<Rightarrow> (int, Error) result \<times> 'u dev_world" where
  "udp_socket domain any port w =
     (let (s, w) = os_call (SocketNew domain ''DGRAM'') w
      in if s = -1 then (Err IoError, w)
         else let (ok, w) = os_all [SetReuseAddress s, Bind s any port, SetNonblocking s] w
         in if ok then (Ok s, w) else (Err IoError, snd (os_call (Close s) w)))"

definition register_clone ::
  "'p Device \<Rightarrow> int \<Rightarrow> 'u dev_world \<Rightarrow> ((unit, Error) result \<times> 'p Device \<times> 'u dev_world) panics" where
  "register_clone d s w =
     (let (s', w) = os_call (Dup s) w in if s' = -1 then None else Some (register_udp_handler d s' w))"

text \<open>
  The new sockets: handlers are registered on duplicates, and the originals are kept for sending.  Sockets that
  are not kept are closed when they are dropped.
\<close>

definition register_sockets ::
  "'p Device \<Rightarrow> int \<Rightarrow> int \<Rightarrow> u16 \<Rightarrow> 'u dev_world \<Rightarrow> ((unit, Error) result \<times> 'p Device \<times> 'u dev_world) panics" where
  "register_sockets d udp_sock4 udp_sock6 port w =
     (let fail = (\<lambda>e d w. Some (Err e, d, snd (os_call (Close udp_sock4) (snd (os_call (Close udp_sock6) w)))))
      in do {
        (r, d, w) \<leftarrow> register_clone d udp_sock4 w;
        case r of Err e \<Rightarrow> fail e d w | Ok _ \<Rightarrow> do {
          (r, d, w) \<leftarrow> register_clone d udp_sock6 w;
          case r of Err e \<Rightarrow> fail e d w | Ok _ \<Rightarrow>
            Some (Ok (), d\<lparr>udp4 := Some udp_sock4, udp6 := Some udp_sock6, listen_port := port\<rparr>, w)
        }
      })"

definition bind_sockets ::
  "'p Device \<Rightarrow> u16 \<Rightarrow> 'u dev_world \<Rightarrow> ((unit, Error) result \<times> 'p Device \<times> 'u dev_world) panics" where
  "bind_sockets d port w =
     (case udp_socket ''IPV4'' (replicate 4 0) port w of
        (Err e, w) \<Rightarrow> Some (Err e, d, w)
      | (Ok udp_sock4, w) \<Rightarrow>
          (let (r, w) = (if port = 0 then os_call (LocalPort udp_sock4) w else (uint port, w))
           in if r = -1 then Some (Err IoError, d, snd (os_call (Close udp_sock4) w))
              else let port = (of_int r :: u16)
              in case udp_socket ''IPV6'' (replicate 16 0) port w of
                   (Err e, w) \<Rightarrow> Some (Err e, d, snd (os_call (Close udp_sock4) w))
                 | (Ok udp_sock6, w) \<Rightarrow> register_sockets d udp_sock4 udp_sock6 port w))"

definition open_listen_socket ::
  "('u, 'p) libs \<Rightarrow> 'p Device \<Rightarrow> u16 \<Rightarrow> 'u dev_world \<Rightarrow> ((unit, Error) result \<times> 'p Device \<times> 'u dev_world) panics" where
  "open_listen_socket L d port w = do {
     (d, w) \<leftarrow> close_udp (udp4 d) d w;
     let d = d\<lparr>udp4 := None\<rparr>;
     (d, w) \<leftarrow> close_udp (udp6 d) d w;
     let d = d\<lparr>udp6 := None\<rparr>;
     w \<leftarrow> shutdown_peers (hash_order L (peers d)) w;
     bind_sockets d port w
   }"

section \<open>Timers\<close>

definition limiter_timer :: "'p Device \<Rightarrow> 'u dev_world \<Rightarrow> Action \<times> 'u dev_world" where
  "limiter_timer d w =
     (case dev_rate_limiter d of
        Some r \<Rightarrow> (Continue, w\<lparr>tw := limiter_reset_count r (tw w)\<rparr>)
      | None \<Rightarrow> (Continue, w))"

definition send_to :: "int \<Rightarrow> socket_addr \<Rightarrow> bytes \<Rightarrow> 'u dev_world \<Rightarrow> 'u dev_world" where
  "send_to udp a packet w = snd (os_call (SendTo udp (sock_octets a) (sock_port a) packet) w)"

definition timer_peer :: "crypto \<Rightarrow> int \<Rightarrow> int \<Rightarrow> nat \<Rightarrow> 'u dev_world \<Rightarrow> 'u dev_world panics" where
  "timer_peer c u4 u6 i w =
     (case ep_addr (endpoint (peer_store w ! i)) of
        None \<Rightarrow> Some w
      | Some endpoint_addr \<Rightarrow> do {
          (r, p, w') \<leftarrow> Peer_update_timers c (peer_store w ! i) MAX_UDP_SIZE (tw w);
          let w = put_peer i p (w\<lparr>tw := w'\<rparr>);
          case r of
            TunnDone \<Rightarrow> Some w
          | TunnErr ConnectionExpired \<Rightarrow> do { (p, w) \<leftarrow> shutdown_endpoint p w; Some (put_peer i p w) }
          | TunnErr _ \<Rightarrow> Some w
          | WriteToNetwork packet \<Rightarrow> Some (send_to (if is_ipv4 endpoint_addr then u4 else u6) endpoint_addr packet w)
          | _ \<Rightarrow> None
        })"

fun timer_peers :: "crypto \<Rightarrow> int \<Rightarrow> int \<Rightarrow> (bytes \<times> nat) list \<Rightarrow> 'u dev_world \<Rightarrow> 'u dev_world panics" where
  "timer_peers c u4 u6 [] w = Some w"
| "timer_peers c u4 u6 ((_, i) # ps) w = do { w \<leftarrow> timer_peer c u4 u6 i w; timer_peers c u4 u6 ps w }"

definition peers_timer :: "('u, 'p) libs \<Rightarrow> 'p Device \<Rightarrow> 'u dev_world \<Rightarrow> (Action \<times> 'u dev_world) panics" where
  "peers_timer L d w =
     (case (udp4 d, udp6 d) of
        (Some u4, Some u6) \<Rightarrow> do {
          w \<leftarrow> timer_peers (lib_crypto L) u4 u6 (hash_order L (peers d)) w;
          Some (Continue, w)
        }
      | _ \<Rightarrow> Some (Continue, w))"

section \<open>Packets from the network\<close>

text \<open>Flushing the queue of a tunnel: the packets to send, until nothing more is to be written.\<close>

partial_function (option) flush_queue ::
  "crypto \<Rightarrow> Tunn \<Rightarrow> tunn_world \<Rightarrow> (bytes list \<times> Tunn \<times> tunn_world) option" where
  "flush_queue c t w =
     do {
       (r, t, w) \<leftarrow> decapsulate c t None [] MAX_UDP_SIZE w;
       (case r of
          WriteToNetwork packet \<Rightarrow> do {
            (ps, t, w) \<leftarrow> flush_queue c t w;
            Some (packet # ps, t, w)
          }
        | _ \<Rightarrow> Some ([], t, w))
     }"

text \<open>
  The code sends each packet as soon as the tunnel has made it.  Sending does not touch the tunnel, so here the packets are
  made first and then sent, the same ones in the same order.
\<close>

definition flush_peer ::
  "crypto \<Rightarrow> nat \<Rightarrow> (bytes \<Rightarrow> 'u dev_world \<Rightarrow> 'u dev_world) \<Rightarrow> 'u dev_world \<Rightarrow> 'u dev_world panics" where
  "flush_peer c i send w = do {
     let p = peer_store w ! i;
     (ps, t, w') \<leftarrow> flush_queue c (tunnel p) (tw w);
     Some (fold send ps (put_peer i (p\<lparr>tunnel := t\<rparr>) (w\<lparr>tw := w'\<rparr>)))
   }"

text \<open>
  What both network handlers do with the result of the tunnel: send a packet and flush, or write a packet to
  the interface if its source address is one the peer may use.
\<close>

definition act_on_result ::
  "('u, 'p) libs \<Rightarrow> int \<Rightarrow> nat \<Rightarrow> (bytes \<Rightarrow> 'u dev_world \<Rightarrow> 'u dev_world) \<Rightarrow> TunnResult \<Rightarrow> 'u dev_world
     \<Rightarrow> 'u dev_world panics" where
  "act_on_result L ifc i send r w =
     (let p = peer_store w ! i
      in case r of
           TunnDone \<Rightarrow> Some w
         | TunnErr _ \<Rightarrow> Some w
         | WriteToNetwork packet \<Rightarrow> flush_peer (lib_crypto L) i send (send packet w)
         | WriteToTunnelV4 packet a \<Rightarrow>
             Some (if is_allowed_ip (peer_table L) p (V4 a) then snd (os_call (WriteTun ifc packet) w) else w)
         | WriteToTunnelV6 packet a \<Rightarrow>
             Some (if is_allowed_ip (peer_table L) p (V6 a) then snd (os_call (WriteTun ifc packet) w) else w))"

definition peer_of_packet ::
  "('u, 'p) libs \<Rightarrow> 'p Device \<Rightarrow> bytes \<Rightarrow> bytes \<Rightarrow> packet \<Rightarrow> nat option panics" where
  "peer_of_packet L d private_key public_key m =
     (case m of
        HandshakeInit p \<Rightarrow> do {
          r \<leftarrow> parse_handshake_anon (lib_crypto L) private_key public_key p;
          Some (case r of Ok hh \<Rightarrow> map_of (peers d) (half_peer_static_public hh) | Err _ \<Rightarrow> None)
        }
      | HandshakeResponse p \<Rightarrow> Some (peers_by_idx d (drop_bit 8 (hr_receiver_idx p)))
      | PacketCookieReply p \<Rightarrow> Some (peers_by_idx d (drop_bit 8 (cr_receiver_idx p)))
      | PacketData p \<Rightarrow> Some (peers_by_idx d (drop_bit 8 (pd_receiver_idx p))))"

definition update_endpoint ::
  "'p Device \<Rightarrow> nat \<Rightarrow> socket_addr \<Rightarrow> 'u dev_world \<Rightarrow> ('p Device \<times> 'u dev_world) panics" where
  "update_endpoint d i a w = do {
     (endpoint_changed, p, w) \<leftarrow> set_endpoint (peer_store w ! i) a w;
     let w = put_peer i p w;
     if use_connected_socket (dev_config d) \<and> (endpoint_changed \<or> ep_conn (endpoint p) = None) then do {
       (r, p, w) \<leftarrow> connect_endpoint p (listen_port d) (fwmark d) w;
       let w = put_peer i p w;
       case r of
         Err _ \<Rightarrow> Some (d, w)
       | Ok sock \<Rightarrow>
           (case register_conn_handler d i sock (sock_ip a) w of
              (Ok _, d, w) \<Rightarrow> Some (d, w)
            | (Err _, d, w) \<Rightarrow> None)
     } else Some (d, w)
   }"

text \<open>One datagram on the listening socket; the flag says whether the iteration counts, that is, was not left by \<^verbatim>\<open>continue\<close>.\<close>

definition udp_packet ::
  "('u, 'p) libs \<Rightarrow> bytes \<Rightarrow> bytes \<Rightarrow> nat \<Rightarrow> int \<Rightarrow> int \<Rightarrow> 'p Device \<Rightarrow> socket_addr \<Rightarrow> bytes \<Rightarrow> 'u dev_world
     \<Rightarrow> (bool \<times> 'p Device \<times> 'u dev_world) panics" where
  "udp_packet L private_key public_key limiter ifc udp d a packet w =
     (let c = lib_crypto L;
          (v, w') = limiter_verify_packet c limiter (Some (sock_ip a)) packet MAX_UDP_SIZE (tw w);
          w = w\<lparr>tw := w'\<rparr>
      in case v of
           Err (WriteToNetwork cookie) \<Rightarrow> Some (False, d, send_to udp a cookie w)
         | Err _ \<Rightarrow> Some (False, d, w)
         | Ok parsed_packet \<Rightarrow> do {
             peer \<leftarrow> peer_of_packet L d private_key public_key parsed_packet;
             case peer of
               None \<Rightarrow> Some (False, d, w)
             | Some i \<Rightarrow> do {
                 let p = peer_store w ! i;
                 (r, t, w') \<leftarrow> handle_verified_packet c (tunnel p) parsed_packet MAX_UDP_SIZE (tw w);
                 let w = put_peer i (p\<lparr>tunnel := t\<rparr>) (w\<lparr>tw := w'\<rparr>);
                 if (case r of TunnErr _ \<Rightarrow> True | _ \<Rightarrow> False) then Some (False, d, w)
                 else do {
                   w \<leftarrow> act_on_result L ifc i (send_to udp a) r w;
                   (d, w) \<leftarrow> update_endpoint d i a w;
                   Some (True, d, w)
                 }
               }
           })"

fun udp_loop ::
  "('u, 'p) libs \<Rightarrow> bytes \<Rightarrow> bytes \<Rightarrow> nat \<Rightarrow> int \<Rightarrow> int \<Rightarrow> nat \<Rightarrow> 'p Device \<Rightarrow> (socket_addr \<times> bytes) list \<Rightarrow> 'u dev_world
     \<Rightarrow> ((socket_addr \<times> bytes) list \<times> 'p Device \<times> 'u dev_world) panics" where
  "udp_loop L sk pk limiter ifc udp iter d [] w = Some ([], d, w)"
| "udp_loop L sk pk limiter ifc udp iter d ((a, packet) # rest) w = do {
     (counted, d, w) \<leftarrow> udp_packet L sk pk limiter ifc udp d a packet w;
     if counted then
       (let iter = iter - 1
        in if iter = 0 then Some (rest, d, w) else udp_loop L sk pk limiter ifc udp iter d rest w)
     else udp_loop L sk pk limiter ifc udp iter d rest w
   }"

definition udp_handler ::
  "('u, 'p) libs \<Rightarrow> int \<Rightarrow> int \<Rightarrow> 'p Device \<Rightarrow> (socket_addr \<times> bytes) list \<Rightarrow> 'u dev_world
     \<Rightarrow> (Action \<times> (socket_addr \<times> bytes) list \<times> 'p Device \<times> 'u dev_world) panics" where
  "udp_handler L ifc udp d inbox w = do {
     (private_key, public_key) \<leftarrow> key_pair d;
     limiter \<leftarrow> dev_rate_limiter d;
     (rest, d, w) \<leftarrow> udp_loop L private_key public_key limiter ifc udp MAX_ITR d inbox w;
     Some (Continue, rest, d, w)
   }"

definition send_conn :: "int \<Rightarrow> bytes \<Rightarrow> 'u dev_world \<Rightarrow> 'u dev_world" where
  "send_conn udp packet w = snd (os_call (SendConn udp packet) w)"

definition conn_packet ::
  "('u, 'p) libs \<Rightarrow> int \<Rightarrow> nat \<Rightarrow> int \<Rightarrow> ip_addr \<Rightarrow> bytes \<Rightarrow> 'u dev_world \<Rightarrow> 'u dev_world panics" where
  "conn_packet L ifc i udp peer_addr datagram w = do {
     let p = peer_store w ! i;
     (r, t, w') \<leftarrow> decapsulate (lib_crypto L) (tunnel p) (Some peer_addr) datagram MAX_UDP_SIZE (tw w);
     act_on_result L ifc i (send_conn udp) r (put_peer i (p\<lparr>tunnel := t\<rparr>) (w\<lparr>tw := w'\<rparr>))
   }"

fun conn_loop ::
  "('u, 'p) libs \<Rightarrow> int \<Rightarrow> nat \<Rightarrow> int \<Rightarrow> ip_addr \<Rightarrow> nat \<Rightarrow> bytes list \<Rightarrow> 'u dev_world
     \<Rightarrow> (bytes list \<times> 'u dev_world) panics" where
  "conn_loop L ifc i udp peer_addr iter [] w = Some ([], w)"
| "conn_loop L ifc i udp peer_addr iter (x # rest) w = do {
     w \<leftarrow> conn_packet L ifc i udp peer_addr x w;
     let iter = iter - 1;
     if iter = 0 then Some (rest, w) else conn_loop L ifc i udp peer_addr iter rest w
   }"

definition conn_handler ::
  "('u, 'p) libs \<Rightarrow> int \<Rightarrow> nat \<Rightarrow> int \<Rightarrow> ip_addr \<Rightarrow> bytes list \<Rightarrow> 'u dev_world \<Rightarrow> (Action \<times> bytes list \<times> 'u dev_world) panics" where
  "conn_handler L ifc i udp peer_addr inbox w = do {
     (rest, w) \<leftarrow> conn_loop L ifc i udp peer_addr MAX_ITR inbox w;
     Some (Continue, rest, w)
   }"

section \<open>Packets from the interface\<close>

datatype iface_input = Packet bytes | Blocked | Fatal

definition send_encapsulated :: "int \<Rightarrow> int \<Rightarrow> Endpoint \<Rightarrow> bytes \<Rightarrow> 'u dev_world \<Rightarrow> 'u dev_world" where
  "send_encapsulated u4 u6 ep packet w =
     (case ep_conn ep of
        Some conn \<Rightarrow> send_conn conn packet w
      | None \<Rightarrow>
          (case ep_addr ep of
             Some a \<Rightarrow> send_to (if is_ipv4 a then u4 else u6) a packet w
           | None \<Rightarrow> w))"

definition iface_packet ::
  "('u, 'p) libs \<Rightarrow> int \<Rightarrow> int \<Rightarrow> 'p Device \<Rightarrow> bytes \<Rightarrow> 'u dev_world \<Rightarrow> 'u dev_world panics" where
  "iface_packet L u4 u6 d src w =
     (case dst_address src of
        None \<Rightarrow> Some w
      | Some dst_addr \<Rightarrow>
          (case AllowedIps_find (dev_table L) (peers_by_ip d) dst_addr of
             None \<Rightarrow> Some w
           | Some i \<Rightarrow> do {
               let p = peer_store w ! i;
               (r, t, w') \<leftarrow> encapsulate (lib_crypto L) (tunnel p) src MAX_UDP_SIZE (tw w);
               let w = put_peer i (p\<lparr>tunnel := t\<rparr>) (w\<lparr>tw := w'\<rparr>);
               case r of
                 TunnDone \<Rightarrow> Some w
               | TunnErr _ \<Rightarrow> Some w
               | WriteToNetwork packet \<Rightarrow> Some (send_encapsulated u4 u6 (endpoint p) packet w)
               | _ \<Rightarrow> None
             }))"

fun iface_loop ::
  "('u, 'p) libs \<Rightarrow> int \<Rightarrow> int \<Rightarrow> 'p Device \<Rightarrow> nat \<Rightarrow> iface_input list \<Rightarrow> 'u dev_world
     \<Rightarrow> (Action \<times> iface_input list \<times> 'u dev_world) panics" where
  "iface_loop L u4 u6 d 0 inbox w = Some (Continue, inbox, w)"
| "iface_loop L u4 u6 d (Suc n) inbox w =
     (if MAX_UDP_SIZE < mtu d then None
      else case inbox of
        [] \<Rightarrow> Some (Continue, [], w)
      | Blocked # rest \<Rightarrow> Some (Continue, rest, w)
      | Fatal # rest \<Rightarrow> Some (Exit, rest, w)
      | Packet src # rest \<Rightarrow> do {
          w \<leftarrow> iface_packet L u4 u6 d (take (mtu d) src) w;
          iface_loop L u4 u6 d n rest w
        })"

definition iface_handler ::
  "('u, 'p) libs \<Rightarrow> 'p Device \<Rightarrow> iface_input list \<Rightarrow> 'u dev_world \<Rightarrow> (Action \<times> iface_input list \<times> 'u dev_world) panics" where
  "iface_handler L d inbox w = do {
     u4 \<leftarrow> udp4 d;
     u6 \<leftarrow> udp6 d;
     iface_loop L u4 u6 d MAX_ITR inbox w
   }"

end
