(* ===== verification/DeviceIndex.thy ===== *)
theory DeviceIndex
  imports Device
begin

text \<open>
  The index generator of the device: the shift register is injective on the nonzero 24-bit numbers, so the
  indices it hands out before it stops are pairwise different.
\<close>

lemma word_eqI_unat: "unat x = unat y \<Longrightarrow> x = (y :: 'a::len word)"
  by (rule unsigned_word_eqI)

lemma LFSR_MAX_mask: "LFSR_MAX = mask 24"
  by (simp add: LFSR_MAX_def mask_eq_exp_minus_1)

lemma and_LFSR_MAX: "x AND LFSR_MAX = take_bit 24 x"
  by (simp add: LFSR_MAX_mask take_bit_eq_mask)

section \<open>The shift register\<close>

definition lfsr_step :: "u32 \<Rightarrow> u32" where
  "lfsr_step x = drop_bit 1 x XOR ((0 - (x AND 1)) AND LFSR_POLY)"

definition lfsr_ok :: "u32 \<Rightarrow> bool" where
  "lfsr_ok x \<longleftrightarrow> x \<noteq> 0 \<and> take_bit 24 x = x"

lemma minus_bit: "bit (0 - (x AND 1) :: u32) n \<longleftrightarrow> bit x 0 \<and> n < 32"
proof (cases "bit x 0")
  case True
  then have "x AND 1 = 1" by (auto intro!: bit_word_eqI simp: bit_simps)
  then show ?thesis using True by (simp add: bit_simps)
next
  case False
  then have "x AND 1 = 0" by (auto intro!: bit_word_eqI simp: bit_simps)
  then show ?thesis using False by simp
qed

lemma bit_lfsr_step:
  "bit (lfsr_step x) n \<longleftrightarrow> bit x (Suc n) \<noteq> (bit x 0 \<and> n < 32 \<and> bit LFSR_POLY n)"
  by (auto simp: lfsr_step_def bit_xor_iff bit_and_iff bit_drop_bit_eq minus_bit simp del: diff_0)

lemma poly_top: "bit LFSR_POLY 23" "take_bit 24 LFSR_POLY = LFSR_POLY"
  by (simp_all add: LFSR_POLY_def)

lemma take24: "take_bit 24 (x :: u32) = x \<Longrightarrow> bit x n \<Longrightarrow> n < 24"
  by (metis bit_take_bit_iff)

lemma lfsr_step_small: "take_bit 24 x = x \<Longrightarrow> take_bit 24 (lfsr_step x) = lfsr_step x"
  using take24 [of x] take24 [OF poly_top(2)]
  by (intro bit_word_eqI) (auto simp: bit_take_bit_iff bit_lfsr_step dest: Suc_lessD)

lemma lfsr_step_inj:
  assumes "take_bit 24 x = x" "take_bit 24 y = y" "lfsr_step x = lfsr_step y"
  shows "x = y"
proof (rule bit_word_eqI)
  fix n assume n: "n < LENGTH(32)"
  have eq: "bit (lfsr_step x) m = bit (lfsr_step y) m" for m using assms(3) by simp
  have low: "bit x 0 = bit y 0"
    using eq [of 23] take24 [OF assms(1), of 24] take24 [OF assms(2), of 24] poly_top(1) by (auto simp: bit_lfsr_step)
  show "bit x n = bit y n"
    using low eq [of "n - 1"] by (cases n) (auto simp: bit_lfsr_step)
qed

lemma lfsr_step_0 [simp]: "lfsr_step 0 = 0"
  by (simp add: lfsr_step_def)

lemma lfsr_step_ok: "lfsr_ok x \<Longrightarrow> lfsr_ok (lfsr_step x)"
  using lfsr_step_inj [of x 0] lfsr_step_small [of x] by (auto simp: lfsr_ok_def)

lemma lfsr_pow_ok: "lfsr_ok x \<Longrightarrow> lfsr_ok ((lfsr_step ^^ n) x)"
  by (induction n) (auto intro: lfsr_step_ok)

lemma lfsr_pow_inj: "lfsr_ok x \<Longrightarrow> lfsr_ok y \<Longrightarrow> (lfsr_step ^^ n) x = (lfsr_step ^^ n) y \<Longrightarrow> x = y"
proof (induction n)
  case (Suc n)
  have "lfsr_ok ((lfsr_step ^^ n) x)" "lfsr_ok ((lfsr_step ^^ n) y)" using Suc.prems lfsr_pow_ok by auto
  then have "(lfsr_step ^^ n) x = (lfsr_step ^^ n) y"
    using lfsr_step_inj [of "(lfsr_step ^^ n) x" "(lfsr_step ^^ n) y"] Suc.prems(3) by (simp add: lfsr_ok_def)
  with Suc show ?case by simp
qed simp

section \<open>The indices handed out\<close>

text \<open>The index that belongs to a state of the register.\<close>

definition index_of :: "u32 \<Rightarrow> u32 \<Rightarrow> u32" where
  "index_of m x = (x - 1) XOR m"

lemma IndexLfsr_next_eq:
  "IndexLfsr_next s =
     (if lfsr_step (lfsr s) = lfsr_initial s then None
      else Some (index_of (lfsr_mask s) (lfsr s), s\<lparr>lfsr := lfsr_step (lfsr s)\<rparr>))"
  by (simp add: IndexLfsr_next_def lfsr_step_def index_of_def Let_def)

text \<open>
  \<open>lfsr_used s n\<close>: \<open>s\<close> has handed out \<open>n\<close> indices since it was seeded, without coming back to the seed.
\<close>

definition lfsr_used :: "IndexLfsr \<Rightarrow> nat \<Rightarrow> bool" where
  "lfsr_used s n \<longleftrightarrow> lfsr_ok (lfsr_initial s) \<and> take_bit 24 (lfsr_mask s) = lfsr_mask s \<and>
     lfsr s = (lfsr_step ^^ n) (lfsr_initial s) \<and>
     (\<forall>k. 0 < k \<and> k \<le> n \<longrightarrow> (lfsr_step ^^ k) (lfsr_initial s) \<noteq> lfsr_initial s)"

definition used_indices :: "IndexLfsr \<Rightarrow> nat \<Rightarrow> u32 list" where
  "used_indices s n = map (\<lambda>k. index_of (lfsr_mask s) ((lfsr_step ^^ k) (lfsr_initial s))) [0..<n]"

lemma index_of_inj: "index_of m x = index_of m y \<longleftrightarrow> x = y"
proof
  assume "index_of m x = index_of m y"
  moreover have "z - 1 = index_of m z XOR m" for z by (simp add: index_of_def xor.assoc)
  ultimately have "x - 1 = y - 1" by metis
  then show "x = y" by simp
qed simp

lemma used_distinct:
  assumes "lfsr_used s n"
  shows "distinct (used_indices s (Suc n))"
proof -
  let ?x = "\<lambda>k. (lfsr_step ^^ k) (lfsr_initial s)"
  have ne: "?x i \<noteq> ?x j" if "i < j" "j \<le> n" for i j
  proof
    assume "?x i = ?x j"
    moreover have "?x j = (lfsr_step ^^ i) (?x (j - i))"
      using that funpow_add [of i "j - i" lfsr_step] by simp
    moreover have ok: "lfsr_ok (lfsr_initial s)" using assms by (simp add: lfsr_used_def)
    ultimately have "lfsr_initial s = ?x (j - i)"
      using lfsr_pow_inj [OF ok lfsr_pow_ok [OF ok], of i "j - i"] by simp
    moreover have "?x (j - i) \<noteq> lfsr_initial s" using assms that by (simp add: lfsr_used_def)
    ultimately show False by simp
  qed
  have "inj_on ?x {0..<Suc n}"
    using ne by (intro inj_onI) (metis atLeastLessThan_iff less_Suc_eq_le linorder_neqE_nat)
  then show ?thesis
    by (auto simp: used_indices_def distinct_map index_of_inj inj_on_def simp del: upt_Suc)
qed

lemma next_used:
  assumes u: "lfsr_used s n" and s: "IndexLfsr_next s = Some (i, s')"
  shows "lfsr_used s' (Suc n)" "i \<notin> set (used_indices s n)" "used_indices s' (Suc n) = used_indices s n @ [i]"
proof -
  have e: "lfsr_step (lfsr s) \<noteq> lfsr_initial s" "i = index_of (lfsr_mask s) (lfsr s)" "s' = s\<lparr>lfsr := lfsr_step (lfsr s)\<rparr>"
    using s by (auto simp: IndexLfsr_next_eq split: if_splits)
  show u': "used_indices s' (Suc n) = used_indices s n @ [i]"
    using e u by (simp add: used_indices_def lfsr_used_def)
  show "i \<notin> set (used_indices s n)"
    using used_distinct [OF u] e u by (simp add: used_indices_def lfsr_used_def)
  show "lfsr_used s' (Suc n)" using e u by (auto simp: lfsr_used_def le_Suc_eq)
qed

lemma index_small:
  assumes "lfsr_used s n" "i \<in> set (used_indices s (Suc n))"
  shows "take_bit 24 i = i"
proof -
  obtain x where x: "lfsr_ok x" "i = (x - 1) XOR lfsr_mask s"
    using assms lfsr_pow_ok by (auto simp: used_indices_def lfsr_used_def index_of_def simp del: upt_Suc)
  have "unat (take_bit 24 x) = take_bit 24 (unat x)" by (simp add: unsigned_take_bit_eq)
  then have "unat x < 2 ^ 24" using x(1) take_bit_nat_less_exp [of 24 "unat x"] by (simp add: lfsr_ok_def)
  then have "unat (x - 1) < 2 ^ 24" using x(1) by (simp add: lfsr_ok_def unat_minus_one)
  then have "take_bit 24 (x - 1) = x - 1"
    by (intro word_eqI_unat) (simp add: unsigned_take_bit_eq take_bit_nat_eq_self)
  then show ?thesis
    using assms(1) by (simp add: x(2) take_bit_xor lfsr_used_def)
qed

section \<open>Seeding\<close>

text \<open>A number that \<^verbatim>\<open>random_index\<close> draws; it is drawn again while it is zero.\<close>

definition draw :: "'w world_scheme \<Rightarrow> nat \<Rightarrow> u32" where
  "draw w n = word_of_le (map (rng w) [rng_pos w + 4 * n..<rng_pos w + 4 * n + 4]) AND LFSR_MAX"

lemma random_index_skip:
  "random_index w = (if 0 < draw w 0 then Some (draw w 0, w\<lparr>rng_pos := rng_pos w + 4\<rparr>)
     else random_index (w\<lparr>rng_pos := rng_pos w + 4\<rparr>))"
  by (subst random_index.simps) (simp add: OsRng_next_u32_def OsRng_bytes_def draw_def Let_def)

lemma random_index_draws:
  "0 < draw w n \<Longrightarrow> (\<And>k. k < n \<Longrightarrow> draw w k = 0) \<Longrightarrow>
     random_index w = Some (draw w n, w\<lparr>rng_pos := rng_pos w + 4 * n + 4\<rparr>)"
proof (induction n arbitrary: w)
  case 0
  then show ?case by (simp add: random_index_skip)
next
  case (Suc n)
  let ?w = "w\<lparr>rng_pos := rng_pos w + 4\<rparr>"
  have d: "draw ?w k = draw w (Suc k)" for k by (simp add: draw_def algebra_simps)
  have "random_index ?w = Some (draw ?w n, ?w\<lparr>rng_pos := rng_pos ?w + 4 * n + 4\<rparr>)"
    by (rule Suc.IH) (use Suc.prems d in auto)
  then show ?case using Suc.prems(2) [of 0] by (subst random_index_skip) (simp add: d algebra_simps)
qed

lemma draw_small: "take_bit 24 (draw w n) = draw w n"
  by (simp add: draw_def and_LFSR_MAX)

text \<open>
  Seeding ends as soon as the random source is not stuck.  If among the numbers drawn one has a
  nonzero low part, \<^verbatim>\<open>random_index\<close> returns, and the value is the first such number, which is a nonzero 24-bit
  number.
\<close>

theorem random_index_returns:
  assumes "0 < draw w n"
  shows "\<exists>i w'. random_index w = Some (i, w') \<and> i = draw w (LEAST n. 0 < draw w n) \<and> i \<noteq> 0 \<and> i \<le> LFSR_MAX"
proof -
  define m where "m = (LEAST n. 0 < draw w n)"
  have m: "0 < draw w m" unfolding m_def using assms by (rule LeastI)
  have "draw w k = 0" if "k < m" for k
    using not_less_Least [OF that [unfolded m_def]] by (simp add: word_gt_0)
  with random_index_draws [OF m] m show ?thesis
    by (auto simp: m_def draw_def word_and_le1)
qed

theorem random_index_returns_witness:
  "\<exists>i w'. random_index (sample_world 1) = Some (i, w') \<and> i \<noteq> 0 \<and> i \<le> LFSR_MAX"
proof -
  have "draw (sample_world 1) 0 = 197121" by code_simp
  then have "0 < draw (sample_world 1) 0" by simp
  from random_index_returns [OF this] show ?thesis by blast
qed

fun next_indices :: "nat \<Rightarrow> IndexLfsr \<Rightarrow> (u32 list \<times> IndexLfsr) panics" where
  "next_indices 0 s = Some ([], s)"
| "next_indices (Suc n) s = do {
     (i, s) \<leftarrow> IndexLfsr_next s;
     (is, s) \<leftarrow> next_indices n s;
     Some (i # is, s)
   }"

lemma next_indices_used:
  "lfsr_used s n \<Longrightarrow> next_indices m s = Some (is, s') \<Longrightarrow>
     lfsr_used s' (n + m) \<and> used_indices s' (n + m) = used_indices s n @ is"
proof (induction m arbitrary: s n "is")
  case (Suc m)
  obtain i s1 js where s: "IndexLfsr_next s = Some (i, s1)" "next_indices m s1 = Some (js, s')" "is = i # js"
    using Suc.prems(2) by (auto simp: bind_eq_Some_conv)
  from Suc.IH [OF next_used(1) [OF Suc.prems(1) s(1)] s(2)] next_used(3) [OF Suc.prems(1) s(1)] s(3)
  show ?case by simp
qed simp

lemma random_index_ok:
  assumes r: "random_index w = Some (i, w')"
  shows "lfsr_ok i"
proof -
  have "lfsr_ok (fst (i, w'))"
  proof (rule random_index.raw_induct [OF _ r, where P = "\<lambda>w r. lfsr_ok (fst r)"])
    fix f :: "'a world_scheme \<Rightarrow> (u32 \<times> 'a world_scheme) option" and w y
    assume "\<And>w y. f w = Some y \<Longrightarrow> lfsr_ok (fst y)"
      and "(let (r, w) = OsRng_next_u32 w; i = r AND LFSR_MAX in if 0 < i then Some (i, w) else f w) = Some y"
    then show "lfsr_ok (fst y)"
      by (auto simp: Let_def and_LFSR_MAX lfsr_ok_def word_gt_0 split: prod.splits if_splits)
  qed
  then show ?thesis by simp
qed

lemma IndexLfsr_default_used:
  assumes "IndexLfsr_default w = Some (s, w')"
  shows "lfsr_used s 0"
  using assms by (auto simp: IndexLfsr_default_def bind_eq_Some_conv lfsr_used_def lfsr_ok_def dest!: random_index_ok)

text \<open>
  C34.  Peer indices never repeat.  Whatever the seed and the mask, the indices handed out by one device before
  its generator reports that there are too many peers are pairwise different 24-bit numbers.
\<close>

theorem peer_indices_distinct:
  assumes d: "IndexLfsr_default w = Some (s, w')" and n: "next_indices n s = Some (is, s')"
  shows "distinct is \<and> (\<forall>i \<in> set is. i \<le> LFSR_MAX)"
proof -
  have u: "lfsr_used s' n" "used_indices s' n = is"
    using next_indices_used [OF IndexLfsr_default_used [OF d] n] by (simp_all add: used_indices_def)
  have le: "i \<le> LFSR_MAX" if "i \<in> set is" for i
  proof -
    have "take_bit 24 i = i" by (rule index_small [OF u(1)]) (use that u(2) in \<open>auto simp: used_indices_def\<close>)
    then show ?thesis by (metis and_LFSR_MAX word_and_le1)
  qed
  have "distinct is" using used_distinct [OF u(1)] u(2) by (auto simp: used_indices_def)
  with le show ?thesis by blast
qed

theorem peer_indices_distinct_witness:
  "\<exists>s w' i j s'. IndexLfsr_default (sample_world 1) = Some (s, w') \<and> next_indices 2 s = Some ([i, j], s') \<and> i \<noteq> j"
proof -
  define s where "s = \<lparr>lfsr_initial = 197121, lfsr = 197121, lfsr_mask = 460293\<rparr>"
  let ?w = "(sample_world 1)\<lparr>rng_pos := 4\<rparr>"
  have v: "draw (sample_world 1) 0 = 197121" "draw ?w 0 = 460293" by code_simp+
  have "random_index (sample_world 1) = Some (197121, ?w)" "random_index ?w = Some (460293, ?w\<lparr>rng_pos := 8\<rparr>)"
    using random_index_draws [of "sample_world 1" 0] random_index_draws [of ?w 0] v
    by (simp_all add: sample_world_def)
  then have d: "IndexLfsr_default (sample_world 1) = Some (s, ?w\<lparr>rng_pos := 8\<rparr>)"
    by (simp add: IndexLfsr_default_def s_def)
  have n: "next_indices 2 s = Some ([263173, 14583546], s\<lparr>lfsr := 7127168\<rparr>)" unfolding s_def by code_simp
  from peer_indices_distinct [OF d n] d n show ?thesis by auto
qed

end
