(* ===== verification/DeviceInvariant.thy ===== *)
theory DeviceInvariant
  imports DeviceIndex TunnProperties
begin

text \<open>
  The invariant of the device: its tables agree with each other and every tunnel is consistent.  It holds of a
  new device and every configuration operation and every handler preserves it.

  \<open>peers_kept\<close> is what a handler promises: the peers in the store keep their indices and allowed addresses, time
  only moves on, and consistent tunnels stay consistent.
\<close>

section \<open>Tunnel operations that return\<close>

lemma encapsulate_kept:
  assumes c: "crypto_laws c" and inv: "tunn_inv b t w" and e: "encapsulate c t src n w = Some (r, t', w')"
  shows "kept b t w t' w'"
proof (cases "sessions t ! (current t mod N_SESSIONS)")
  case None
  have q: "kept b t w (queue_packet t src) w" by (rule kept_same) (auto intro: inv_intros inv)
  have "Tunn_format_handshake_initiation c (queue_packet t src) n False w = Some (r, t', w')"
    using e None by (simp add: encapsulate_def)
  with Tunn_format_init_total [OF c keptD(1) [OF q], of n False] have "kept b (queue_packet t src) w t' w'"
    by (metis option.inject prod.inject)
  with q show ?thesis by (rule kept_trans)
next
  case (Some s)
  then have "length src + 32 \<le> n"
    using e by (auto simp: encapsulate_def format_packet_data_def DATA_OVERHEAD_SZ_def bind_eq_Some_conv split: if_splits)
  from encapsulate_total [OF c inv this] e show ?thesis by (metis option.inject prod.inject)
qed

lemma send_queued_kept:
  assumes c: "crypto_laws c" and inv: "tunn_inv b t w" and e: "send_queued_packet c t n w = Some (r, t', w')"
  shows "kept b t w t' w'"
proof (cases "packet_queue t")
  case Nil
  then show ?thesis using e inv by (auto simp: send_queued_packet_def dequeue_packet_def kept_same)
next
  case (Cons p ps)
  have q: "kept b t w (t\<lparr>packet_queue := ps\<rparr>) w"
    using inv_queue(3) [OF inv] Cons by (intro kept_same) (simp_all add: dequeue_packet_def)
  obtain r1 t1 w1 where x1: "encapsulate c (t\<lparr>packet_queue := ps\<rparr>) p n w = Some (r1, t1, w1)"
    using e Cons by (auto simp: send_queued_packet_def dequeue_packet_def bind_eq_Some_conv)
  with e Cons have "w1 = w' \<and> (t' = t1 \<or> t' = requeue_packet t1 p)"
    by (cases r1) (auto simp: send_queued_packet_def dequeue_packet_def)
  with x1 have x: "encapsulate c (t\<lparr>packet_queue := ps\<rparr>) p n w = Some (r1, t1, w')"
    "t' = t1 \<or> t' = requeue_packet t1 p" by auto
  note k = kept_trans [OF q encapsulate_kept [OF c keptD(1) [OF q] x(1)]]
  have "kept b t1 w' (requeue_packet t1 p) w'"
    by (rule kept_same) (auto intro: inv_intros keptD(1) [OF k])
  with k kept_trans x(2) show ?thesis by blast
qed

lemma decapsulate_kept:
  assumes c: "crypto_laws c" and inv: "tunn_inv b t w" and n: "64 \<le> n" "length d \<le> n"
    and e: "decapsulate c t a d n w = Some (r, t', w')"
  shows "kept b t w t' w'"
proof (cases "d = []")
  case True
  then show ?thesis using send_queued_kept [OF c inv] e by (simp add: decapsulate_def)
next
  case False
  from decapsulate_total [OF c inv n, of a] False e show ?thesis by (metis option.inject prod.inject)
qed

section \<open>The contract of the handlers\<close>

definition tunnels_ok :: "'u dev_world \<Rightarrow> bool" where
  "tunnels_ok w \<longleftrightarrow> (\<forall>p \<in> set (peer_store w). tunn_inv (peer_idx p) (tunnel p) (tw w))"

definition peers_kept :: "'u dev_world \<Rightarrow> 'u dev_world \<Rightarrow> bool" where
  "peers_kept w w' \<longleftrightarrow>
     length (peer_store w') = length (peer_store w) \<and> tw_le (tw w) (tw w') \<and> tunnels_ok w' \<and>
     (\<forall>i < length (peer_store w). peer_idx (peer_store w' ! i) = peer_idx (peer_store w ! i) \<and>
        allowed_ips (peer_store w' ! i) = allowed_ips (peer_store w ! i))"

lemma peers_keptD:
  assumes "peers_kept w w'"
  shows "length (peer_store w') = length (peer_store w)" "tw_le (tw w) (tw w')" "tunnels_ok w'"
    "i < length (peer_store w) \<Longrightarrow> peer_idx (peer_store w' ! i) = peer_idx (peer_store w ! i)"
    "i < length (peer_store w) \<Longrightarrow> allowed_ips (peer_store w' ! i) = allowed_ips (peer_store w ! i)"
  using assms by (auto simp: peers_kept_def)

lemma peers_kept_refl [simp]: "tunnels_ok w \<Longrightarrow> peers_kept w w"
  by (simp add: peers_kept_def)

lemma peers_kept_trans [trans]: "peers_kept a b \<Longrightarrow> peers_kept b d \<Longrightarrow> peers_kept a d"
  by (auto simp: peers_kept_def intro: tw_le_trans)

lemma tunnel_ok: "tunnels_ok w \<Longrightarrow> i < length (peer_store w) \<Longrightarrow>
  tunn_inv (peer_idx (peer_store w ! i)) (tunnel (peer_store w ! i)) (tw w)"
  by (simp add: tunnels_ok_def)

text \<open>System calls leave the peers alone.\<close>

lemma os_fields [simp]:
  "peer_store (snd (os_call x w)) = peer_store w" "tw (snd (os_call x w)) = tw w"
  by (simp_all add: os_call_def)

lemma os_all_fields: "peer_store (snd (os_all xs w)) = peer_store w \<and> tw (snd (os_all xs w)) = tw w"
proof (induction xs arbitrary: w)
  case (Cons x xs)
  then show ?case by (auto simp: Let_def split_beta)
qed simp

lemmas os_all_simps [simp] = os_all_fields [THEN conjunct1] os_all_fields [THEN conjunct2]

lemma kept_fields: "tunnels_ok w \<Longrightarrow> peer_store w' = peer_store w \<Longrightarrow> tw w' = tw w \<Longrightarrow> peers_kept w w'"
  by (simp add: peers_kept_def tunnels_ok_def)

lemma kept_put:
  assumes w: "tunnels_ok w" and k: "tunn_inv (peer_idx p) (tunnel p) v"
    and p: "peer_idx p = peer_idx (peer_store w ! i)" "allowed_ips p = allowed_ips (peer_store w ! i)"
    and le: "tw_le (tw w) v"
  shows "peers_kept w (put_peer i p (w\<lparr>tw := v\<rparr>))"
proof -
  have "tunn_inv (peer_idx q) (tunnel q) v" if "q \<in> set (peer_store w)" for q
    using w that inv_mono [OF _ le] by (auto simp: tunnels_ok_def)
  then have "tunnels_ok (put_peer i p (w\<lparr>tw := v\<rparr>))"
    using k by (auto simp: tunnels_ok_def put_peer_def dest!: set_update_subset_insert [THEN subsetD])
  moreover have "peer_idx ((peer_store w)[i := p] ! j) = peer_idx (peer_store w ! j) \<and>
      allowed_ips ((peer_store w)[i := p] ! j) = allowed_ips (peer_store w ! j)" if "j < length (peer_store w)" for j
    using p that by (cases "i = j") auto
  ultimately show ?thesis using le by (simp add: peers_kept_def put_peer_def)
qed

lemma kept_put_tunnel:
  assumes w: "tunnels_ok w" and i: "p = peer_store w ! i"
    and k: "kept (peer_idx p) (tunnel p) (tw w) t v"
  shows "peers_kept w (put_peer i (p\<lparr>tunnel := t\<rparr>) (w\<lparr>tw := v\<rparr>))"
  using kept_put [OF w, of "p\<lparr>tunnel := t\<rparr>" v i] keptD(1,2) [OF k] i by simp

lemma kept_put_endpoint:
  assumes w: "tunnels_ok w" and i: "i < length (peer_store w)" "p = peer_store w ! i"
    and f: "peer_store w' = peer_store w" "tw w' = tw w"
  shows "peers_kept w (put_peer i (p\<lparr>endpoint := e\<rparr>) w')"
proof -
  have "tunnels_ok (put_peer i (p\<lparr>endpoint := e\<rparr>) w')"
    using w i f tunnel_ok [OF w i(1)]
    by (auto simp: tunnels_ok_def put_peer_def dest!: set_update_subset_insert [THEN subsetD])
  then show ?thesis using i f by (auto simp: peers_kept_def put_peer_def nth_list_update)
qed

section \<open>Endpoints\<close>

lemma drop_conn_fields:
  "drop_conn x w = Some w' \<Longrightarrow> peer_store w' = peer_store w \<and> tw w' = tw w"
  by (auto simp: drop_conn_def Let_def split_beta split: if_splits)

lemma endpoint_self: "\<exists>e. p = p\<lparr>endpoint := e\<rparr>"
  by (rule exI [of _ "endpoint p"]) simp

lemma shutdown_endpoint_only:
  assumes "shutdown_endpoint p w = Some (p', w')"
  shows "\<exists>e. p' = p\<lparr>endpoint := e\<rparr>" "peer_store w' = peer_store w" "tw w' = tw w"
proof -
  show "\<exists>e. p' = p\<lparr>endpoint := e\<rparr>"
    using assms by (auto simp: shutdown_endpoint_def split: option.splits bind_splits intro: endpoint_self)
  show "peer_store w' = peer_store w" "tw w' = tw w"
    using assms by (auto simp: shutdown_endpoint_def split: option.splits bind_splits dest: drop_conn_fields)
qed

lemma set_endpoint_only:
  assumes "set_endpoint p a w = Some (b, p', w')"
  shows "\<exists>e. p' = p\<lparr>endpoint := e\<rparr>" "peer_store w' = peer_store w" "tw w' = tw w"
proof -
  show "\<exists>e. p' = p\<lparr>endpoint := e\<rparr>"
    using assms by (auto simp: set_endpoint_def split: if_splits bind_splits intro: endpoint_self)
  show "peer_store w' = peer_store w" "tw w' = tw w"
    using assms by (auto simp: set_endpoint_def split: option.splits if_splits bind_splits dest: drop_conn_fields)
qed

lemma connect_endpoint_only:
  assumes "connect_endpoint p port mark w = Some (r, p', w')"
  shows "\<exists>e. p' = p\<lparr>endpoint := e\<rparr>" "peer_store w' = peer_store w" "tw w' = tw w"
proof -
  let ?e = "\<lambda>x. (endpoint p)\<lparr>ep_conn := Some x\<rparr>"
  have "(p' = p \<or> (\<exists>x. p' = p\<lparr>endpoint := ?e x\<rparr>)) \<and> peer_store w' = peer_store w \<and> tw w' = tw w"
    using assms unfolding connect_endpoint_def Let_def split_beta
    by (cases "ep_addr (endpoint p)") (auto simp del: os_all.simps split: if_splits)
  then show "\<exists>e. p' = p\<lparr>endpoint := e\<rparr>" "peer_store w' = peer_store w" "tw w' = tw w"
    using endpoint_self [of p] by blast+
qed

text \<open>A change of one peer's endpoint, in any environment with the same peers and tunnels.\<close>

lemma kept_endpoint:
  assumes w: "tunnels_ok w" and i: "i < length (peer_store w)"
    and p: "\<exists>e. p' = (peer_store w ! i)\<lparr>endpoint := e\<rparr>" and f: "peer_store w' = peer_store w" "tw w' = tw w"
  shows "peers_kept w (put_peer i p' w')"
  using p kept_put_endpoint [OF w i refl f] by auto

lemma shutdown_peers_kept:
  "tunnels_ok w \<Longrightarrow> \<forall>(k, i) \<in> set ps. i < length (peer_store w) \<Longrightarrow> shutdown_peers ps w = Some w' \<Longrightarrow> peers_kept w w'"
proof (induction ps arbitrary: w)
  case (Cons x ps)
  obtain k i where x: "x = (k, i)" by force
  obtain p w1 where s: "shutdown_endpoint (peer_store w ! i) w = Some (p, w1)"
    and r: "shutdown_peers ps (put_peer i p w1) = Some w'"
    using Cons.prems(3) by (auto simp: x bind_eq_Some_conv)
  have k: "peers_kept w (put_peer i p w1)"
    by (rule kept_endpoint [OF Cons.prems(1) _ shutdown_endpoint_only [OF s]]) (use Cons.prems(2) x in auto)
  have "peers_kept (put_peer i p w1) w'"
    by (rule Cons.IH [OF peers_keptD(3) [OF k] _ r]) (use Cons.prems(2) peers_keptD(1) [OF k] in auto)
  with k show ?case by (rule peers_kept_trans)
qed auto

section \<open>Timers and packets\<close>

lemma timer_peer_kept:
  assumes c: "crypto_laws c" and w: "tunnels_ok w" and i: "i < length (peer_store w)"
    and t: "timer_peer c u4 u6 i w = Some w'"
  shows "peers_kept w w'"
proof (cases "ep_addr (endpoint (peer_store w ! i))")
  case None
  then show ?thesis using t w by (simp add: timer_peer_def)
next
  case (Some a)
  let ?p = "peer_store w ! i"
  obtain r t1 v where u: "update_timers c (tunnel ?p) MAX_UDP_SIZE (tw w) = Some (r, t1, v)"
    and k: "kept (peer_idx ?p) (tunnel ?p) (tw w) t1 v"
    by (rule update_timers_total [OF c tunnel_ok [OF w i], of MAX_UDP_SIZE]) (simp add: MAX_UDP_SIZE_def)
  define w1 where "w1 = put_peer i (?p\<lparr>tunnel := t1\<rparr>) (w\<lparr>tw := v\<rparr>)"
  have k1: "peers_kept w w1" unfolding w1_def by (rule kept_put_tunnel [OF w refl k])
  have i1: "i < length (peer_store w1)" "peer_store w1 ! i = ?p\<lparr>tunnel := t1\<rparr>"
    using i by (simp_all add: w1_def put_peer_def)
  note ok1 = peers_keptD(3) [OF k1]
  consider "w' = w1" | p w2 where "shutdown_endpoint (?p\<lparr>tunnel := t1\<rparr>) w1 = Some (p, w2)" "w' = put_peer i p w2"
    | u packet where "w' = send_to u a packet w1"
    using t Some u
    by (cases r) (auto simp: timer_peer_def Peer_update_timers_def w1_def Let_def bind_eq_Some_conv
        split: WireGuardError.splits)
  then have "peers_kept w1 w'"
  proof cases
    case 2
    then show ?thesis
      using kept_endpoint [OF ok1 i1(1), unfolded i1(2)] shutdown_endpoint_only [OF 2(1)] by auto
  qed (use ok1 in \<open>auto simp: send_to_def intro: kept_fields\<close>)
  with k1 show ?thesis by (rule peers_kept_trans)
qed

lemma timer_peers_kept:
  assumes c: "crypto_laws c"
  shows "tunnels_ok w \<Longrightarrow> \<forall>(k, i) \<in> set ps. i < length (peer_store w) \<Longrightarrow> timer_peers c u4 u6 ps w = Some w' \<Longrightarrow>
    peers_kept w w'"
proof (induction ps arbitrary: w)
  case (Cons x ps)
  obtain k i where x: "x = (k, i)" by force
  obtain w1 where s: "timer_peer c u4 u6 i w = Some w1" and r: "timer_peers c u4 u6 ps w1 = Some w'"
    using Cons.prems(3) by (auto simp: x bind_eq_Some_conv)
  have k: "peers_kept w w1" by (rule timer_peer_kept [OF c Cons.prems(1) _ s]) (use Cons.prems(2) x in auto)
  have "peers_kept w1 w'"
    by (rule Cons.IH [OF peers_keptD(3) [OF k] _ r]) (use Cons.prems(2) peers_keptD(1) [OF k] in auto)
  with k show ?case by (rule peers_kept_trans)
qed auto

lemma flush_queue_kept:
  assumes c: "crypto_laws c" and f: "flush_queue c t w = Some (ps, t', w')" and inv: "tunn_inv b t w"
  shows "kept b t w t' w'"
proof -
  let ?P = "\<lambda>c t w r. crypto_laws c \<longrightarrow> tunn_inv b t w \<longrightarrow> kept b t w (fst (snd r)) (snd (snd r))"
  have "?P c t w (ps, t', w')"
  proof (rule flush_queue.raw_induct [OF _ f, where P = ?P], intro impI)
    fix f :: "crypto \<Rightarrow> Tunn \<Rightarrow> tunn_world \<Rightarrow> (bytes list \<times> Tunn \<times> tunn_world) option" and c t w y
    assume IH: "\<And>c t w y. f c t w = Some y \<Longrightarrow> ?P c t w y"
      and s: "decapsulate c t None [] MAX_UDP_SIZE w \<bind> (\<lambda>(r, t, w). case r of
           WriteToNetwork packet \<Rightarrow> f c t w \<bind> (\<lambda>(ps, t, w). Some (packet # ps, t, w))
         | _ \<Rightarrow> Some ([], t, w)) = Some y"
      and c: "crypto_laws c" and i: "tunn_inv b t w"
    obtain r t1 w1 where d: "decapsulate c t None [] MAX_UDP_SIZE w = Some (r, t1, w1)"
      using s by (auto simp: bind_eq_Some_conv)
    have k: "kept b t w t1 w1" by (rule decapsulate_kept [OF c i _ _ d]) (simp_all add: MAX_UDP_SIZE_def)
    show "kept b t w (fst (snd y)) (snd (snd y))"
    proof (cases "\<exists>p. r = WriteToNetwork p")
      case True
      then obtain z where z: "f c t1 w1 = Some z" "snd y = snd z"
        using s d by (auto simp: bind_eq_Some_conv)
      with IH [OF z(1)] c keptD(1) [OF k] k show ?thesis by (auto intro: kept_trans)
    next
      case False
      with s d k show ?thesis by (cases r) auto
    qed
  qed
  with c inv show ?thesis by simp
qed

lemma fold_send_kept:
  assumes "\<And>x w. peer_store (send x w) = peer_store w \<and> tw (send x w) = tw w"
  shows "peer_store (fold send xs w) = peer_store w \<and> tw (fold send xs w) = tw w"
  by (induction xs arbitrary: w) (use assms in auto)

abbreviation quiet_send :: "(bytes \<Rightarrow> 'u dev_world \<Rightarrow> 'u dev_world) \<Rightarrow> bool" where
  "quiet_send send \<equiv> (\<forall>x w. peer_store (send x w) = peer_store w \<and> tw (send x w) = tw w)"

lemma flush_peer_kept:
  assumes c: "crypto_laws c" and w: "tunnels_ok w" and i: "i < length (peer_store w)" and q: "quiet_send send"
    and f: "flush_peer c i send w = Some w'"
  shows "peers_kept w w'"
proof -
  let ?p = "peer_store w ! i"
  obtain ps t v where fq: "flush_queue c (tunnel ?p) (tw w) = Some (ps, t, v)"
    and w': "w' = fold send ps (put_peer i (?p\<lparr>tunnel := t\<rparr>) (w\<lparr>tw := v\<rparr>))"
    using f by (auto simp: flush_peer_def Let_def bind_eq_Some_conv)
  have k: "peers_kept w (put_peer i (?p\<lparr>tunnel := t\<rparr>) (w\<lparr>tw := v\<rparr>))"
    by (rule kept_put_tunnel [OF w refl flush_queue_kept [OF c fq tunnel_ok [OF w i]]])
  have "peers_kept (put_peer i (?p\<lparr>tunnel := t\<rparr>) (w\<lparr>tw := v\<rparr>)) w'"
    unfolding w' using fold_send_kept [of send ps] q by (intro kept_fields [OF peers_keptD(3) [OF k]]) simp_all
  with k show ?thesis by (rule peers_kept_trans)
qed

lemma act_on_result_kept:
  assumes c: "crypto_laws (lib_crypto L)" and w: "tunnels_ok w" and i: "i < length (peer_store w)" and q: "quiet_send send"
    and a: "act_on_result L ifc i send r w = Some w'"
  shows "peers_kept w w'"
proof (cases "\<exists>p. r = WriteToNetwork p")
  case True
  then obtain x where x: "flush_peer (lib_crypto L) i send (send x w) = Some w'"
    using a by (auto simp: act_on_result_def)
  have k: "peers_kept w (send x w)" using q by (intro kept_fields [OF w]) auto
  have "peers_kept (send x w) w'" by (rule flush_peer_kept [OF c peers_keptD(3) [OF k] _ q x]) (use i q in simp)
  with k show ?thesis by (rule peers_kept_trans)
next
  case False
  then show ?thesis
    using a w by (cases r) (auto simp: act_on_result_def Let_def intro!: kept_fields split: if_splits)
qed

text \<open>A handler changes the device at most by registering handlers of connected sockets, for peers in the store.\<close>

fun conn_peer :: "Handler \<Rightarrow> nat option" where
  "conn_peer (ConnHandler i _ _) = Some i"
| "conn_peer _ = None"

definition handlers_ok :: "Handler EventPoll \<Rightarrow> nat \<Rightarrow> bool" where
  "handlers_ok q n \<longleftrightarrow> (\<forall>ev i. Some ev \<in> set (events q) \<longrightarrow> conn_peer (ev_handler ev) = Some i \<longrightarrow> i < n)"

definition queue_step :: "nat \<Rightarrow> 'p Device \<Rightarrow> 'p Device \<Rightarrow> bool" where
  "queue_step n d d' \<longleftrightarrow> (\<exists>q. d' = d\<lparr>queue := q\<rparr> \<and> (handlers_ok (queue d) n \<longrightarrow> handlers_ok q n))"

lemma queue_step_refl [simp]: "queue_step n d d"
  unfolding queue_step_def by (rule exI [of _ "queue d"]) simp

lemma queue_step_trans: "queue_step n d d1 \<Longrightarrow> queue_step n d1 d2 \<Longrightarrow> queue_step n d d2"
  by (auto simp: queue_step_def)

lemma handlers_register:
  assumes "register_event q ev w = (r, q', w')" and h: "handlers_ok q n"
    and i: "\<And>i. conn_peer (ev_handler ev) = Some i \<Longrightarrow> i < n"
  shows "handlers_ok q' n"
proof -
  define k where "k = Suc (fd_index (ev_fd ev)) - length (events q)"
  have e: "events q' = (events q @ replicate k None)[fd_index (ev_fd ev) := Some ev]"
    using assms(1) by (auto simp: register_event_def insert_at_def k_def Let_def split_beta split: if_splits)
  have "x = ev \<or> Some x \<in> set (events q)" if "Some x \<in> set (events q')" for x
    using that set_update_subset_insert [of "events q @ replicate k None" "fd_index (ev_fd ev)" "Some ev"] unfolding e by auto
  then show ?thesis using h i unfolding handlers_ok_def by blast
qed

lemma handlers_clear: "clear_event_by_fd q fd w = Some (q', w') \<Longrightarrow> handlers_ok q n \<Longrightarrow> handlers_ok q' n"
  using set_update_subset_insert [of "events q" "nat fd" None]
  by (auto simp: clear_event_by_fd_def bind_eq_Some_conv handlers_ok_def split: if_splits)

lemma new_event_fields:
  assumes "new_event q fd h w = (r, q', w')"
  shows "peer_store w' = peer_store w" "tw w' = tw w"
  using assms
  by (auto simp: new_event_def register_event_def insert_at_def Let_def split_beta split: if_splits)

lemma register_conn_only:
  assumes "register_conn_handler d i s a w = (r, d', w')"
  shows "i < n \<Longrightarrow> queue_step n d d'" "peer_store w' = peer_store w" "tw w' = tw w"
proof -
  obtain r1 q w1 where n: "new_event (queue d) s (ConnHandler i s a) w = (r1, q, w1)" by (metis prod_cases3)
  then show "peer_store w' = peer_store w" "tw w' = tw w"
    using assms new_event_fields [OF n] by (auto simp: register_conn_handler_def)
  show "queue_step n d d'" if "i < n"
    using handlers_register [OF n [unfolded new_event_def]] assms n that
    by (auto simp: queue_step_def register_conn_handler_def)
qed

lemma update_endpoint_kept:
  assumes w: "tunnels_ok w" and i: "i < length (peer_store w)" and u: "update_endpoint d i a w = Some (d', w')"
  shows "peers_kept w w' \<and> queue_step (length (peer_store w)) d d'"
proof -
  obtain ch p w1 where s: "set_endpoint (peer_store w ! i) a w = Some (ch, p, w1)"
    using u by (auto simp: update_endpoint_def bind_eq_Some_conv)
  define w2 where "w2 = put_peer i p w1"
  have k2: "peers_kept w w2" unfolding w2_def by (rule kept_endpoint [OF w i set_endpoint_only [OF s]])
  have i2: "i < length (peer_store w2)" "peer_store w2 ! i = p"
    using i set_endpoint_only(2) [OF s] by (simp_all add: w2_def put_peer_def)
  show ?thesis
  proof (cases "use_connected_socket (dev_config d) \<and> (ch \<or> ep_conn (endpoint p) = None)")
    case False
    then show ?thesis using u s k2 queue_step_refl by (auto simp: update_endpoint_def w2_def)
  next
    case True
    obtain r p3 w3 where c: "connect_endpoint p (listen_port d) (fwmark d) w2 = Some (r, p3, w3)"
      using u s True by (auto simp: update_endpoint_def w2_def bind_eq_Some_conv)
    have k3: "peers_kept w2 (put_peer i p3 w3)"
      by (rule kept_endpoint [OF peers_keptD(3) [OF k2] i2(1)])
        (use connect_endpoint_only [OF c] i2(2) in auto)
    note ok3 = peers_keptD(3) [OF k3]
    have "peers_kept (put_peer i p3 w3) w' \<and> queue_step (length (peer_store w)) d d'"
    proof (cases r)
      case (Ok sock)
      obtain r4 d4 w4 where g: "register_conn_handler d i sock (sock_ip a) (put_peer i p3 w3) = (r4, d4, w4)"
        by (metis prod_cases3)
      have "d' = d4 \<and> w' = w4"
        using u s True c Ok g by (auto simp: update_endpoint_def w2_def split: result.splits)
      with register_conn_only [OF g] kept_fields [OF ok3] i show ?thesis by auto
    next
      case (Err e)
      then show ?thesis using u s True c ok3 queue_step_refl by (auto simp: update_endpoint_def w2_def)
    qed
    with k2 k3 show ?thesis by (blast intro: peers_kept_trans)
  qed
qed

lemma peer_of_packet_in:
  assumes "peer_of_packet L d sk pk m = Some (Some i)"
  shows "i \<in> snd ` set (peers d) \<or> (\<exists>j. peers_by_idx d j = Some i)"
proof (cases m)
  case (HandshakeInit p)
  then obtain r where "parse_handshake_anon (lib_crypto L) sk pk p = Some r"
    "(case r of Ok hh \<Rightarrow> map_of (peers d) (half_peer_static_public hh) | Err _ \<Rightarrow> None) = Some i"
    using assms by (auto simp: peer_of_packet_def bind_eq_Some_conv)
  then obtain k where "map_of (peers d) k = Some i" by (cases r) auto
  then show ?thesis by (force dest: map_of_SomeD)
qed (use assms in \<open>auto simp: peer_of_packet_def\<close>)

lemma quiet_send_to: "quiet_send (send_to udp a)" and quiet_send_conn: "quiet_send (send_conn udp)"
  by (simp_all add: send_to_def send_conn_def)

lemma kept_world: "tunnels_ok w \<Longrightarrow> tw_le (tw w) v \<Longrightarrow> peers_kept w (w\<lparr>tw := v\<rparr>)"
  by (auto simp: peers_kept_def tunnels_ok_def intro: inv_mono)

text \<open>A datagram on the listening socket, of a size the receive buffer can hold.\<close>

lemma udp_packet_kept:
  assumes c: "crypto_laws (lib_crypto L)" and w: "tunnels_ok w"
    and r: "\<And>i. i \<in> snd ` set (peers d) \<or> (\<exists>j. peers_by_idx d j = Some i) \<Longrightarrow> i < length (peer_store w)"
    and n: "length x \<le> MAX_UDP_SIZE" and u: "udp_packet L sk pk limiter ifc udp d a x w = Some (b, d', w')"
  shows "peers_kept w w' \<and> queue_step (length (peer_store w)) d d'"
proof -
  let ?c = "lib_crypto L"
  obtain res v where v: "limiter_verify_packet ?c limiter (Some (sock_ip a)) x MAX_UDP_SIZE (tw w) = (res, v)" by force
  define w1 where "w1 = w\<lparr>tw := v\<rparr>"
  have le: "tw_le (tw w) v" by (rule limiter_verify_cases [OF c v])
  have k1: "peers_kept w w1" unfolding w1_def by (rule kept_world [OF w le])
  note ok1 = peers_keptD(3) [OF k1]
  note u' = u [unfolded udp_packet_def Let_def v prod.case w1_def [symmetric]]
  from c v show ?thesis
  proof (cases rule: limiter_verify_cases)
    case (ok m)
    obtain po where po: "peer_of_packet L d sk pk m = Some po"
      using u' ok by (auto simp: bind_eq_Some_conv)
    show ?thesis
    proof (cases po)
      case None
      then show ?thesis using u' ok po k1 queue_step_refl by auto
    next
      case (Some i)
      have i: "i < length (peer_store w1)" using r [OF peer_of_packet_in [OF po [unfolded Some]]] by (simp add: w1_def)
      let ?p = "peer_store w1 ! i"
      have l: "length (pd_encrypted_encapsulated_packet y) \<le> MAX_UDP_SIZE" if "m = PacketData y" for y
        using ok(2) that n by (auto simp: parse_incoming_packet_def Let_def split: if_splits)
      obtain res t v2 where h: "handle_verified_packet ?c (tunnel ?p) m MAX_UDP_SIZE (tw w1) = Some (res, t, v2)"
        and kp: "kept (peer_idx ?p) (tunnel ?p) (tw w1) t v2"
        by (rule handle_verified_total [OF c tunnel_ok [OF ok1 i] wf_parsed [OF ok(2)], of MAX_UDP_SIZE])
          (use l in \<open>auto simp: MAX_UDP_SIZE_def\<close>)
      define w2 where "w2 = put_peer i (?p\<lparr>tunnel := t\<rparr>) (w1\<lparr>tw := v2\<rparr>)"
      have k2: "peers_kept w w2"
        unfolding w2_def by (rule peers_kept_trans [OF k1 kept_put_tunnel [OF ok1 refl kp]])
      have i2: "i < length (peer_store w2)" using i peers_keptD(1) [OF k1] peers_keptD(1) [OF k2] by simp
      show ?thesis
      proof (cases "\<exists>e. res = TunnErr e")
        case True
        then show ?thesis using u' ok po Some h k2 queue_step_refl by (auto simp: w2_def)
      next
        case False
        then obtain w3 where a3: "act_on_result L ifc i (send_to udp a) res w2 = Some w3"
          and u3: "update_endpoint d i a w3 = Some (d', w')"
          using u' ok po Some h by (cases res) (auto simp: w2_def bind_eq_Some_conv)
        have k3: "peers_kept w2 w3"
          by (rule act_on_result_kept [OF c peers_keptD(3) [OF k2] i2 quiet_send_to a3])
        have "peers_kept w3 w' \<and> queue_step (length (peer_store w3)) d d'"
          by (rule update_endpoint_kept [OF peers_keptD(3) [OF k3] _ u3]) (use i2 peers_keptD(1) [OF k3] in simp)
        with k2 k3 show ?thesis using peers_keptD(1) [OF k2] peers_keptD(1) [OF k3] by (auto intro: peers_kept_trans)
      qed
    qed
  next
    case (cookie reply)
    have "peers_kept w1 (send_to udp a reply w1)" by (rule kept_fields [OF ok1]) (simp_all add: send_to_def)
    with cookie show ?thesis using u' k1 queue_step_refl by (auto intro: peers_kept_trans)
  next
    case (err e)
    then show ?thesis using u' k1 queue_step_refl by auto
  qed
qed

lemma conn_packet_kept:
  assumes c: "crypto_laws (lib_crypto L)" and w: "tunnels_ok w" and i: "i < length (peer_store w)"
    and n: "length x \<le> MAX_UDP_SIZE" and u: "conn_packet L ifc i udp a x w = Some w'"
  shows "peers_kept w w'"
proof -
  let ?p = "peer_store w ! i"
  obtain r t v where d: "decapsulate (lib_crypto L) (tunnel ?p) (Some a) x MAX_UDP_SIZE (tw w) = Some (r, t, v)"
    and s: "act_on_result L ifc i (send_conn udp) r (put_peer i (?p\<lparr>tunnel := t\<rparr>) (w\<lparr>tw := v\<rparr>)) = Some w'"
    using u by (auto simp: conn_packet_def Let_def bind_eq_Some_conv)
  have "kept (peer_idx ?p) (tunnel ?p) (tw w) t v"
    by (rule decapsulate_kept [OF c tunnel_ok [OF w i] _ n d]) (simp add: MAX_UDP_SIZE_def)
  then have k: "peers_kept w (put_peer i (?p\<lparr>tunnel := t\<rparr>) (w\<lparr>tw := v\<rparr>))"
    by (rule kept_put_tunnel [OF w refl])
  have "peers_kept (put_peer i (?p\<lparr>tunnel := t\<rparr>) (w\<lparr>tw := v\<rparr>)) w'"
    by (rule act_on_result_kept [OF c peers_keptD(3) [OF k] _ quiet_send_conn s]) (use i peers_keptD(1) [OF k] in simp)
  with k show ?thesis by (rule peers_kept_trans)
qed

lemma iface_packet_kept:
  assumes c: "crypto_laws (lib_crypto L)" and w: "tunnels_ok w"
    and u: "iface_packet L u4 u6 d x w = Some w'"
    and r: "\<And>i a. AllowedIps_find (dev_table L) (peers_by_ip d) a = Some i \<Longrightarrow> i < length (peer_store w)"
  shows "peers_kept w w'"
proof (cases "\<exists>a i. dst_address x = Some a \<and> AllowedIps_find (dev_table L) (peers_by_ip d) a = Some i")
  case False
  then show ?thesis using u w by (auto simp: iface_packet_def split: option.splits)
next
  case True
  then obtain a i where a: "dst_address x = Some a" "AllowedIps_find (dev_table L) (peers_by_ip d) a = Some i" by blast
  let ?p = "peer_store w ! i"
  obtain res t v where e: "encapsulate (lib_crypto L) (tunnel ?p) x MAX_UDP_SIZE (tw w) = Some (res, t, v)"
    using u a by (auto simp: iface_packet_def Let_def bind_eq_Some_conv)
  define w1 where "w1 = put_peer i (?p\<lparr>tunnel := t\<rparr>) (w\<lparr>tw := v\<rparr>)"
  have k: "peers_kept w w1"
    unfolding w1_def by (rule kept_put_tunnel [OF w refl encapsulate_kept [OF c tunnel_ok [OF w r [OF a(2)]] e]])
  have "w' = w1 \<or> (\<exists>y. w' = send_encapsulated u4 u6 (endpoint ?p) y w1)"
    using u a e by (cases res) (auto simp: iface_packet_def w1_def Let_def)
  then have "peers_kept w1 w'"
    using peers_keptD(3) [OF k]
    by (auto simp: send_encapsulated_def send_conn_def send_to_def intro!: kept_fields split: option.splits)
  with k show ?thesis by (rule peers_kept_trans)
qed

section \<open>Handlers\<close>

text \<open>
  The tables of the device point into the store and agree: every peer is found under its index, every index
  leads to a peer that has it, and every route leads to a configured peer.
\<close>

definition tables_ok :: "('u, 'p) libs \<Rightarrow> 'p Device \<Rightarrow> 'u dev_world \<Rightarrow> bool" where
  "tables_ok L d w \<longleftrightarrow>
     distinct (map fst (peers d)) \<and> distinct (map snd (peers d)) \<and>
     (\<forall>i \<in> snd ` set (peers d). i < length (peer_store w) \<and> peers_by_idx d (peer_idx (peer_store w ! i)) = Some i) \<and>
     (\<forall>j i. peers_by_idx d j = Some i \<longrightarrow> i \<in> snd ` set (peers d) \<and> peer_idx (peer_store w ! i) = j) \<and>
     (\<forall>n i. entries (dev_table L) (peers_by_ip d) n = Some i \<longrightarrow> i \<in> snd ` set (peers d))"

lemma tables_okD:
  assumes "tables_ok L d w"
  shows "distinct (map fst (peers d))" "distinct (map snd (peers d))"
    "i \<in> snd ` set (peers d) \<Longrightarrow> i < length (peer_store w)"
    "i \<in> snd ` set (peers d) \<Longrightarrow> peers_by_idx d (peer_idx (peer_store w ! i)) = Some i"
    "peers_by_idx d j = Some i \<Longrightarrow> i \<in> snd ` set (peers d)"
    "peers_by_idx d j = Some i \<Longrightarrow> peer_idx (peer_store w ! i) = j"
    "entries (dev_table L) (peers_by_ip d) n = Some i \<Longrightarrow> i \<in> snd ` set (peers d)"
  using assms unfolding tables_ok_def by blast+

lemma tables_ok_kept:
  assumes t: "tables_ok L d w" and k: "peers_kept w w'"
    and d: "peers d' = peers d" "peers_by_idx d' = peers_by_idx d" "peers_by_ip d' = peers_by_ip d"
  shows "tables_ok L d' w'"
proof -
  have *: "peer_idx (peer_store w' ! i) = peer_idx (peer_store w ! i)" if "i \<in> snd ` set (peers d)" for i
    by (rule peers_keptD(4) [OF k tables_okD(3) [OF t that]])
  show ?thesis
    unfolding tables_ok_def d
    using tables_okD [OF t] * peers_keptD(1) [OF k] by auto
qed

lemma find_entry:
  assumes T: "ip_table_laws T" and f: "AllowedIps_find T t a = Some i"
  shows "\<exists>n. entries T t n = Some i \<and> in_net a n"
proof -
  obtain n where "tbl_longest_match T t a = Some (n, i)" using f by (auto simp: AllowedIps_find_def)
  with ip_table_lawsD(7) [OF T, rule_format, of t a] have "entries T t n = Some i \<and> in_net a n" by simp
  then show ?thesis by (rule exI)
qed

lemma udp_loop_kept:
  assumes c: "crypto_laws (lib_crypto L)"
  shows "tunnels_ok w \<Longrightarrow> tables_ok L d w \<Longrightarrow> \<forall>(a, x) \<in> set inbox. length x \<le> MAX_UDP_SIZE \<Longrightarrow>
    udp_loop L sk pk limiter ifc udp n d inbox w = Some (rest, d', w') \<Longrightarrow>
    peers_kept w w' \<and> queue_step (length (peer_store w)) d d'"
proof (induction inbox arbitrary: n d w)
  case Nil
  then show ?case using queue_step_refl by auto
next
  case (Cons y inbox)
  obtain a x where y: "y = (a, x)" by force
  obtain b d1 w1 where u: "udp_packet L sk pk limiter ifc udp d a x w = Some (b, d1, w1)"
    using Cons.prems(4) by (auto simp: y bind_eq_Some_conv)
  have k: "peers_kept w w1 \<and> queue_step (length (peer_store w)) d d1"
    by (rule udp_packet_kept [OF c Cons.prems(1) _ _ u])
      (use Cons.prems(3) tables_okD [OF Cons.prems(2)] y in auto)
  then obtain q where q: "d1 = d\<lparr>queue := q\<rparr>" by (auto simp: queue_step_def)
  have t1: "tables_ok L d1 w1" by (rule tables_ok_kept [OF Cons.prems(2)]) (use k q in auto)
  have "(b \<and> n - 1 = 0 \<and> d' = d1 \<and> w' = w1) \<or> (\<exists>m. udp_loop L sk pk limiter ifc udp m d1 inbox w1 = Some (rest, d', w'))"
    using Cons.prems(4) u by (cases b) (auto simp: y Let_def split: if_splits)
  moreover have "peers_kept w w' \<and> queue_step (length (peer_store w)) d d'"
    if "udp_loop L sk pk limiter ifc udp m d1 inbox w1 = Some (rest, d', w')" for m
    using Cons.IH [OF _ t1 _ that] Cons.prems(3) k peers_keptD(1,3) by (fastforce intro: peers_kept_trans queue_step_trans)
  ultimately show ?case using k by blast
qed

lemma conn_loop_kept:
  assumes c: "crypto_laws (lib_crypto L)"
  shows "tunnels_ok w \<Longrightarrow> i < length (peer_store w) \<Longrightarrow> \<forall>x \<in> set inbox. length x \<le> MAX_UDP_SIZE \<Longrightarrow>
    conn_loop L ifc i udp a n inbox w = Some (rest, w') \<Longrightarrow> peers_kept w w'"
proof (induction inbox arbitrary: n w)
  case (Cons x inbox)
  obtain w1 where u: "conn_packet L ifc i udp a x w = Some w1"
    using Cons.prems(4) by (auto simp: bind_eq_Some_conv)
  have k: "peers_kept w w1" by (rule conn_packet_kept [OF c Cons.prems(1,2) _ u]) (use Cons.prems(3) in simp)
  show ?case
  proof (cases "n - 1 = 0")
    case False
    then have "conn_loop L ifc i udp a (n - 1) inbox w1 = Some (rest, w')" using Cons.prems(4) u by (simp add: Let_def)
    from Cons.IH [OF peers_keptD(3) [OF k] _ _ this] Cons.prems(2,3) peers_keptD(1) [OF k] k
    show ?thesis by (auto intro: peers_kept_trans)
  qed (use Cons.prems(4) u k in auto)
qed auto

lemma iface_loop_kept:
  assumes c: "crypto_laws (lib_crypto L)" and T: "ip_table_laws (dev_table L)"
  shows "tunnels_ok w \<Longrightarrow> tables_ok L d w \<Longrightarrow> iface_loop L u4 u6 d n inbox w = Some (a, rest, w') \<Longrightarrow> peers_kept w w'"
proof (induction n arbitrary: inbox w)
  case (Suc n)
  show ?case
  proof (cases "\<exists>x xs. inbox = Packet x # xs")
    case False
    then show ?thesis using Suc.prems(1,3) by (auto split: if_splits list.splits iface_input.splits)
  next
    case True
    then obtain x xs where x: "inbox = Packet x # xs" by blast
    obtain w1 where u: "iface_packet L u4 u6 d (take (mtu d) x) w = Some w1"
      and r: "iface_loop L u4 u6 d n xs w1 = Some (a, rest, w')"
      using Suc.prems(3) by (auto simp: x bind_eq_Some_conv split: if_splits)
    have "i < length (peer_store w)" if "AllowedIps_find (dev_table L) (peers_by_ip d) e = Some i" for i e
      using find_entry [OF T that] tables_okD(3,7) [OF Suc.prems(2)] by blast
    then have k: "peers_kept w w1" by (rule iface_packet_kept [OF c Suc.prems(1) u])
    from Suc.IH [OF peers_keptD(3) [OF k] tables_ok_kept [OF Suc.prems(2) k] r] k show ?thesis
      by (auto intro: peers_kept_trans)
  qed
qed simp

end
