(* ===== verification/DeviceReach.thy ===== *)
theory DeviceReach
  imports DeviceInvariant "HOL-Library.Multiset"
begin

text \<open>
  Every state a device reaches, from \<^verbatim>\<open>Device::new\<close> by configuration operations and handlers in any order.

  \<open>dev_inv\<close> says that the tables agree, that each tunnel is consistent with the index of its peer, that indices
  in use were handed out by the generator, and that an address routed to a peer is one the peer may use.
\<close>

section \<open>The libraries\<close>

definition libs_laws :: "('u, 'p) libs \<Rightarrow> bool" where
  "libs_laws L \<longleftrightarrow> crypto_laws (lib_crypto L) \<and> ip_table_laws (peer_table L) \<and> ip_table_laws (dev_table L) \<and>
     (\<forall>ps. mset (hash_order L ps) = mset ps)"

lemma libs_lawsD:
  assumes "libs_laws L"
  shows "crypto_laws (lib_crypto L)" "ip_table_laws (peer_table L)" "ip_table_laws (dev_table L)"
    "mset (hash_order L ps) = mset ps" "set (hash_order L ps) = set ps"
  using assms by (auto simp: libs_laws_def dest: mset_eq_setD)

section \<open>The invariant\<close>

text \<open>The generator has handed out the indices in use.\<close>

definition indices_ok :: "'p Device \<Rightarrow> bool" where
  "indices_ok d \<longleftrightarrow> (\<exists>n. lfsr_used (next_idx d) n \<and> dom (peers_by_idx d) \<subseteq> set (used_indices (next_idx d) n))"

text \<open>What is routed to a peer may come back from it.\<close>

definition routes_ok :: "('u, 'p) libs \<Rightarrow> 'p Device \<Rightarrow> 'u dev_world \<Rightarrow> bool" where
  "routes_ok L d w \<longleftrightarrow>
     (\<forall>n i a. entries (dev_table L) (peers_by_ip d) n = Some i \<longrightarrow> in_net a n \<longrightarrow>
        is_allowed_ip (peer_table L) (peer_store w ! i) a)"

definition dev_inv :: "('u, 'p) libs \<Rightarrow> 'p Device \<Rightarrow> 'u dev_world \<Rightarrow> bool" where
  "dev_inv L d w \<longleftrightarrow> tables_ok L d w \<and> tunnels_ok w \<and> monotone_clock (tw w) \<and> indices_ok d \<and> routes_ok L d w \<and>
     (\<forall>r. dev_rate_limiter d = Some r \<longrightarrow> r < length (limiters (tw w))) \<and> handlers_ok (queue d) (length (peer_store w))"

lemma dev_invD:
  assumes "dev_inv L d w"
  shows "tables_ok L d w" "tunnels_ok w" "monotone_clock (tw w)" "indices_ok d" "routes_ok L d w"
    "dev_rate_limiter d = Some r \<Longrightarrow> r < length (limiters (tw w))" "handlers_ok (queue d) (length (peer_store w))"
  using assms by (auto simp: dev_inv_def)

lemma dev_inv_kept:
  assumes i: "dev_inv L d w" and k: "peers_kept w w'"
    and d: "peers d' = peers d" "peers_by_idx d' = peers_by_idx d" "peers_by_ip d' = peers_by_ip d"
      "next_idx d' = next_idx d" "dev_rate_limiter d' = dev_rate_limiter d"
    and h: "handlers_ok (queue d) (length (peer_store w)) \<Longrightarrow> handlers_ok (queue d') (length (peer_store w))"
  shows "dev_inv L d' w'"
proof -
  have le: "tw_le (tw w) (tw w')" by (rule peers_keptD(2) [OF k])
  have "routes_ok L d' w'"
    unfolding routes_ok_def d
  proof (intro allI impI)
    fix n j a assume n: "entries (dev_table L) (peers_by_ip d) n = Some j" "in_net a n"
    have "j < length (peer_store w)" using tables_okD(3,7) [OF dev_invD(1) [OF i]] n(1) by blast
    moreover have "is_allowed_ip (peer_table L) (peer_store w ! j) a"
      using dev_invD(5) [OF i] n unfolding routes_ok_def by blast
    ultimately show "is_allowed_ip (peer_table L) (peer_store w' ! j) a"
      using peers_keptD(5) [OF k] by (simp add: is_allowed_ip_def)
  qed
  moreover have "indices_ok d'" using dev_invD(4) [OF i] by (simp add: indices_ok_def d)
  moreover have "monotone_clock (tw w')"
    using le dev_invD(3) [OF i] monotone_clock_le by (auto simp: tw_le_def)
  moreover have "r < length (limiters (tw w'))" if "dev_rate_limiter d' = Some r" for r
    using dev_invD(6) [OF i] that le by (force simp: d tw_le_def)
  ultimately show ?thesis
    using tables_ok_kept [OF dev_invD(1) [OF i] k d(1-3)] peers_keptD(1,3) [OF k] h [OF dev_invD(7) [OF i]]
    by (simp add: dev_inv_def)
qed

lemma dev_inv_new:
  assumes l: "libs_laws L" and s: "IndexLfsr_default (w0 :: tunn_world) = Some (s, w1)" and m: "monotone_clock (tw w)"
    and p: "peer_store w = []"
  shows "dev_inv L (Device_init L \<lparr>events = [], epoll = e\<rparr> ifc name n conf s) w"
proof -
  have "entries (dev_table L) (tbl_new (dev_table L)) n = None" for n
    using ip_table_lawsD(4) [OF libs_lawsD(3) [OF l]] by simp
  then show ?thesis
    using IndexLfsr_default_used [OF s] m p
    by (auto simp: dev_inv_def Device_init_def tables_ok_def tunnels_ok_def indices_ok_def routes_ok_def
        handlers_ok_def AllowedIps_new_def)
qed

section \<open>Removing peers\<close>

lemma filtered_values:
  assumes "distinct (map fst xs)" "distinct (map snd xs)" "map_of xs k = Some i"
  shows "snd ` set (filter (\<lambda>(k', _). k' \<noteq> k) xs) = snd ` set xs - {i}"
proof -
  have ki: "(k, i) \<in> set xs" by (rule map_of_SomeD [OF assms(3)])
  have "inj_on fst (set xs)" "inj_on snd (set xs)" using assms(1,2) by (simp_all add: distinct_map)
  then have "k' = k \<longleftrightarrow> j = i" if "(k', j) \<in> set xs" for k' j
    using inj_onD [of fst "set xs" "(k', j)" "(k, i)"] inj_onD [of snd "set xs" "(k', j)" "(k, i)"] that ki by auto
  then show ?thesis by (auto simp: image_iff)
qed

lemma removed_entry:
  assumes "ip_table_laws T" and "entries T (AllowedIps_remove T t (\<lambda>j. j = i)) n = Some j"
  shows "entries T t n = Some j \<and> j \<noteq> i"
  using ip_table_lawsD(6) [OF assms(1), rule_format, of t "\<lambda>_ v. v \<noteq> i" n] assms(2)
  by (simp add: AllowedIps_remove_def split: option.splits if_splits)

lemma remove_peer_tables:
  assumes T: "ip_table_laws (dev_table L)" and t: "tables_ok L d w" and i: "map_of (peers d) k = Some i"
    and p: "peer_idx p = peer_idx (peer_store w ! i)"
  shows "tables_ok L (d\<lparr>peers := filter (\<lambda>(k', _). k' \<noteq> k) (peers d), peers_by_idx := (peers_by_idx d)(peer_idx p := None),
      peers_by_ip := AllowedIps_remove (dev_table L) (peers_by_ip d) (\<lambda>j. j = i)\<rparr>) w"
proof -
  let ?ps = "filter (\<lambda>(k', _). k' \<noteq> k) (peers d)"
  note tD = tables_okD [OF t]
  have s: "snd ` set ?ps = snd ` set (peers d) - {i}" by (rule filtered_values [OF tD(1,2) i])
  have ii: "i \<in> snd ` set (peers d)" using map_of_SomeD [OF i] by force
  have d: "distinct (map fst ?ps)" "distinct (map snd ?ps)" using tD(1,2) by (simp_all add: distinct_map_filter)
  have e: "entries (dev_table L) (AllowedIps_remove (dev_table L) (peers_by_ip d) (\<lambda>j. j = i)) n = Some j \<Longrightarrow>
      j \<in> snd ` set (peers d) - {i}" for n j
    using removed_entry [OF T] tD(7) by blast
  have ne: "peer_idx (peer_store w ! j) \<noteq> peer_idx p" if "j \<in> snd ` set (peers d) - {i}" for j
    using tD(4) [of j] tD(4) [OF ii] that p by auto
  have f: "j \<noteq> i" if "peers_by_idx d x = Some j" "x \<noteq> peer_idx p" for x j
    using tD(6) [OF that(1)] that(2) p by auto
  define d' where "d' = d\<lparr>peers := ?ps, peers_by_idx := (peers_by_idx d)(peer_idx p := None),
      peers_by_ip := AllowedIps_remove (dev_table L) (peers_by_ip d) (\<lambda>j. j = i)\<rparr>"
  have d': "peers d' = ?ps" "peers_by_idx d' = (peers_by_idx d)(peer_idx p := None)"
    "peers_by_ip d' = AllowedIps_remove (dev_table L) (peers_by_ip d) (\<lambda>j. j = i)" by (simp_all add: d'_def)
  have "peers_by_idx d' (peer_idx (peer_store w ! j)) = Some j \<and> j < length (peer_store w)" if "j \<in> snd ` set (peers d')" for j
    using that ne [of j] tD(3,4) [of j] by (simp only: d' s) simp
  moreover have "j \<in> snd ` set (peers d') \<and> peer_idx (peer_store w ! j) = x" if "peers_by_idx d' x = Some j" for x j
    using that f [of x j] tD(5,6) [of x j] by (simp only: d' s) (simp split: if_splits)
  moreover have "j \<in> snd ` set (peers d')" if "entries (dev_table L) (peers_by_ip d') n = Some j" for n j
    using e [of n j] that by (simp only: d' s)
  ultimately have "tables_ok L d' w" using d unfolding tables_ok_def d'(1) [symmetric] by blast
  then show ?thesis by (simp only: d'_def)
qed

lemma remove_peer_inv:
  assumes L: "libs_laws L" and inv: "dev_inv L d w" and r: "remove_peer L d k w = Some (d', w')"
  shows "dev_inv L d' w'"
proof (cases "map_of (peers d) k")
  case None
  then show ?thesis using r inv by (simp add: remove_peer_def)
next
  case (Some i)
  obtain p w1 where s: "shutdown_endpoint (peer_store w ! i) w = Some (p, w1)" and w': "w' = put_peer i p w1"
    and d': "d' = d\<lparr>peers := filter (\<lambda>(k', _). k' \<noteq> k) (peers d), peers_by_idx := (peers_by_idx d)(peer_idx p := None),
      peers_by_ip := AllowedIps_remove (dev_table L) (peers_by_ip d) (\<lambda>j. j = i)\<rparr>"
    using r Some by (auto simp: remove_peer_def Let_def bind_eq_Some_conv)
  note T = libs_lawsD(3) [OF L]
  have i: "i < length (peer_store w)" using tables_okD(3) [OF dev_invD(1) [OF inv]] map_of_SomeD [OF Some] by force
  have "peers_kept w w'"
    unfolding w' by (rule kept_endpoint [OF dev_invD(2) [OF inv] i shutdown_endpoint_only [OF s]])
  then have inv': "dev_inv L d w'" by (rule dev_inv_kept [OF inv]) simp_all
  have p: "peer_idx p = peer_idx (peer_store w' ! i)"
    using i shutdown_endpoint_only(2) [OF s] by (simp add: w' put_peer_def)
  have e: "entries (dev_table L) (peers_by_ip d') n = Some j \<Longrightarrow> entries (dev_table L) (peers_by_ip d) n = Some j" for n j
    by (rule removed_entry [OF T, of _ i, THEN conjunct1]) (simp add: d')
  have "tables_ok L d' w'" unfolding d' by (rule remove_peer_tables [OF T dev_invD(1) [OF inv'] Some p])
  moreover have "routes_ok L d' w'" using dev_invD(5) [OF inv'] e unfolding routes_ok_def by blast
  moreover have "indices_ok d'" using dev_invD(4) [OF inv'] by (auto simp: indices_ok_def d')
  ultimately show ?thesis using dev_invD(2,3,6,7) [OF inv'] by (simp add: dev_inv_def d')
qed

lemma clear_peers_inv:
  assumes L: "libs_laws L" and inv: "dev_inv L d w"
  shows "dev_inv L (clear_peers L d) w"
proof -
  have "entries (dev_table L) (tbl_new (dev_table L)) n = None" for n
    using ip_table_lawsD(4) [OF libs_lawsD(3) [OF L]] by simp
  then show ?thesis
    using inv by (auto simp: dev_inv_def clear_peers_def tables_ok_def indices_ok_def routes_ok_def AllowedIps_clear_def)
qed

section \<open>Changing the key\<close>

lemma set_static_private_inv:
  assumes c: "crypto_laws c" and inv: "tunn_inv b t w" and l: "limiter < length (limiters w)"
    and s: "Tunn_set_static_private c t sk pk (Some limiter) w = Some (t', w')"
  shows "tunn_inv b t' w' \<and> w' = w \<and> sessions t' = map (\<lambda>_. None) (sessions t) \<and> rate_limiter t' = limiter"
  using s inv l
  by (auto simp: Tunn_set_static_private_def Handshake_set_static_private_def NoiseParams_set_static_private_def Let_def
      bind_eq_Some_conv tunn_inv_def shape_ok_def times_ok_def sessions_ok_def index_inv_def crypto_len [OF c]
      split: if_splits)

lemma rekey_peers_kept:
  assumes c: "crypto_laws c"
  shows "tunnels_ok w \<Longrightarrow> limiter < length (limiters (tw w)) \<Longrightarrow> \<forall>(k, i) \<in> set ps. i < length (peer_store w) \<Longrightarrow>
    rekey_peers c sk pk limiter ps w = Some w' \<Longrightarrow> peers_kept w w'"
proof (induction ps arbitrary: w)
  case (Cons x ps)
  obtain k i where x: "x = (k, i)" by force
  let ?p = "peer_store w ! i"
  obtain t v where s: "Tunn_set_static_private c (tunnel ?p) sk pk (Some limiter) (tw w) = Some (t, v)"
    and r: "rekey_peers c sk pk limiter ps (put_peer i (?p\<lparr>tunnel := t\<rparr>) (w\<lparr>tw := v\<rparr>)) = Some w'"
    using Cons.prems(4) by (auto simp: x Let_def bind_eq_Some_conv)
  have i: "i < length (peer_store w)" using Cons.prems(3) x by simp
  have t: "tunn_inv (peer_idx ?p) t v" "v = tw w"
    using set_static_private_inv [OF c tunnel_ok [OF Cons.prems(1) i] Cons.prems(2) s] by auto
  have k: "peers_kept w (put_peer i (?p\<lparr>tunnel := t\<rparr>) (w\<lparr>tw := v\<rparr>))"
    by (rule kept_put [OF Cons.prems(1)]) (use t in simp_all)
  have "peers_kept (put_peer i (?p\<lparr>tunnel := t\<rparr>) (w\<lparr>tw := v\<rparr>)) w'"
    by (rule Cons.IH [OF peers_keptD(3) [OF k] _ _ r]) (use Cons.prems(2,3) t peers_keptD(1) [OF k] in \<open>auto simp: put_peer_def\<close>)
  with k show ?case by (rule peers_kept_trans)
qed auto

lemma set_key_inv:
  assumes L: "libs_laws L" and inv: "dev_inv L d w" and s: "set_key L d sk w = Some (d', w')"
  shows "dev_inv L d' w'"
proof (cases "Some (x25519_public (lib_crypto L) sk) = map_option snd (key_pair d)")
  case True
  then show ?thesis using s inv by (auto simp: set_key_def Let_def)
next
  case False
  let ?c = "lib_crypto L" let ?pk = "x25519_public (lib_crypto L) sk"
  define rl v1 where "rl = fst (RateLimiter_new ?c ?pk HANDSHAKE_RATE_LIMIT (tw w))"
    and "v1 = snd (RateLimiter_new ?c ?pk HANDSHAKE_RATE_LIMIT (tw w))"
  define m v2 where "m = fst (Arc_new rl v1)" and "v2 = snd (Arc_new rl v1)"
  obtain w2 where r: "rekey_peers ?c sk ?pk m (hash_order L (peers d)) (w\<lparr>tw := v2\<rparr>) = Some w2"
    and e: "d' = d\<lparr>key_pair := Some (sk, ?pk), dev_rate_limiter := Some m\<rparr>" "w' = w2"
    using s False by (auto simp: set_key_def Let_def rl_def v1_def m_def v2_def split_beta bind_eq_Some_conv)
  have le: "tw_le (tw w) v2"
    using tw_le_trans [OF RateLimiter_new_world [OF surjective_pairing] tw_le_Arc(1)] by (simp add: v1_def v2_def)
  have k: "peers_kept w (w\<lparr>tw := v2\<rparr>)"
    using le dev_invD(2) [OF inv] inv_mono [OF _ le] by (auto simp: peers_kept_def tunnels_ok_def)
  have m: "m < length (limiters v2)" unfolding m_def v2_def by (rule tw_le_Arc(2))
  have k2: "peers_kept (w\<lparr>tw := v2\<rparr>) w2"
    by (rule rekey_peers_kept [OF libs_lawsD(1) [OF L] peers_keptD(3) [OF k] _ _ r])
      (use m tables_okD(3) [OF dev_invD(1) [OF inv]] libs_lawsD(5) [OF L] in force)+
  have "dev_inv L d w2" by (rule dev_inv_kept [OF inv peers_kept_trans [OF k k2]]) simp_all
  moreover have "m < length (limiters (tw w2))" using m peers_keptD(2) [OF k2] by (simp add: tw_le_def)
  ultimately show ?thesis by (simp add: e dev_inv_def tables_ok_def indices_ok_def routes_ok_def)
qed

section \<open>Adding peers\<close>

lemma insert_all_entry:
  assumes T: "ip_table_laws T"
  shows "insert_all T t xs = Some t' \<Longrightarrow> entries T t' n = Some j \<Longrightarrow>
    entries T t n = Some j \<or> (\<exists>ip. (ip, j) \<in> set xs \<and> new_truncate T (addr ip) (cidr ip) = Some n)"
proof (induction xs arbitrary: t)
  case (Cons x xs)
  obtain ip d where x: "x = (ip, d)" by force
  obtain m where m: "new_truncate T (addr ip) (cidr ip) = Some m"
    and r: "insert_all T (snd (tbl_insert T t m d)) xs = Some t'"
    using Cons.prems(1) by (auto simp: x AllowedIps_insert_def bind_eq_Some_conv split_beta)
  have upd: "entries T (snd (tbl_insert T t m d)) = (entries T t)(m \<mapsto> d)"
    using ip_table_lawsD(5) [OF T] by blast
  show ?case using Cons.IH [OF r Cons.prems(2)] m unfolding upd x by (cases "n = m") auto
qed simp

lemma insert_all_present:
  assumes T: "ip_table_laws T"
  shows "insert_all T t xs = Some t' \<Longrightarrow> (ip, j) \<in> set xs \<Longrightarrow>
    \<exists>n. new_truncate T (addr ip) (cidr ip) = Some n \<and> n \<in> dom (entries T t')"
proof (induction xs arbitrary: t)
  case (Cons x xs)
  obtain ip' d where x: "x = (ip', d)" by force
  obtain m where m: "new_truncate T (addr ip') (cidr ip') = Some m"
    and r: "insert_all T (snd (tbl_insert T t m d)) xs = Some t'"
    using Cons.prems(1) by (auto simp: x AllowedIps_insert_def bind_eq_Some_conv split_beta)
  have upd: "entries T (snd (tbl_insert T t m d)) = (entries T t)(m \<mapsto> d)"
    using ip_table_lawsD(5) [OF T] by blast
  have "m \<in> dom (entries T t')" unfolding entries_insert_all [OF T r] upd by simp
  then show ?case using Cons.IH [OF r] Cons.prems(2) m unfolding x by (cases "(ip, j) \<in> set xs") (blast, simp only: set_simps insert_iff prod.inject, blast)
qed simp

lemma find_iff:
  assumes T: "ip_table_laws T"
  shows "AllowedIps_find T t a \<noteq> None \<longleftrightarrow> (\<exists>n \<in> dom (entries T t). in_net a n)"
proof (cases "tbl_longest_match T t a")
  case None
  then show ?thesis using ip_table_lawsD(7) [OF T, rule_format, of t a] by (simp add: AllowedIps_find_def)
next
  case (Some x)
  obtain n d where x: "x = (n, d)" by (rule prod.exhaust)
  have "entries T t n = Some d" "in_net a n" using ip_table_lawsD(7) [OF T, rule_format, of t a] by (simp_all add: Some x)
  moreover have "AllowedIps_find T t a = Some d" by (simp add: AllowedIps_find_def Some x)
  ultimately show ?thesis by (simp only: option.simps simp_thms) (rule bexI [of _ n]; blast)
qed

text \<open>The two tables of a new peer: what the device routes to it, it may send.\<close>

lemma new_peer_allowed:
  assumes T: "ip_table_laws T" "ip_table_laws U" and u: "insert_all U u (map (\<lambda>ip. (ip, ())) ips) = Some u'"
    and ip: "ip \<in> set ips" and n: "new_truncate T (addr ip) (cidr ip) = Some n" "in_net a n"
  shows "AllowedIps_find U u' a \<noteq> None"
proof -
  have "(ip, ()) \<in> set (map (\<lambda>ip. (ip, ())) ips)" using ip by force
  from insert_all_present [OF T(2) u this] obtain m
    where m: "new_truncate U (addr ip) (cidr ip) = Some m" "m \<in> dom (entries U u')" by blast
  have "in_net a m" using in_truncated(1) [OF T(1) n(1)] in_truncated(1) [OF T(2) m(1)] n(2) by blast
  with m(2) show ?thesis unfolding find_iff [OF T(2)] by blast
qed

text \<open>A device to which a peer is added under an index that no peer has.\<close>

definition add_peer :: "'p Device \<Rightarrow> bytes \<Rightarrow> nat \<Rightarrow> u32 \<Rightarrow> 'p \<Rightarrow> IndexLfsr \<Rightarrow> 'p Device" where
  "add_peer d k i x t s =
     d\<lparr>next_idx := s, peers := (k, i) # peers d, peers_by_idx := (peers_by_idx d)(x := Some i), peers_by_ip := t\<rparr>"

lemma add_peer_tables:
  assumes t: "tables_ok L d w" and k: "map_of (peers d) k = None" and x: "peers_by_idx d (peer_idx p) = None"
    and s: "peer_store w' = peer_store w @ [p]"
    and e: "\<And>n j. entries (dev_table L) u n = Some j \<Longrightarrow>
        entries (dev_table L) (peers_by_ip d) n = Some j \<or> j = length (peer_store w)"
  shows "tables_ok L (add_peer d k (length (peer_store w)) (peer_idx p) u l) w'"
proof -
  let ?n = "length (peer_store w)"
  note tD = tables_okD [OF t]
  have k': "k \<notin> fst ` set (peers d)" using k by (simp add: map_of_eq_None_iff)
  have n: "?n \<notin> snd ` set (peers d)" using tD(3) by blast
  have old: "peer_store w' ! j = peer_store w ! j" "j < length (peer_store w')" "peer_idx (peer_store w ! j) \<noteq> peer_idx p"
    if "j \<in> snd ` set (peers d)" for j
    using tD(3,4) [OF that] x s by (auto simp: nth_append)
  have "distinct (map fst ((k, ?n) # peers d))" "distinct (map snd ((k, ?n) # peers d))" using tD(1,2) k' n by simp_all
  moreover have "j < length (peer_store w') \<and> ((peers_by_idx d)(peer_idx p := Some ?n)) (peer_idx (peer_store w' ! j)) = Some j"
    if "j \<in> snd ` set ((k, ?n) # peers d)" for j
    using that old [of j] tD(4) [of j] s by (cases "j \<in> snd ` set (peers d)") (simp, simp)
  moreover have "j \<in> snd ` set ((k, ?n) # peers d) \<and> peer_idx (peer_store w' ! j) = y"
    if "((peers_by_idx d)(peer_idx p := Some ?n)) y = Some j" for y j
    using that tD(5,6) [of y j] old [of j] s by (auto split: if_splits)
  moreover have "j \<in> snd ` set ((k, ?n) # peers d)" if "entries (dev_table L) u m = Some j" for m j
    using e [OF that] tD(7) [of m j] by auto
  ultimately show ?thesis unfolding tables_ok_def add_peer_def by simp
qed

lemma add_peer_inv:
  assumes inv: "dev_inv L d w" and l: "IndexLfsr_next (next_idx d) = Some (peer_idx p, s)"
    and k: "map_of (peers d) k = None" and st: "peer_store w' = peer_store w @ [p]" and le: "tw_le (tw w) (tw w')"
    and t: "tunn_inv (peer_idx p) (tunnel p) (tw w')"
    and e: "\<And>n j. entries (dev_table L) u n = Some j \<Longrightarrow> entries (dev_table L) (peers_by_ip d) n = Some j \<or>
        j = length (peer_store w) \<and> (\<forall>a. in_net a n \<longrightarrow> is_allowed_ip (peer_table L) p a)"
  shows "dev_inv L (add_peer d k (length (peer_store w)) (peer_idx p) u s) w'"
proof -
  let ?d = "add_peer d k (length (peer_store w)) (peer_idx p) u s"
  obtain n where n: "lfsr_used (next_idx d) n" "dom (peers_by_idx d) \<subseteq> set (used_indices (next_idx d) n)"
    using dev_invD(4) [OF inv] by (auto simp: indices_ok_def)
  have x: "peers_by_idx d (peer_idx p) = None" using next_used(2) [OF n(1) l] n(2) by blast
  have "tables_ok L ?d w'"
    by (rule add_peer_tables [OF dev_invD(1) [OF inv] k x st]) (use e in blast)
  moreover have "tunn_inv (peer_idx q) (tunnel q) (tw w')" if "q \<in> set (peer_store w)" for q
    using dev_invD(2) [OF inv] that inv_mono [OF _ le] by (auto simp: tunnels_ok_def)
  then have "tunnels_ok w'" using t by (auto simp: tunnels_ok_def st)
  moreover have "monotone_clock (tw w')"
    using le dev_invD(3) [OF inv] monotone_clock_le by (auto simp: tw_le_def)
  moreover have "indices_ok ?d"
    using next_used(1,3) [OF n(1) l] n(2) unfolding indices_ok_def add_peer_def
    by (intro exI [of _ "Suc n"]) auto
  moreover have "is_allowed_ip (peer_table L) (peer_store w' ! j) a"
    if "entries (dev_table L) u m = Some j" "in_net a m" for m j a
    using e [OF that(1)]
  proof (elim disjE conjE)
    assume o: "entries (dev_table L) (peers_by_ip d) m = Some j"
    have "j < length (peer_store w)" using tables_okD(3,7) [OF dev_invD(1) [OF inv]] o by blast
    moreover have "is_allowed_ip (peer_table L) (peer_store w ! j) a"
      using dev_invD(5) [OF inv] o that(2) unfolding routes_ok_def by blast
    ultimately show ?thesis by (simp add: st nth_append)
  qed (use that(2) in \<open>simp add: st\<close>)
  then have "routes_ok L ?d w'" unfolding routes_ok_def add_peer_def by simp
  moreover have "r < length (limiters (tw w'))" if "dev_rate_limiter ?d = Some r" for r
    using dev_invD(6) [OF inv] that le by (force simp: add_peer_def tw_le_def)
  moreover have "handlers_ok (queue ?d) (length (peer_store w'))"
    using dev_invD(7) [OF inv] by (auto simp: handlers_ok_def add_peer_def st intro: less_SucI)
  ultimately show ?thesis by (simp add: dev_inv_def)
qed

lemma update_peer_inv:
  assumes L: "libs_laws L" and inv: "dev_inv L d w"
    and u: "update_peer L d k remove replace_ips ep ips keepalive psk w = Some (d', w')"
  shows "dev_inv L d' w'"
proof (cases remove)
  case True
  then show ?thesis using u remove_peer_inv [OF L inv] by (simp add: update_peer_def)
next
  case False
  obtain x s where l: "IndexLfsr_next (next_idx d) = Some (x, s)" and k: "map_of (peers d) k = None"
    using u False by (auto simp: update_peer_def dev_next_index_def bind_eq_Some_conv split: if_splits)
  obtain n where n: "lfsr_used (next_idx d) n" "dom (peers_by_idx d) \<subseteq> set (used_indices (next_idx d) n)"
    using dev_invD(4) [OF inv] by (auto simp: indices_ok_def)
  have x: "take_bit 24 x = x"
    by (rule index_small [OF next_used(1) [OF n(1) l]])
      (use next_used(3) [OF n(1) l] in \<open>simp add: used_indices_def\<close>)
  show ?thesis
  proof (cases "key_pair d")
    case None
    then have "d' = d\<lparr>next_idx := s\<rparr>" "w' = w" using u False k l by (simp_all add: update_peer_def dev_next_index_def)
    moreover have "indices_ok (d\<lparr>next_idx := s\<rparr>)"
      using next_used(1,3) [OF n(1) l] n(2) unfolding indices_ok_def by (intro exI [of _ "Suc n"]) auto
    ultimately show ?thesis using inv by (simp add: dev_inv_def tables_ok_def routes_ok_def)
  next
    case (Some kp)
    obtain t v p u' where t: "Tunn_new (lib_crypto L) (fst kp) k psk keepalive x None (tw w) = Some (t, v)"
      and p: "Peer_new (peer_table L) t x ep ips psk = Some p"
      and i: "insert_all (dev_table L) (peers_by_ip d) (map (\<lambda>ip. (ip, length (peer_store w))) ips) = Some u'"
      and e: "d' = add_peer d k (length (peer_store w)) x u' s" "w' = w\<lparr>tw := v, peer_store := peer_store w @ [p]\<rparr>"
      using u False k l Some
      by (auto simp: update_peer_def dev_next_index_def add_peer_def Let_def bind_eq_Some_conv split: prod.splits)
    obtain tb where tb: "insert_all (peer_table L) (AllowedIps_new (peer_table L)) (map (\<lambda>ip. (ip, ())) ips) = Some tb"
      and pf: "peer_idx p = x" "tunnel p = t" "allowed_ips p = tb"
      using p by (auto simp: Peer_new_def AllowedIps_from_iter_def bind_eq_Some_conv)
    note TI = Tunn_new_inv [OF libs_lawsD(1) [OF L] t dev_invD(3) [OF inv]]
    have "tunn_inv x t v" using TI(1) x by (simp add: take_bit_eq_mask)
    moreover have "entries (dev_table L) (peers_by_ip d) m = Some j \<or>
        j = length (peer_store w) \<and> (\<forall>a. in_net a m \<longrightarrow> is_allowed_ip (peer_table L) p a)"
      if "entries (dev_table L) u' m = Some j" for m j
      using insert_all_entry [OF libs_lawsD(3) [OF L] i that]
        new_peer_allowed [OF libs_lawsD(3) [OF L] libs_lawsD(2) [OF L] tb, of _ m]
      unfolding is_allowed_ip_def pf by force
    ultimately show ?thesis
      unfolding e using add_peer_inv [OF inv, of p s k w' u'] l k TI(2) pf e(2) by simp
  qed
qed

section \<open>Sockets\<close>

text \<open>Fields that only configuration operations on peers and keys change.\<close>

definition same_tables :: "'p Device \<Rightarrow> 'p Device \<Rightarrow> bool" where
  "same_tables d d' \<longleftrightarrow> peers d' = peers d \<and> peers_by_idx d' = peers_by_idx d \<and> peers_by_ip d' = peers_by_ip d \<and>
     next_idx d' = next_idx d \<and> dev_rate_limiter d' = dev_rate_limiter d \<and> key_pair d' = key_pair d"

text \<open>Outcomes that leave the peers alone.\<close>

definition same_peers :: "'p Device \<Rightarrow> 'u dev_world \<Rightarrow> 'p Device \<Rightarrow> 'u dev_world \<Rightarrow> bool" where
  "same_peers d w d' w' \<longleftrightarrow> same_tables d d' \<and> peer_store w' = peer_store w \<and> tw w' = tw w \<and>
     (\<forall>n. handlers_ok (queue d) n \<longrightarrow> handlers_ok (queue d') n)"

lemma same_peers_refl [simp]: "same_peers d w d w"
  by (simp add: same_peers_def same_tables_def)

lemma same_peers_os: "same_peers d w d' w' \<Longrightarrow> same_peers d w d' (snd (os_call x w'))"
  by (simp add: same_peers_def)

lemma same_peers_trans: "same_peers d w d1 w1 \<Longrightarrow> same_peers d1 w1 d2 w2 \<Longrightarrow> same_peers d w d2 w2"
  by (simp add: same_peers_def same_tables_def)

lemma register_event_fields [simp]:
  "peer_store (snd (snd (register_event q ev w))) = peer_store w" "tw (snd (snd (register_event q ev w))) = tw w"
  by (auto simp: register_event_def insert_at_def Let_def split_beta)

lemma handlers_registered:
  "handlers_ok q n \<Longrightarrow> conn_peer (ev_handler ev) = None \<Longrightarrow> handlers_ok (fst (snd (register_event q ev w))) n"
  by (cases "register_event q ev w") (auto intro: handlers_register)

lemma register_clone_same:
  "register_clone d s w = Some (r, d', w') \<Longrightarrow> same_peers d w d' w'"
  by (auto simp: register_clone_def register_udp_handler_def new_event_def Let_def split_beta same_peers_def same_tables_def
      split: if_splits intro!: handlers_registered)

lemma clear_event_fields:
  "clear_event_by_fd q fd w = Some (q', w') \<Longrightarrow> peer_store w' = peer_store w \<and> tw w' = tw w"
  by (auto simp: clear_event_by_fd_def bind_eq_Some_conv split: if_splits)

lemma close_udp_same: "close_udp s d w = Some (d', w') \<Longrightarrow> same_peers d w d' w'"
  by (auto simp: close_udp_def same_peers_def same_tables_def bind_eq_Some_conv split: option.splits
      dest: clear_event_fields intro: handlers_clear)

lemma udp_socket_same: "udp_socket family any port w = (r, w') \<Longrightarrow> same_peers d w d w'"
  by (auto simp: udp_socket_def Let_def split_beta same_peers_def same_tables_def simp del: os_all.simps split: if_splits)

lemma register_sockets_same:
  assumes b: "register_sockets d s4 s6 port w = Some (r, d', w')"
  shows "same_peers d w d' w'"
proof -
  obtain r1 d1 w1 where r1: "register_clone d s4 w = Some (r1, d1, w1)"
    using b by (auto simp: register_sockets_def Let_def bind_eq_Some_conv)
  note s1 = register_clone_same [OF r1]
  show ?thesis
  proof (cases r1)
    case (Ok _)
    then obtain r2 d2 w2 where r2: "register_clone d1 s6 w1 = Some (r2, d2, w2)"
      using b r1 by (auto simp: register_sockets_def Let_def bind_eq_Some_conv)
    note s2 = same_peers_trans [OF s1 register_clone_same [OF r2]]
    show ?thesis
      using b r1 r2 Ok s2 by (cases r2) (auto simp: register_sockets_def Let_def same_peers_def same_tables_def)
  qed (use b r1 s1 in \<open>auto simp: register_sockets_def Let_def same_peers_os\<close>)
qed

lemma bind_sockets_same:
  assumes b: "bind_sockets d port w = Some (r, d', w')"
  shows "same_peers d w d' w'"
proof -
  obtain r4 w1 where u4: "udp_socket ''IPV4'' (replicate 4 0) port w = (r4, w1)" by force
  note s1 = udp_socket_same [OF u4, of d]
  show ?thesis
  proof (cases r4)
    case (Ok s4)
    define rp w2 where "rp = fst (if port = 0 then os_call (LocalPort s4) w1 else (uint port, w1))"
      and "w2 = snd (if port = 0 then os_call (LocalPort s4) w1 else (uint port, w1))"
    have s2: "same_peers d w d w2" using s1 by (simp add: w2_def same_peers_os)
    obtain r6 w3 where u6: "udp_socket ''IPV6'' (replicate 16 0) (of_int rp) w2 = (r6, w3)" by force
    note s3 = same_peers_trans [OF s2 udp_socket_same [OF u6]]
    have "bind_sockets d port w = (if rp = -1 then Some (Err IoError, d, snd (os_call (Close s4) w2))
      else case r6 of Err e \<Rightarrow> Some (Err e, d, snd (os_call (Close s4) w3))
        | Ok s6 \<Rightarrow> register_sockets d s4 s6 (of_int rp) w3)"
      using u6 unfolding bind_sockets_def u4 Ok by (cases r6) (simp_all add: Let_def split_beta rp_def [symmetric] w2_def [symmetric])
    with b s2 s3 show ?thesis
      by (auto split: if_splits result.splits intro: same_peers_os same_peers_trans dest: register_sockets_same)
  qed (use b u4 s1 in \<open>simp add: bind_sockets_def\<close>)
qed

lemma same_peers_kept: "tunnels_ok w \<Longrightarrow> same_peers d w d' w' \<Longrightarrow> peers_kept w w'"
  by (rule kept_fields) (simp_all add: same_peers_def)

lemma open_listen_socket_inv:
  assumes L: "libs_laws L" and inv: "dev_inv L d w" and b: "open_listen_socket L d port w = Some (r, d', w')"
  shows "dev_inv L d' w'" "same_tables d d'"
proof -
  obtain d1 w1 d2 w2 w3 where c: "close_udp (udp4 d) d w = Some (d1, w1)"
      "close_udp (udp6 d1) (d1\<lparr>udp4 := None\<rparr>) w1 = Some (d2, w2)"
    and s: "shutdown_peers (hash_order L (peers d2)) w2 = Some w3"
    and bs: "bind_sockets (d2\<lparr>udp6 := None\<rparr>) port w3 = Some (r, d', w')"
    using b by (auto simp: open_listen_socket_def Let_def bind_eq_Some_conv)
  have s2: "same_peers d w d2 w2"
    using close_udp_same [OF c(1)] close_udp_same [OF c(2)] by (simp add: same_peers_def same_tables_def)
  have ps: "peers d2 = peers d" "length (peer_store w2) = length (peer_store w)"
    using s2 by (simp_all add: same_peers_def same_tables_def)
  note k2 = same_peers_kept [OF dev_invD(2) [OF inv] s2]
  have k3: "peers_kept w2 w3"
    by (rule shutdown_peers_kept [OF peers_keptD(3) [OF k2] _ s])
      (use tables_okD(3) [OF dev_invD(1) [OF inv]] libs_lawsD(5) [OF L] in \<open>force simp: ps\<close>)
  note k4 = same_peers_kept [OF peers_keptD(3) [OF k3] bind_sockets_same [OF bs]]
  show st: "same_tables d d'"
    using s2 bind_sockets_same [OF bs] by (simp add: same_peers_def same_tables_def)
  show "dev_inv L d' w'"
    by (rule dev_inv_kept [OF inv peers_kept_trans [OF k2 peers_kept_trans [OF k3 k4]]])
      (use st s2 bind_sockets_same [OF bs] in \<open>simp_all add: same_tables_def same_peers_def\<close>)
qed

lemma new_notifier_fields [simp]:
  "peer_store (snd (snd (new_notifier q h w))) = peer_store w" "tw (snd (snd (new_notifier q h w))) = tw w"
  "handlers_ok q n \<Longrightarrow> conn_peer h = None \<Longrightarrow> handlers_ok (fst (snd (new_notifier q h w))) n"
  by (auto simp: new_notifier_def Let_def split_beta intro!: handlers_registered)

lemma new_periodic_event_fields [simp]:
  "peer_store (snd (snd (new_periodic_event q h t w))) = peer_store w" "tw (snd (snd (new_periodic_event q h t w))) = tw w"
  "handlers_ok q n \<Longrightarrow> conn_peer h = None \<Longrightarrow> handlers_ok (fst (snd (new_periodic_event q h t w))) n"
  by (auto simp: new_periodic_event_def Let_def split_beta intro!: handlers_registered)

lemma new_signal_event_fields [simp]:
  "peer_store (snd (snd (new_signal_event q s h w))) = peer_store w" "tw (snd (snd (new_signal_event q s h w))) = tw w"
  "handlers_ok q n \<Longrightarrow> conn_peer h = None \<Longrightarrow> handlers_ok (fst (snd (new_signal_event q s h w))) n"
  by (auto simp: new_signal_event_def Let_def split_beta intro!: handlers_registered)

lemma split_results:
  "(case x of (Err e, q, w) \<Rightarrow> f e q w | (Ok y, q, w) \<Rightarrow> g y q w) =
     (case fst x of Err e \<Rightarrow> f e (fst (snd x)) (snd (snd x)) | Ok y \<Rightarrow> g y (fst (snd x)) (snd (snd x)))"
  by (simp split: prod.split result.split)

lemma register_notifiers_same: "register_notifiers d w = (r, d', w') \<Longrightarrow> same_peers d w d' w'"
  unfolding register_notifiers_def split_results Let_def
  by (auto simp: same_peers_def same_tables_def split: result.splits)

lemma register_timers_same: "register_timers d w = (r, d', w') \<Longrightarrow> same_peers d w d' w'"
  unfolding register_timers_def split_results Let_def
  by (auto simp: same_peers_def same_tables_def split: result.splits)

lemma register_iface_handler_same: "register_iface_handler d ifc w = (r, d', w') \<Longrightarrow> same_peers d w d' w'"
  by (auto simp: register_iface_handler_def new_event_def Let_def split_beta same_peers_def same_tables_def
      intro!: handlers_registered)

lemma set_fwmark_same: "set_fwmark L d mark w = (r, d', w') \<Longrightarrow> same_peers d w d' w'"
  by (auto simp: set_fwmark_def Let_def split_beta same_peers_def same_tables_def)

lemma same_peers_inv:
  assumes inv: "dev_inv L d w" and s: "same_peers d w d' w'"
  shows "dev_inv L d' w'"
  by (rule dev_inv_kept [OF inv same_peers_kept [OF dev_invD(2) [OF inv] s]])
    (use s in \<open>simp_all add: same_peers_def same_tables_def\<close>)

section \<open>Handlers\<close>

lemma limiter_timer_inv:
  assumes inv: "dev_inv L d w" and t: "limiter_timer d w = (a, w')"
  shows "dev_inv L d w'"
proof -
  have le: "tw_le (tw w) (tw w')" "peer_store w' = peer_store w"
    using t tw_le_reset by (auto simp: limiter_timer_def split: option.splits)
  then have "peers_kept w w'"
    using dev_invD(2) [OF inv] inv_mono [OF _ le(1)] by (auto simp: peers_kept_def tunnels_ok_def)
  then show ?thesis by (rule dev_inv_kept [OF inv]) simp_all
qed

lemma peers_timer_inv:
  assumes L: "libs_laws L" and inv: "dev_inv L d w" and t: "peers_timer L d w = Some (a, w')"
  shows "dev_inv L d w'"
proof (cases "udp4 d \<noteq> None \<and> udp6 d \<noteq> None")
  case True
  then obtain u4 u6 where r: "timer_peers (lib_crypto L) u4 u6 (hash_order L (peers d)) w = Some w'"
    using t by (auto simp: peers_timer_def bind_eq_Some_conv)
  have "peers_kept w w'"
    by (rule timer_peers_kept [OF libs_lawsD(1) [OF L] dev_invD(2) [OF inv] _ r])
      (use tables_okD(3) [OF dev_invD(1) [OF inv]] libs_lawsD(5) [OF L] in force)
  then show ?thesis by (rule dev_inv_kept [OF inv]) simp_all
qed (use t inv in \<open>auto simp: peers_timer_def split: option.splits\<close>)

lemma udp_handler_inv:
  assumes L: "libs_laws L" and inv: "dev_inv L d w" and n: "\<forall>(a, x) \<in> set inbox. length x \<le> MAX_UDP_SIZE"
    and u: "udp_handler L ifc udp d inbox w = Some (a, rest, d', w')"
  shows "dev_inv L d' w'" "same_tables d d'"
proof -
  obtain sk pk l where r: "udp_loop L sk pk l ifc udp MAX_ITR d inbox w = Some (rest, d', w')"
    using u by (auto simp: udp_handler_def bind_eq_Some_conv)
  from udp_loop_kept [OF libs_lawsD(1) [OF L] dev_invD(2,1) [OF inv] n r]
  show "dev_inv L d' w'" "same_tables d d'" by (auto intro: dev_inv_kept [OF inv] simp: same_tables_def queue_step_def)
qed

lemma conn_handler_inv:
  assumes L: "libs_laws L" and inv: "dev_inv L d w"
    and h: "Some ev \<in> set (events (queue d))" "ev_handler ev = ConnHandler i udp adr"
    and n: "\<forall>x \<in> set inbox. length x \<le> MAX_UDP_SIZE"
    and u: "conn_handler L ifc i udp adr inbox w = Some (a, rest, w')"
  shows "dev_inv L d w'"
proof -
  have r: "conn_loop L ifc i udp adr MAX_ITR inbox w = Some (rest, w')"
    using u by (auto simp: conn_handler_def bind_eq_Some_conv)
  have i: "i < length (peer_store w)" using dev_invD(7) [OF inv] h by (auto simp: handlers_ok_def)
  from conn_loop_kept [OF libs_lawsD(1) [OF L] dev_invD(2) [OF inv] i n r] show ?thesis
    by (auto intro: dev_inv_kept [OF inv])
qed

lemma iface_handler_inv:
  assumes L: "libs_laws L" and inv: "dev_inv L d w" and u: "iface_handler L d inbox w = Some (a, rest, w')"
  shows "dev_inv L d w'"
proof -
  obtain u4 u6 where r: "iface_loop L u4 u6 d MAX_ITR inbox w = Some (a, rest, w')"
    using u by (auto simp: iface_handler_def bind_eq_Some_conv)
  from iface_loop_kept [OF libs_lawsD(1,3) [OF L] dev_invD(2,1) [OF inv] r] show ?thesis
    by (auto intro: dev_inv_kept [OF inv])
qed

lemma notification_same:
  "trigger_yield d w = Some w' \<Longrightarrow> same_peers d w d w'" "trigger_exit d w = Some w' \<Longrightarrow> same_peers d w d w'"
  "cancel_yield d w = Some w' \<Longrightarrow> same_peers d w d w'"
  by (auto simp: trigger_yield_def trigger_exit_def cancel_yield_def trigger_notification_def stop_notification_def
      bind_eq_Some_conv same_peers_def same_tables_def split: if_splits)

lemma mtu_same: "same_peers d w (d\<lparr>mtu := m\<rparr>) w"
  by (simp add: same_peers_def same_tables_def)

lemma os_same: "same_peers d w d (snd (os_call x w))"
  by (simp add: same_peers_def same_tables_def)

lemma cleanup_same: "same_peers d w (d\<lparr>cleanup_paths := ps\<rparr>) w"
  by (simp add: same_peers_def same_tables_def)

lemma register_same:
  "register_event (queue d) ev w = (r, q, w') \<Longrightarrow> conn_peer (ev_handler ev) = None \<Longrightarrow> same_peers d w (d\<lparr>queue := q\<rparr>) w'"
  using register_event_fields [of "queue d" ev w] handlers_registered [of "queue d" _ ev w]
  by (simp add: same_peers_def same_tables_def)

lemma clear_event_same: "clear_event_by_fd (queue d) fd w = Some (q, w') \<Longrightarrow> same_peers d w (d\<lparr>queue := q\<rparr>) w'"
  by (auto simp: same_peers_def same_tables_def dest: clear_event_fields intro: handlers_clear)

lemma drain_same:
  fixes w :: "'u dev_world"
  assumes "drain fd w = Some w'"
  shows "same_peers d w d w'"
proof -
  let ?P = "\<lambda>(fd :: int) w w'. peer_store w' = peer_store w \<and> tw w' = tw w"
  have "?P fd w w'"
  proof (rule drain.raw_induct [OF _ assms, where P = ?P])
    fix f :: "int \<Rightarrow> 'u dev_world \<Rightarrow> 'u dev_world option" and fd w y
    assume "\<And>fd w y. f fd w = Some y \<Longrightarrow> ?P fd w y"
      and "(let (r, w) = os_call (ReadFd fd) w in if r = -1 then Some w else f fd w) = Some y"
    then show "?P fd w y" by (auto simp: Let_def split_beta split: if_splits)
  qed
  then show ?thesis by (simp add: same_peers_def same_tables_def)
qed

lemma clock_inv:
  assumes inv: "dev_inv L d w" and le: "tw_le (tw w) v"
  shows "dev_inv L d (w\<lparr>tw := v\<rparr>)"
proof -
  have "peers_kept w (w\<lparr>tw := v\<rparr>)"
    using dev_invD(2) [OF inv] inv_mono [OF _ le] le by (auto simp: peers_kept_def tunnels_ok_def)
  then show ?thesis by (rule dev_inv_kept [OF inv]) simp_all
qed

lemma since_handshake_world: "time_since_last_handshake t w = Some (r, w') \<Longrightarrow> tw_le w w'"
  by (auto simp: time_since_last_handshake_def Let_def bind_eq_Some_conv split_beta split: option.splits)

lemma handshake_time_world:
  assumes "Peer_last_handshake_time p w = Some (t, w')"
  shows "tw_le w w'"
proof -
  have "tw_le w (snd (SystemTime_since_epoch w))"
    by (simp add: SystemTime_since_epoch_def Let_def tw_le_def world_le_def)
  then show ?thesis
    using assms
    by (auto simp: Peer_last_handshake_time_def last_handshake_time_def bind_eq_Some_conv
        split: option.splits prod.splits dest!: since_handshake_world intro: tw_le_trans)
qed

lemma stats_world: "Tunn_stats t w = Some (st, w') \<Longrightarrow> tw_le w w'"
  by (auto simp: Tunn_stats_def bind_eq_Some_conv dest: since_handshake_world)

section \<open>Reachable states\<close>

text \<open>
  One operation of the configuration interface or one call of a handler.  A datagram fits the receive buffer.
  A connected socket is served by the handler registered for it, whose peer may no longer be configured.
\<close>

inductive dev_step :: "('u, 'p) libs \<Rightarrow> 'p Device \<times> 'u dev_world \<Rightarrow> 'p Device \<times> 'u dev_world \<Rightarrow> bool" for L where
  do_update_peer: "update_peer L d k remove replace_ips ep ips keepalive psk w = Some (d', w') \<Longrightarrow> dev_step L (d, w) (d', w')"
| do_clear_peers: "dev_step L (d, w) (clear_peers L d, w)"
| do_set_key: "set_key L d sk w = Some (d', w') \<Longrightarrow> dev_step L (d, w) (d', w')"
| do_set_fwmark: "set_fwmark L d mark w = (r, d', w') \<Longrightarrow> dev_step L (d, w) (d', w')"
| do_listen: "open_listen_socket L d port w = Some (r, d', w') \<Longrightarrow> dev_step L (d, w) (d', w')"
| do_notifiers: "register_notifiers d w = (r, d', w') \<Longrightarrow> dev_step L (d, w) (d', w')"
| do_timers: "register_timers d w = (r, d', w') \<Longrightarrow> dev_step L (d, w) (d', w')"
| do_iface: "register_iface_handler d ifc w = (r, d', w') \<Longrightarrow> dev_step L (d, w) (d', w')"
| do_os: "dev_step L (d, w) (d, snd (os_call x w))"
| do_drain: "drain fd w = Some w' \<Longrightarrow> dev_step L (d, w) (d, w')"
| do_register: "register_event (queue d) ev w = (r, q, w') \<Longrightarrow> conn_peer (ev_handler ev) = None \<Longrightarrow>
    dev_step L (d, w) (d\<lparr>queue := q\<rparr>, w')"
| do_clear_event: "clear_event_by_fd (queue d) fd w = Some (q, w') \<Longrightarrow> dev_step L (d, w) (d\<lparr>queue := q\<rparr>, w')"
| do_cleanup: "dev_step L (d, w) (d\<lparr>cleanup_paths := ps\<rparr>, w)"
| do_trigger_yield: "trigger_yield d w = Some w' \<Longrightarrow> dev_step L (d, w) (d, w')"
| do_trigger_exit: "trigger_exit d w = Some w' \<Longrightarrow> dev_step L (d, w) (d, w')"
| do_cancel_yield: "cancel_yield d w = Some w' \<Longrightarrow> dev_step L (d, w) (d, w')"
| do_mtu: "dev_step L (d, w) (d\<lparr>mtu := m\<rparr>, w)"
| do_handshake_time: "Peer_last_handshake_time (p :: 'u Peer) (tw w) = Some (t, v) \<Longrightarrow> dev_step L (d, w) (d, w\<lparr>tw := v\<rparr>)"
| do_stats: "Tunn_stats t (tw w) = Some (st, v) \<Longrightarrow> dev_step L (d, w) (d, w\<lparr>tw := v\<rparr>)"
| run_limiter_timer: "limiter_timer d w = (a, w') \<Longrightarrow> dev_step L (d, w) (d, w')"
| run_peers_timer: "peers_timer L d w = Some (a, w') \<Longrightarrow> dev_step L (d, w) (d, w')"
| run_udp: "\<forall>(a, x) \<in> set inbox. length x \<le> MAX_UDP_SIZE \<Longrightarrow> udp_handler L ifc udp d inbox w = Some (a, rest, d', w') \<Longrightarrow>
    dev_step L (d, w) (d', w')"
| run_conn: "Some ev \<in> set (events (queue d)) \<Longrightarrow> ev_handler ev = ConnHandler i udp adr \<Longrightarrow> \<forall>x \<in> set cinbox. length x \<le> MAX_UDP_SIZE \<Longrightarrow>
    conn_handler L ifc i udp adr cinbox w = Some (a, crest, w') \<Longrightarrow> dev_step L (d, w) (d, w')"
| run_iface: "iface_handler L d iinbox w = Some (a, irest, w') \<Longrightarrow> dev_step L (d, w) (d, w')"

inductive_cases dev_stepE: "dev_step L s s'"

definition dev_start :: "('u, 'p) libs \<Rightarrow> 'p Device \<times> 'u dev_world \<Rightarrow> bool" where
  "dev_start L = (\<lambda>(d, w). monotone_clock (tw w) \<and> peer_store w = [] \<and>
     (\<exists>e ifc name n conf s (w0 :: tunn_world) w1. IndexLfsr_default w0 = Some (s, w1) \<and>
        d = Device_init L \<lparr>events = [], epoll = e\<rparr> ifc name n conf s))"

definition dev_reachable :: "('u, 'p) libs \<Rightarrow> 'p Device \<times> 'u dev_world \<Rightarrow> bool" where
  "dev_reachable L s \<longleftrightarrow> (\<exists>s0. dev_start L s0 \<and> (dev_step L)\<^sup>*\<^sup>* s0 s)"

lemmas step_invs = update_peer_inv clear_peers_inv set_key_inv open_listen_socket_inv(1) peers_timer_inv udp_handler_inv(1)
  conn_handler_inv iface_handler_inv

lemmas quiet_steps = set_fwmark_same register_notifiers_same register_timers_same register_iface_handler_same
  notification_same drain_same register_same clear_event_same

lemmas quiet_moves = mtu_same os_same cleanup_same

lemmas query_worlds = handshake_time_world stats_world

lemma dev_step_inv:
  assumes L: "libs_laws L" and s: "dev_step L (d, w) (d', w')" and inv: "dev_inv L d w"
  shows "dev_inv L d' w'"
  using s
  by (cases rule: dev_stepE)
    (auto intro: step_invs [OF L inv] limiter_timer_inv [OF inv] same_peers_inv [OF inv] quiet_moves clock_inv [OF inv]
      dest: quiet_steps query_worlds)

lemma reachable_inv:
  assumes L: "libs_laws L" and r: "dev_reachable L (d, w)"
  shows "dev_inv L d w"
proof -
  obtain s0 where s0: "dev_start L s0" "(dev_step L)\<^sup>*\<^sup>* s0 (d, w)" using r by (auto simp: dev_reachable_def)
  have "dev_inv L (fst s0) (snd s0)" using s0(1) dev_inv_new [OF L] by (auto simp: dev_start_def)
  from s0(2) this have "dev_inv L (fst (d, w)) (snd (d, w))"
    by (induction rule: rtranclp_induct) (auto intro: dev_step_inv [OF L])
  then show ?thesis by simp
qed

text \<open>The limiter of the device is made with its key.\<close>

lemma update_peer_keys:
  assumes "update_peer L d k remove replace_ips ep ips keepalive psk w = Some (d', w')"
  shows "key_pair d' = key_pair d \<and> dev_rate_limiter d' = dev_rate_limiter d"
  using assms
  by (auto simp: update_peer_def remove_peer_def dev_next_index_def Let_def bind_eq_Some_conv
      split: if_splits option.splits prod.splits)

lemma dev_step_keys:
  assumes L: "libs_laws L" and s: "dev_step L (d, w) (d', w')" and inv: "dev_inv L d w"
    and k: "key_pair d = None \<longleftrightarrow> dev_rate_limiter d = None"
  shows "key_pair d' = None \<longleftrightarrow> dev_rate_limiter d' = None"
  using s
proof (cases rule: dev_step.cases)
  case do_set_key
  then show ?thesis using k by (auto simp: set_key_def Let_def bind_eq_Some_conv split: if_splits prod.splits)
qed (use k in \<open>auto simp: clear_peers_def same_peers_def same_tables_def
  dest!: update_peer_keys quiet_steps open_listen_socket_inv(2) [OF L inv] udp_handler_inv(2) [OF L inv]\<close>)

lemma reachable_keys:
  assumes L: "libs_laws L" and r: "dev_reachable L (d, w)"
  shows "key_pair d = None \<longleftrightarrow> dev_rate_limiter d = None"
proof -
  obtain s0 where s0: "dev_start L s0" "(dev_step L)\<^sup>*\<^sup>* s0 (d, w)" using r by (auto simp: dev_reachable_def)
  have "dev_inv L (fst s0) (snd s0) \<and> (key_pair (fst s0) = None \<longleftrightarrow> dev_rate_limiter (fst s0) = None)"
    using s0(1) dev_inv_new [OF L] by (auto simp: dev_start_def Device_init_def)
  from s0(2) this have "dev_inv L (fst (d, w)) (snd (d, w)) \<and> (key_pair (fst (d, w)) = None \<longleftrightarrow> dev_rate_limiter (fst (d, w)) = None)"
    by (induction rule: rtranclp_induct) (auto intro: dev_step_inv [OF L] dest: dev_step_keys [OF L])
  then show ?thesis by simp
qed

end
