(* ===== verification/DeviceSample.thy ===== *)
theory DeviceSample
  imports DeviceReach
begin

text \<open>
  What adding a peer does, and a concrete device: sample libraries, an environment in which every system call
  succeeds, and the states reached by opening the sockets, setting the key and adding a peer.
\<close>

section \<open>A sample device\<close>

definition sample_libs :: "((net, unit) alist, (net, nat) alist) libs" where
  "sample_libs = \<lparr>lib_crypto = sample_crypto, lib_base64 = sample_base64, peer_table = sample_table,
     dev_table = sample_table, hash_order = (\<lambda>ps. ps)\<rparr>"

definition sample_dw :: "(net, unit) alist dev_world" where
  "sample_dw = \<lparr>os = int, os_pos = 3, trace = [], tw = sample_tw, peer_store = []\<rparr>"

definition sample_dev :: "(net, nat) alist Device" where
  "sample_dev = Device_init sample_libs \<lparr>events = [], epoll = 0\<rparr> 5 (ascii ''wg0'') 1420 DeviceConfig_default
     \<lparr>lfsr_initial = 197121, lfsr = 197121, lfsr_mask = 460293\<rparr>"

lemma sample_libs_laws: "libs_laws sample_libs"
  by (simp add: libs_laws_def sample_libs_def sample_crypto_laws sample_table_laws)

definition sample_tw1 :: tunn_world where
  "sample_tw1 = world.extend (sample_world 1) \<lparr>limiters = []\<rparr>"

lemma sample_lfsr:
  "IndexLfsr_default sample_tw1 =
     Some (\<lparr>lfsr_initial = 197121, lfsr = 197121, lfsr_mask = 460293\<rparr>, sample_tw1\<lparr>rng_pos := 8\<rparr>)"
proof -
  let ?w = "sample_tw1\<lparr>rng_pos := 4\<rparr>"
  have v: "draw sample_tw1 0 = 197121" "draw ?w 0 = 460293" by code_simp+
  have "rng_pos sample_tw1 = 0" by (simp add: sample_tw1_def world.defs sample_world_def)
  then have "random_index sample_tw1 = Some (197121, ?w)" "random_index ?w = Some (460293, ?w\<lparr>rng_pos := 8\<rparr>)"
    using random_index_draws [of sample_tw1 0] random_index_draws [of ?w 0] v by simp_all
  then show ?thesis by (simp add: IndexLfsr_default_def)
qed

lemma sample_start: "dev_start sample_libs (sample_dev, sample_dw)"
  using sample_tw_monotone sample_lfsr unfolding dev_start_def sample_dev_def by (simp add: sample_dw_def) blast

lemma sample_listen:
  obtains d w where "open_listen_socket sample_libs sample_dev 7 sample_dw = Some (Ok (), d, w)"
    "udp4 d = Some 3" "udp6 d = Some 7" "mtu d = 1420" "key_pair d = None" "peers d = []" "dev_config d = DeviceConfig_default"
    "peers_by_ip d = peers_by_ip sample_dev" "next_idx d = next_idx sample_dev" "tw w = sample_tw" "peer_store w = []"
proof -
  have "\<exists>d w. open_listen_socket sample_libs sample_dev 7 sample_dw = Some (Ok (), d, w) \<and>
    udp4 d = Some 3 \<and> udp6 d = Some 7 \<and> mtu d = 1420 \<and> key_pair d = None \<and> peers d = [] \<and>
    dev_config d = DeviceConfig_default \<and>
    peers_by_ip d = peers_by_ip sample_dev \<and> next_idx d = next_idx sample_dev \<and> tw w = sample_tw \<and> peer_store w = []"
    by (simp add: open_listen_socket_def sample_dev_def Device_init_def sample_libs_def close_udp_def bind_sockets_def
        udp_socket_def os_call_def sample_dw_def register_sockets_def register_clone_def register_udp_handler_def
        new_event_def register_event_def insert_at_def Let_def fd_index_def)
  then show thesis using that by blast
qed

text \<open>What adding a peer does when the key is set and the generator has an index left.\<close>

lemma update_peer_adds:
  assumes L: "libs_laws L" and kp: "key_pair d = Some kp" and k: "map_of (peers d) k = None"
    and x: "IndexLfsr_next (next_idx d) = Some (x, s)" and v: "\<forall>ip \<in> set ips. valid_allowed ip"
    and c: "0 \<le> system_clock (tw w) (system_pos (tw w))"
  obtains t v p u where "Tunn_new (lib_crypto L) (fst kp) k psk keepalive x None (tw w) = Some (t, v)"
    "Peer_new (peer_table L) t x ep ips psk = Some p"
    "insert_all (dev_table L) (peers_by_ip d) (map (\<lambda>ip. (ip, length (peer_store w))) ips) = Some u"
    "update_peer L d k False replace_ips ep ips keepalive psk w =
       Some (add_peer d k (length (peer_store w)) x u s, w\<lparr>tw := v, peer_store := peer_store w @ [p]\<rparr>)"
proof -
  obtain t vw where t: "Tunn_new (lib_crypto L) (fst kp) k psk keepalive x None (tw w) = Some (t, vw)"
    by (rule Tunn_new_some [OF c])
  have "\<exists>u. insert_all (dev_table L) (peers_by_ip d) (map (\<lambda>ip. (ip, length (peer_store w))) ips) = Some u"
    by (rule insert_all_total [OF libs_lawsD(3) [OF L]]) (use v in auto)
  then obtain u where u: "insert_all (dev_table L) (peers_by_ip d) (map (\<lambda>ip. (ip, length (peer_store w))) ips) = Some u" ..
  have "\<exists>u. insert_all (peer_table L) (AllowedIps_new (peer_table L)) (map (\<lambda>ip. (ip, ())) ips) = Some u"
    by (rule insert_all_total [OF libs_lawsD(2) [OF L]]) (use v in auto)
  then obtain p where p: "Peer_new (peer_table L) t x ep ips psk = Some p"
    by (auto simp: Peer_new_def AllowedIps_from_iter_def)
  show thesis
    by (rule that [OF t p u]) (use t p u kp k x in \<open>simp add: update_peer_def dev_next_index_def add_peer_def Let_def\<close>)
qed

lemma sample_route:
  assumes u: "insert_all sample_table (peers_by_ip sample_dev) (map (\<lambda>ip. (ip, 0)) [\<lparr>addr = V4 [10, 0, 0, 0], cidr = 8\<rparr>]) = Some u"
  shows "AllowedIps_find sample_table u (V4 [10, 0, 0, 5]) = Some 0"
proof -
  let ?T = "sample_table :: ((net, nat) alist, nat) ip_table"
  have T: "ip_table_laws ?T" by (rule sample_table_laws)
  have "\<exists>n. new_truncate ?T (V4 [10, 0, 0, 0]) 8 = Some n \<and> n \<in> dom (entries ?T u)"
    using insert_all_present [OF T u, of "\<lparr>addr = V4 [10, 0, 0, 0], cidr = 8\<rparr>" 0] by simp
  then obtain n where n: "new_truncate ?T (V4 [10, 0, 0, 0]) 8 = Some n" "n \<in> dom (entries sample_table u)" by blast
  have "in_net (V4 [10, 0, 0, 5]) (V4 [10, 0, 0, 0], 8)" by code_simp
  then have "in_net (V4 [10, 0, 0, 5]) n" using in_truncated(1) [OF T n(1)] by blast
  with n(2) have "AllowedIps_find sample_table u (V4 [10, 0, 0, 5]) \<noteq> None" unfolding find_iff [OF T] by blast
  then obtain j where j: "AllowedIps_find sample_table u (V4 [10, 0, 0, 5]) = Some j" by blast
  from find_entry [OF T j] obtain m where "entries sample_table u m = Some j" by blast
  from insert_all_entry [OF T u this] have "j = 0"
    using ip_table_lawsD(4) [OF T] by (auto simp: sample_dev_def Device_init_def sample_libs_def AllowedIps_new_def)
  with j show ?thesis by simp
qed

text \<open>The sample device with its key and one peer, which may use 10.0.0.0/8.\<close>

lemma sample_peer:
  obtains d w where "dev_reachable sample_libs (d, w)" "peers d = [(replicate 32 2, 0)]" "udp4 d = Some 3" "udp6 d = Some 7"
    "mtu d = 1420" "key_pair d = Some (replicate 32 1, replicate 32 1)" "length (peer_store w) = 1"
    "AllowedIps_find sample_table (peers_by_ip d) (V4 [10, 0, 0, 5]) = Some 0"
    "sessions (tunnel (peer_store w ! 0)) = replicate N_SESSIONS None" "packet_queue (tunnel (peer_store w ! 0)) = []"
    "hs_state (handshake (tunnel (peer_store w ! 0))) = HsNone" "ep_conn (endpoint (peer_store w ! 0)) = None"
proof -
  obtain d1 w1 where l: "open_listen_socket sample_libs sample_dev 7 sample_dw = Some (Ok (), d1, w1)"
    "udp4 d1 = Some 3" "udp6 d1 = Some 7" "mtu d1 = 1420" "key_pair d1 = None" "peers d1 = []" "dev_config d1 = DeviceConfig_default"
    "peers_by_ip d1 = peers_by_ip sample_dev" "next_idx d1 = next_idx sample_dev" "tw w1 = sample_tw" "peer_store w1 = []"
    by (rule sample_listen)
  define sk ips where "sk = replicate 32 (1 :: u8)" and "ips = [\<lparr>addr = V4 [10, 0, 0, 0], cidr = 8\<rparr>]"
  obtain m v where s: "set_key sample_libs d1 sk w1 =
      Some (d1\<lparr>key_pair := Some (sk, x25519_public sample_crypto sk), dev_rate_limiter := Some m\<rparr>, w1\<lparr>tw := v\<rparr>)"
    and v: "0 \<le> system_clock v (system_pos v)"
    using l(5,6,10)
    by (auto simp: set_key_def sample_libs_def Let_def RateLimiter_new_def Arc_new_def OsRng_bytes_def Instant_now_def
        split_beta sample_world_def)
  let ?d = "d1\<lparr>key_pair := Some (sk, x25519_public sample_crypto sk), dev_rate_limiter := Some m\<rparr>" and ?w = "w1\<lparr>tw := v\<rparr>"
  have x: "IndexLfsr_next (next_idx ?d) = Some (263173, \<lparr>lfsr_initial = 197121, lfsr = 14254336, lfsr_mask = 460293\<rparr>)"
  proof -
    have e: "next_idx ?d = \<lparr>lfsr_initial = 197121, lfsr = 197121, lfsr_mask = 460293\<rparr>"
      using l(9) by (simp add: sample_dev_def Device_init_def)
    show ?thesis unfolding e by code_simp
  qed
  have ok: "\<forall>ip \<in> set ips. valid_allowed ip" by (simp add: ips_def valid_allowed_def)
  obtain t v1 p u where t: "Tunn_new (lib_crypto sample_libs) sk (replicate 32 2) None None 263173 None v = Some (t, v1)"
    and p: "Peer_new (peer_table sample_libs) t 263173 None ips None = Some p"
    and u: "insert_all sample_table (peers_by_ip sample_dev) (map (\<lambda>ip. (ip, 0)) ips) = Some u"
    and up: "update_peer sample_libs ?d (replicate 32 2) False False None ips None None ?w =
       Some (add_peer ?d (replicate 32 2) 0 263173 u \<lparr>lfsr_initial = 197121, lfsr = 14254336, lfsr_mask = 460293\<rparr>,
         ?w\<lparr>tw := v1, peer_store := [p]\<rparr>)"
    by (rule update_peer_adds [OF sample_libs_laws _ _ x ok, where kp = "(sk, x25519_public sample_crypto sk)" and
        k = "replicate 32 2" and w = ?w and psk = None and keepalive = None and ep = None and replace_ips = False])
      (use l v in \<open>simp_all add: sample_libs_def\<close>)
  let ?d' = "add_peer ?d (replicate 32 2) 0 263173 u \<lparr>lfsr_initial = 197121, lfsr = 14254336, lfsr_mask = 460293\<rparr>"
  have "(dev_step sample_libs)\<^sup>*\<^sup>* (sample_dev, sample_dw) (?d', ?w\<lparr>tw := v1, peer_store := [p]\<rparr>)"
    using do_listen [OF l(1)] do_set_key [OF s] do_update_peer [OF up]
    by (meson converse_rtranclp_into_rtranclp r_into_rtranclp)
  then have r: "dev_reachable sample_libs (?d', ?w\<lparr>tw := v1, peer_store := [p]\<rparr>)"
    unfolding dev_reachable_def using sample_start by blast
  have f: "AllowedIps_find sample_table u (V4 [10, 0, 0, 5]) = Some 0"
    by (rule sample_route [OF u [unfolded ips_def]])
  have "hs_state (handshake t) = HsNone"
    using t by (auto simp: Tunn_new_def Handshake_new_def Let_def bind_eq_Some_conv split_beta)
  moreover have "tunnel p = t" "ep_conn (endpoint p) = None" using p by (auto simp: Peer_new_def bind_eq_Some_conv)
  moreover have "x25519_public sample_crypto sk = replicate 32 1" by (simp add: sk_def sample_crypto_def pad_to_def)
  ultimately show thesis
    by (intro that [OF r]) (use l f sk_def Tunn_new_fields [OF t] in \<open>simp_all add: add_peer_def\<close>)
qed

end
