(* ===== verification/DeviceProperties.thy ===== *)
theory DeviceProperties
  imports DeviceSample
begin

text \<open>
  What the device promises: packets from the network reach the interface only from an address their peer may
  use, replies reach the peer they belong to, outgoing and incoming routes agree, and flushing a queue
  ends.
\<close>

section \<open>System calls made\<close>

definition calls_ok :: "(os_op \<Rightarrow> bool) \<Rightarrow> 'a os_world_scheme \<Rightarrow> 'a os_world_scheme \<Rightarrow> bool" where
  "calls_ok P w w' \<longleftrightarrow> (\<exists>xs. trace w' = trace w @ xs \<and> (\<forall>x \<in> set xs. P x))"

lemma calls_ok_same [simp]: "trace w' = trace w \<Longrightarrow> calls_ok P w w'"
  by (simp add: calls_ok_def)

lemma calls_ok_trans: "calls_ok P w w1 \<Longrightarrow> calls_ok P w1 w2 \<Longrightarrow> calls_ok P w w2"
  by (auto simp: calls_ok_def)

lemma calls_ok_call: "calls_ok P w w' \<Longrightarrow> P x \<Longrightarrow> calls_ok P w (snd (os_call x w'))"
  by (auto simp: calls_ok_def os_call_def)

lemma calls_ok_all: "\<forall>x \<in> set xs. P x \<Longrightarrow> calls_ok P w w' \<Longrightarrow> calls_ok P w (snd (os_all xs w'))"
proof (induction xs arbitrary: w')
  case (Cons x xs)
  then show ?case using calls_ok_call [OF Cons.prems(2), of x] by (auto simp: Let_def split_beta)
qed simp

lemma calls_ok_mono: "calls_ok P w w' \<Longrightarrow> (\<And>x. P x \<Longrightarrow> Q x) \<Longrightarrow> calls_ok Q w w'"
  by (auto simp: calls_ok_def)

lemma calls_written:
  "calls_ok P w w' \<Longrightarrow> (\<And>f z. P (WriteTun f z) \<Longrightarrow> Q f z) \<Longrightarrow>
     \<exists>xs. trace w' = trace w @ xs \<and> (\<forall>f z. WriteTun f z \<in> set xs \<longrightarrow> Q f z)"
  by (auto simp: calls_ok_def)

fun to_tun :: "os_op \<Rightarrow> bool" where
  "to_tun (WriteTun _ _) = True"
| "to_tun _ = False"

abbreviation no_tun :: "'a os_world_scheme \<Rightarrow> 'a os_world_scheme \<Rightarrow> bool" where
  "no_tun \<equiv> calls_ok (\<lambda>x. \<not> to_tun x)"

lemma trace_put [simp]: "trace (put_peer i p w) = trace w"
  by (simp add: put_peer_def)

lemma no_tun_send: "no_tun w (send_to u a x w)" "no_tun w (send_conn u x w)"
  by (simp_all add: send_to_def send_conn_def calls_ok_call)

lemma no_tun_fold: "(\<And>x w. no_tun w (send x w)) \<Longrightarrow> no_tun w (fold send xs w)"
proof (induction xs arbitrary: w)
  case (Cons x xs)
  then show ?case using calls_ok_trans by force
qed simp

lemma no_tun_put: "no_tun w w' \<Longrightarrow> no_tun w (put_peer i p w')"
  by (simp add: calls_ok_def)

lemma no_tun_drop: "drop_conn x w = Some w' \<Longrightarrow> no_tun w w'"
  by (auto simp: drop_conn_def Let_def split_beta intro!: calls_ok_call split: if_splits)

lemma no_tun_set_endpoint: "set_endpoint p a w = Some (b, p', w') \<Longrightarrow> no_tun w w'"
  by (auto simp: set_endpoint_def split: if_splits option.splits bind_splits dest: no_tun_drop)

lemma no_tun_connect: "connect_endpoint p port mark w = Some (r, p', w') \<Longrightarrow> no_tun w w'"
  by (cases "ep_addr (endpoint p)"; cases mark)
    (auto simp: connect_endpoint_def Let_def split_beta simp del: os_all.simps split: if_splits
      intro!: calls_ok_call calls_ok_all)

lemma no_tun_register: "no_tun w (snd (snd (register_event q ev w)))"
  by (auto simp: register_event_def insert_at_def Let_def split_beta intro!: calls_ok_call)

lemma no_tun_update_endpoint:
  assumes u: "update_endpoint d i a w = Some (d', w')"
  shows "no_tun w w'"
proof -
  obtain b p w1 where s: "set_endpoint (peer_store w ! i) a w = Some (b, p, w1)"
    using u by (auto simp: update_endpoint_def bind_eq_Some_conv)
  note n1 = no_tun_put [OF no_tun_set_endpoint [OF s], of i p]
  show ?thesis
  proof (cases "use_connected_socket (dev_config d) \<and> (b \<or> ep_conn (endpoint p) = None)")
    case True
    obtain r p2 w2 where c: "connect_endpoint p (listen_port d) (fwmark d) (put_peer i p w1) = Some (r, p2, w2)"
      using u s True by (auto simp: update_endpoint_def Let_def bind_eq_Some_conv)
    note n2 = no_tun_put [OF calls_ok_trans [OF n1 no_tun_connect [OF c]], of i p2]
    show ?thesis
    proof (cases r)
      case (Ok sock)
      have "w' = snd (snd (register_conn_handler d i sock (sock_ip a) (put_peer i p2 w2)))"
        using u s True c Ok by (auto simp: update_endpoint_def Let_def split: result.splits prod.splits)
      then show ?thesis
        using calls_ok_trans [OF n2 no_tun_register]
        by (auto simp: register_conn_handler_def new_event_def Let_def split_beta)
    qed (use u s True c n2 in \<open>auto simp: update_endpoint_def Let_def\<close>)
  qed (use u s n1 in \<open>auto simp: update_endpoint_def Let_def\<close>)
qed

section \<open>Packets for the interface\<close>

text \<open>
  \<open>decrypted L p x q\<close>: the datagram \<open>x\<close> is a data packet, and the session of \<open>p\<close> that its index selects
  decrypts it to \<open>q\<close>.
\<close>

definition decrypted :: "('u, 'p) libs \<Rightarrow> 'u Peer \<Rightarrow> bytes \<Rightarrow> bytes \<Rightarrow> bool" where
  "decrypted L p x q \<longleftrightarrow> (\<exists>m s s'. parse_incoming_packet x = Ok (PacketData m) \<and>
     sessions (tunnel p) ! (unat (pd_receiver_idx m) mod N_SESSIONS) = Some s \<and>
     receive_packet_data (lib_crypto L) s m MAX_UDP_SIZE = Some (Ok q, s'))"

definition source_allowed :: "('u, 'p) libs \<Rightarrow> 'u Peer \<Rightarrow> bytes \<Rightarrow> bool" where
  "source_allowed L p q \<longleftrightarrow>
     ip_version q = 4 \<and> is_allowed_ip (peer_table L) p (V4 (slice q 12 16)) \<or>
     ip_version q = 6 \<and> is_allowed_ip (peer_table L) p (V6 (slice q 8 24))"

lemma verified_tunnel:
  assumes h: "handle_verified_packet c t m n w = Some (r, t', w')"
    and r: "r = WriteToTunnelV4 y a \<or> r = WriteToTunnelV6 y a"
  shows "\<exists>x s s' q. m = PacketData x \<and> sessions t ! (unat (pd_receiver_idx x) mod N_SESSIONS) = Some s \<and>
    receive_packet_data c s x n = Some (Ok q, s') \<and> (\<exists>k. y = take k q) \<and>
    (r = WriteToTunnelV4 y a \<and> ip_version q = 4 \<and> a = slice q 12 16 \<or>
     r = WriteToTunnelV6 y a \<and> ip_version q = 6 \<and> a = slice q 8 24)"
proof (cases m)
  case (PacketData x)
  let ?i = "unat (pd_receiver_idx x) mod N_SESSIONS"
  obtain s where s: "sessions t ! ?i = Some s"
    using h r PacketData by (auto simp: handle_data_def Let_def split: option.splits)
  obtain z s' where z: "receive_packet_data c s x n = Some (z, s')"
    using h s PacketData by (auto simp: handle_data_def Let_def bind_eq_Some_conv)
  obtain q where q: "z = Ok q" using h r s z PacketData by (cases z) (auto simp: handle_data_def Let_def)
  define u where "u = timer_tick (set_current_session (t\<lparr>sessions := (sessions t)[?i := Some s']\<rparr>)
    (unat (pd_receiver_idx x))) TimeLastPacketReceived"
  have "fst (validate_decapsulated_packet c u q) = r"
    using h s z q PacketData by (auto simp: handle_data_def Let_def split_beta u_def)
  then obtain t1 where v: "validate_decapsulated_packet c u q = (r, t1)" by (metis prod.collapse)
  have "(\<exists>k. y = take k q) \<and> (r = WriteToTunnelV4 y a \<and> ip_version q = 4 \<and> a = slice q 12 16 \<or>
     r = WriteToTunnelV6 y a \<and> ip_version q = 6 \<and> a = slice q 8 24)"
    using v r by (cases rule: validate_cases) auto
  with PacketData s z q show ?thesis by blast
next
  case (HandshakeInit x)
  then show ?thesis
    using h r by (auto simp: handle_init_unfold split: option.splits result.splits prod.splits)
next
  case (HandshakeResponse x)
  then show ?thesis
    using h r by (auto simp: handle_resp_unfold split: option.splits result.splits prod.splits)
next
  case (PacketCookieReply x)
  then obtain rr hh where "receive_cookie_reply c (handshake t) x = Some (rr, hh)"
    using h by (auto simp: handle_cookie_reply_def bind_eq_Some_conv)
  with PacketCookieReply h r show ?thesis by (cases rr) (auto simp: handle_cookie_reply_def Let_def)
qed

lemma encapsulate_result:
  "encapsulate c t x n w = Some (r, t', w') \<Longrightarrow> r \<noteq> WriteToTunnelV4 y a \<and> r \<noteq> WriteToTunnelV6 y a"
  by (auto simp: encapsulate_unfold Tunn_format_init_unfold Let_def
      split: option.splits if_splits result.splits prod.splits)

lemma send_queued_result:
  assumes s: "send_queued_packet c t n w = Some (r, t', w')"
  shows "r \<noteq> WriteToTunnelV4 y a \<and> r \<noteq> WriteToTunnelV6 y a"
proof (cases "packet_queue t")
  case (Cons p ps)
  then obtain r1 t1 w1 where e: "encapsulate c (t\<lparr>packet_queue := ps\<rparr>) p n w = Some (r1, t1, w1)"
    using s by (auto simp: send_queued_packet_def dequeue_packet_def bind_eq_Some_conv)
  with s Cons encapsulate_result [OF e] show ?thesis
    by (cases r1) (auto simp: send_queued_packet_def dequeue_packet_def)
qed (use s in \<open>auto simp: send_queued_packet_def dequeue_packet_def\<close>)

lemma no_tun_flush:
  assumes s: "\<And>x w. no_tun w (send x w)" and f: "flush_peer c i send w = Some w'"
  shows "no_tun w w'"
proof -
  obtain ps p v where "w' = fold send ps (put_peer i p (w\<lparr>tw := v\<rparr>))"
    using f by (auto simp: flush_peer_def Let_def bind_eq_Some_conv)
  then show ?thesis
    using calls_ok_trans [OF calls_ok_same no_tun_fold [OF s], of "put_peer i p (w\<lparr>tw := v\<rparr>)" w] by simp
qed

text \<open>What may be written to the interface while a datagram \<open>x\<close> for peer \<open>p\<close> is handled.\<close>

definition written_ok :: "('u, 'p) libs \<Rightarrow> int \<Rightarrow> 'u Peer \<Rightarrow> bytes \<Rightarrow> os_op \<Rightarrow> bool" where
  "written_ok L ifc p x y \<longleftrightarrow> (\<forall>f z. y = WriteTun f z \<longrightarrow>
     f = ifc \<and> (\<exists>q k. decrypted L p x q \<and> source_allowed L p q \<and> z = take k q))"

lemma no_tun_written: "no_tun w w' \<Longrightarrow> calls_ok (written_ok L ifc p x) w w'"
  by (erule calls_ok_mono) (auto simp: written_ok_def)

lemma act_on_result_written:
  assumes s: "\<And>x w. no_tun w (send x w)" and a: "act_on_result L ifc i send r w = Some w'"
    and q: "\<And>y a. r = WriteToTunnelV4 y a \<or> r = WriteToTunnelV6 y a \<Longrightarrow> \<exists>q. decrypted L p x q \<and> (\<exists>k. y = take k q) \<and>
      (r = WriteToTunnelV4 y a \<and> ip_version q = 4 \<and> a = slice q 12 16 \<or>
       r = WriteToTunnelV6 y a \<and> ip_version q = 6 \<and> a = slice q 8 24)"
    and p: "allowed_ips (peer_store w ! i) = allowed_ips p"
  shows "calls_ok (written_ok L ifc p x) w w'"
proof (cases "\<exists>y a. r = WriteToTunnelV4 y a \<or> r = WriteToTunnelV6 y a")
  case True
  then obtain y b where r: "r = WriteToTunnelV4 y b \<or> r = WriteToTunnelV6 y b" by blast
  from q [OF this] obtain z where z: "decrypted L p x z" "\<exists>k. y = take k z"
    and v: "r = WriteToTunnelV4 y b \<and> ip_version z = 4 \<and> b = slice z 12 16 \<or>
       r = WriteToTunnelV6 y b \<and> ip_version z = 6 \<and> b = slice z 8 24" by blast
  have "w' = w \<or> source_allowed L p z \<and> w' = snd (os_call (WriteTun ifc y) w)"
    using a v p by (auto simp: act_on_result_def source_allowed_def is_allowed_ip_def split: if_splits)
  moreover have "written_ok L ifc p x (WriteTun ifc y)" if "source_allowed L p z"
    using z that by (auto simp: written_ok_def)
  ultimately show ?thesis using calls_ok_call [OF calls_ok_same [OF refl]] by auto
next
  case False
  have "no_tun w w'"
  proof (cases r)
    case (WriteToNetwork y)
    then have "flush_peer (lib_crypto L) i send (send y w) = Some w'" using a by (simp add: act_on_result_def)
    from calls_ok_trans [OF s no_tun_flush [OF s this]] show ?thesis .
  qed (use a False in \<open>auto simp: act_on_result_def\<close>)
  then show ?thesis by (rule no_tun_written)
qed

lemma udp_packet_written:
  assumes c: "crypto_laws (lib_crypto L)" and u: "udp_packet L sk pk limiter ifc udp d a x w = Some (b, d', w')"
  shows "no_tun w w' \<or> (\<exists>m i. parse_incoming_packet x = Ok m \<and> peer_of_packet L d sk pk m = Some (Some i) \<and>
    calls_ok (written_ok L ifc (peer_store w ! i) x) w w')"
proof -
  let ?c = "lib_crypto L"
  obtain res v where v: "limiter_verify_packet ?c limiter (Some (sock_ip a)) x MAX_UDP_SIZE (tw w) = (res, v)" by force
  from c v show ?thesis
  proof (cases rule: limiter_verify_cases)
    case (ok m)
    obtain po where po: "peer_of_packet L d sk pk m = Some po"
      using u v ok by (auto simp: udp_packet_def Let_def bind_eq_Some_conv)
    show ?thesis
    proof (cases po)
      case None
      then show ?thesis using u v ok po by (auto simp: udp_packet_def Let_def)
    next
      case (Some i)
      let ?p = "peer_store w ! i"
      obtain r t v1 where h: "handle_verified_packet ?c (tunnel ?p) m MAX_UDP_SIZE v = Some (r, t, v1)"
        using u v ok po Some by (auto simp: udp_packet_def Let_def bind_eq_Some_conv)
      define w1 where "w1 = put_peer i (?p\<lparr>tunnel := t\<rparr>) (w\<lparr>tw := v1\<rparr>)"
      show ?thesis
      proof (cases "\<exists>e. r = TunnErr e")
        case True
        then show ?thesis using u v ok po Some h by (auto simp: udp_packet_def Let_def put_peer_def)
      next
        case False
        then obtain w2 where ar: "act_on_result L ifc i (send_to udp a) r w1 = Some w2"
          and ue: "update_endpoint d i a w2 = Some (d', w')"
          using u v ok po Some h
          by (cases r) (auto simp: udp_packet_def Let_def w1_def put_peer_def bind_eq_Some_conv)
        have "\<exists>q. decrypted L ?p x q \<and> (\<exists>k. y = take k q) \<and>
            (r = WriteToTunnelV4 y e \<and> ip_version q = 4 \<and> e = slice q 12 16 \<or>
             r = WriteToTunnelV6 y e \<and> ip_version q = 6 \<and> e = slice q 8 24)"
          if "r = WriteToTunnelV4 y e \<or> r = WriteToTunnelV6 y e" for y e
          using verified_tunnel [OF h that] ok(2) unfolding decrypted_def by blast
        moreover have "allowed_ips (peer_store w1 ! i) = allowed_ips ?p"
          by (cases "i < length (peer_store w)") (simp_all add: w1_def put_peer_def list_update_beyond)
        ultimately have "calls_ok (written_ok L ifc ?p x) w1 w2"
          by (intro act_on_result_written [OF no_tun_send(1) ar])
        from calls_ok_trans [OF this no_tun_written [OF no_tun_update_endpoint [OF ue]]]
        have "calls_ok (written_ok L ifc ?p x) w w'" by (simp add: calls_ok_def w1_def)
        then show ?thesis using ok(2) po Some by blast
      qed
    qed
  next
    case (cookie reply)
    then have "w' = send_to udp a reply (w\<lparr>tw := v\<rparr>)" using u v by (simp add: udp_packet_def Let_def)
    then show ?thesis using no_tun_send(1) [of "w\<lparr>tw := v\<rparr>" udp a reply] by (simp add: calls_ok_def)
  next
    case (err e)
    then have "w' = w\<lparr>tw := v\<rparr>" using u v by (simp add: udp_packet_def Let_def)
    then show ?thesis by simp
  qed
qed

lemma conn_packet_written:
  assumes c: "crypto_laws (lib_crypto L)" and u: "conn_packet L ifc i udp a x w = Some w'"
  shows "calls_ok (written_ok L ifc (peer_store w ! i) x) w w'"
proof -
  let ?c = "lib_crypto L" let ?p = "peer_store w ! i"
  obtain r t v where d: "decapsulate ?c (tunnel ?p) (Some a) x MAX_UDP_SIZE (tw w) = Some (r, t, v)"
    and ar: "act_on_result L ifc i (send_conn udp) r (put_peer i (?p\<lparr>tunnel := t\<rparr>) (w\<lparr>tw := v\<rparr>)) = Some w'"
    using u by (auto simp: conn_packet_def Let_def bind_eq_Some_conv)
  have "\<exists>q. decrypted L ?p x q \<and> (\<exists>k. y = take k q) \<and>
      (r = WriteToTunnelV4 y e \<and> ip_version q = 4 \<and> e = slice q 12 16 \<or>
       r = WriteToTunnelV6 y e \<and> ip_version q = 6 \<and> e = slice q 8 24)"
    if r: "r = WriteToTunnelV4 y e \<or> r = WriteToTunnelV6 y e" for y e
  proof (cases "x = []")
    case True
    then show ?thesis using d r send_queued_result [of ?c "tunnel ?p" MAX_UDP_SIZE "tw w"] by (auto simp: decapsulate_def)
  next
    case False
    obtain res v0 where lv: "limiter_verify_packet ?c (rate_limiter (tunnel ?p)) (Some a) x COOKIE_REPLY_SZ (tw w) = (res, v0)"
      by force
    from c lv show ?thesis
    proof (cases rule: limiter_verify_cases)
      case (ok m)
      then have "handle_verified_packet ?c (tunnel ?p) m MAX_UDP_SIZE v0 = Some (r, t, v)"
        using d lv False by (simp add: decapsulate_def)
      from verified_tunnel [OF this r] ok(2) show ?thesis unfolding decrypted_def by blast
    qed (use d r lv False in \<open>auto simp: decapsulate_def split: if_splits\<close>)
  qed
  moreover have "allowed_ips (peer_store (put_peer i (?p\<lparr>tunnel := t\<rparr>) (w\<lparr>tw := v\<rparr>)) ! i) = allowed_ips ?p"
    by (cases "i < length (peer_store w)") (simp_all add: put_peer_def list_update_beyond)
  ultimately have "calls_ok (written_ok L ifc ?p x) (put_peer i (?p\<lparr>tunnel := t\<rparr>) (w\<lparr>tw := v\<rparr>)) w'"
    by (intro act_on_result_written [OF no_tun_send(2) ar])
  then show ?thesis by (simp add: calls_ok_def)
qed

text \<open>
  C5.  Cryptokey routing of incoming packets.  While the device handles one datagram, on a listening or on a
  connected socket, it writes to the interface only the decryption of that datagram by the session its index
  selects, in the tunnel of the peer it is routed to, and only if the source address in the decrypted IP header is one
  that peer may use.  (The packet may be cut to the length its header gives.)
\<close>

theorem only_allowed_sources:
  assumes c: "crypto_laws (lib_crypto L)"
  shows "(udp_packet L sk pk limiter ifc udp d a x w = Some (b, d', w') \<longrightarrow>
      (\<exists>xs. trace w' = trace w @ xs \<and> (\<forall>f z. WriteTun f z \<in> set xs \<longrightarrow> f = ifc \<and>
        (\<exists>m i q k. parse_incoming_packet x = Ok m \<and> peer_of_packet L d sk pk m = Some (Some i) \<and>
           decrypted L (peer_store w ! i) x q \<and> source_allowed L (peer_store w ! i) q \<and> z = take k q)))) \<and>
    (conn_packet L ifc i udp adr x w = Some w' \<longrightarrow>
      (\<exists>xs. trace w' = trace w @ xs \<and> (\<forall>f z. WriteTun f z \<in> set xs \<longrightarrow> f = ifc \<and>
        (\<exists>q k. decrypted L (peer_store w ! i) x q \<and> source_allowed L (peer_store w ! i) q \<and> z = take k q))))"
proof (intro conjI impI)
  assume "udp_packet L sk pk limiter ifc udp d a x w = Some (b, d', w')"
  from udp_packet_written [OF c this]
  show "\<exists>xs. trace w' = trace w @ xs \<and> (\<forall>f z. WriteTun f z \<in> set xs \<longrightarrow> f = ifc \<and>
        (\<exists>m i q k. parse_incoming_packet x = Ok m \<and> peer_of_packet L d sk pk m = Some (Some i) \<and>
           decrypted L (peer_store w ! i) x q \<and> source_allowed L (peer_store w ! i) q \<and> z = take k q))"
    (is "\<exists>xs. ?T xs")
  proof (elim disjE exE conjE)
    assume "no_tun w w'" then show "\<exists>xs. ?T xs" by (rule calls_written) simp
  next
    fix m i
    assume m: "parse_incoming_packet x = Ok m" "peer_of_packet L d sk pk m = Some (Some i)"
      and "calls_ok (written_ok L ifc (peer_store w ! i) x) w w'"
    from this(3) show "\<exists>xs. ?T xs" by (rule calls_written) (use m in \<open>auto simp: written_ok_def\<close>)
  qed
next
  assume "conn_packet L ifc i udp adr x w = Some w'"
  from conn_packet_written [OF c this] show "\<exists>xs. trace w' = trace w @ xs \<and> (\<forall>f z. WriteTun f z \<in> set xs \<longrightarrow> f = ifc \<and>
        (\<exists>q k. decrypted L (peer_store w ! i) x q \<and> source_allowed L (peer_store w ! i) q \<and> z = take k q))"
    by (rule calls_written) (simp add: written_ok_def)
qed

section \<open>Routing\<close>

lemma do_iface_run:
  assumes "dev_reachable L (d, w)" "iface_handler L d inbox w = Some (a, rest, w')"
  shows "dev_reachable L (d, w')"
  using assms run_iface [OF assms(2)] unfolding dev_reachable_def by (meson rtranclp.rtrancl_into_rtrancl)

lemma pending_prefix: "state_prefix b x \<Longrightarrow> InitSent s = x \<Longrightarrow> drop_bit 8 (is_local_index s) = b"
  by auto

text \<open>
  C11.  Replies reach the peer they belong to.  In every state the device reaches, a data packet that carries the index of
  a session of a configured peer, and a handshake response that carries the index of an initiation
  pending at that peer, is handed to that peer and to no other.
\<close>

theorem replies_reach_their_peer:
  assumes L: "libs_laws L" and r: "dev_reachable L (d, w)" and k: "(k, i) \<in> set (peers d)"
  shows "(\<forall>s m. Some s \<in> set (sessions (tunnel (peer_store w ! i))) \<and> pd_receiver_idx m = receiving_index s \<longrightarrow>
      peer_of_packet L d sk pk (PacketData m) = Some (Some i)) \<and>
    (\<forall>s m. InitSent s \<in> {hs_state (handshake (tunnel (peer_store w ! i))), previous (handshake (tunnel (peer_store w ! i)))} \<and>
      hr_receiver_idx m = is_local_index s \<longrightarrow> peer_of_packet L d sk pk (HandshakeResponse m) = Some (Some i))"
proof -
  let ?p = "peer_store w ! i"
  note inv = reachable_inv [OF L r]
  have i: "i \<in> snd ` set (peers d)" using k by force
  note tD = tables_okD(3,4) [OF dev_invD(1) [OF inv] i]
  note ti = tunnel_ok [OF dev_invD(2) [OF inv] tD(1)]
  have "drop_bit 8 (receiving_index s) = peer_idx ?p" if "Some s \<in> set (sessions (tunnel ?p))" for s
    using that tunn_invD(3) [OF ti] by (auto simp: sessions_ok_def slot_ok_def in_set_conv_nth)
  moreover have "drop_bit 8 (is_local_index s) = peer_idx ?p"
    if "InitSent s \<in> {hs_state (handshake (tunnel ?p)), previous (handshake (tunnel ?p))}" for s
    using that tunn_invD(4) [OF ti] pending_prefix unfolding index_inv_def by blast
  ultimately show ?thesis using tD(2) by (auto simp: peer_of_packet_def)
qed

text \<open>
  C12.  Outgoing and incoming routes agree.  In every state the device reaches, the peer to which the device
  sends packets for an address is configured, and the device accepts packets from that address when they come
  from that peer.
\<close>

theorem routes_agree:
  assumes L: "libs_laws L" and r: "dev_reachable L (d, w)"
    and f: "AllowedIps_find (dev_table L) (peers_by_ip d) a = Some i"
  shows "i \<in> snd ` set (peers d) \<and> is_allowed_ip (peer_table L) (peer_store w ! i) a"
proof -
  note inv = reachable_inv [OF L r]
  obtain n where n: "entries (dev_table L) (peers_by_ip d) n = Some i" "in_net a n"
    using find_entry [OF libs_lawsD(3) [OF L] f] by blast
  have "i \<in> snd ` set (peers d)" by (rule tables_okD(7) [OF dev_invD(1) [OF inv] n(1)])
  moreover have "is_allowed_ip (peer_table L) (peer_store w ! i) a"
    using dev_invD(5) [OF inv] n unfolding routes_ok_def by blast
  ultimately show ?thesis by blast
qed

theorem routes_agree_witness:
  "\<exists>d w. dev_reachable sample_libs (d, w) \<and> AllowedIps_find sample_table (peers_by_ip d) (V4 [10, 0, 0, 5]) = Some 0 \<and>
     is_allowed_ip sample_table (peer_store w ! 0) (V4 [10, 0, 0, 5])"
proof (rule sample_peer)
  fix d w assume r: "dev_reachable sample_libs (d, w)"
    and f: "AllowedIps_find sample_table (peers_by_ip d) (V4 [10, 0, 0, 5]) = Some 0"
  from routes_agree [OF sample_libs_laws r, of "V4 [10, 0, 0, 5]" 0] f r show ?thesis by (auto simp: sample_libs_def)
qed

section \<open>Flushing the queue\<close>

lemma flush_empty: "packet_queue t = [] \<Longrightarrow> flush_queue c t w = Some ([], t, w)"
  by (subst flush_queue.simps) (simp add: decapsulate_def send_queued_packet_def dequeue_packet_def)

lemma flush_session:
  assumes c: "crypto_laws c"
  shows "tunn_inv b t w \<Longrightarrow> sessions t ! (current t mod N_SESSIONS) = Some s \<Longrightarrow>
    \<forall>p \<in> set (packet_queue t). length p + DATA_OVERHEAD_SZ \<le> MAX_UDP_SIZE \<Longrightarrow>
    \<exists>ps t' w' s'. flush_queue c t w = Some (ps, t', w') \<and> packet_queue t' = [] \<and>
      format_all c s MAX_UDP_SIZE (packet_queue t) = Some (ps, s') \<and> sessions t' ! (current t' mod N_SESSIONS) = Some s'"
proof (induction "packet_queue t" arbitrary: t w s)
  case Nil
  then show ?case using flush_empty [of t c w] by simp
next
  case (Cons p ps)
  let ?t = "t\<lparr>packet_queue := ps\<rparr>"
  note q = Cons.hyps(2) [symmetric]
  have i: "tunn_inv b ?t w" using inv_queue(3) [OF Cons.prems(1)] q by (simp add: dequeue_packet_def)
  obtain r t1 w1 where e: "encapsulate c ?t p MAX_UDP_SIZE w = Some (r, t1, w1)" "kept b ?t w t1 w1"
    by (rule encapsulate_total [OF c i, of p MAX_UDP_SIZE]) (use Cons.prems(3) q in \<open>auto simp: DATA_OVERHEAD_SZ_def\<close>)
  obtain x s1 where x: "format_packet_data c s p MAX_UDP_SIZE = Some (x, s1)" "r = WriteToNetwork x" "t1 = data_sent c ?t s1 p"
    using e(1) Cons.prems(2) by (auto simp: encapsulate_unfold split: option.splits)
  have l: "length (sessions t) = N_SESSIONS" using tunn_invD(1) [OF Cons.prems(1)] by (simp add: shape_ok_def)
  have "sessions t1 ! (current t1 mod N_SESSIONS) = Some s1" using l by (simp add: x N_SESSIONS_def)
  from Cons.hyps(1) [OF _ keptD(1) [OF e(2)] this] Cons.prems(3) q
  obtain qs t' w' s' where "flush_queue c t1 w1 = Some (qs, t', w')" "packet_queue t' = []"
    "format_all c s1 MAX_UDP_SIZE ps = Some (qs, s')" "sessions t' ! (current t' mod N_SESSIONS) = Some s'"
    by (auto simp: x(3))
  moreover have "decapsulate c t None [] MAX_UDP_SIZE w = Some (WriteToNetwork x, t1, w1)"
    using e(1) q by (simp add: decapsulate_def send_queued_packet_def dequeue_packet_def x(2))
  ultimately show ?case using q x(1) by (subst flush_queue.simps) simp
qed

text \<open>Without a session the first packet goes to the back, and an initiation is sent unless one is pending.\<close>

lemma rotate_pending:
  assumes q: "packet_queue t = p # ps" and l: "length (packet_queue t) \<le> MAX_QUEUE_DEPTH"
    and s: "sessions t ! (current t mod N_SESSIONS) = None" and h: "is_in_progress (handshake t)"
  shows "flush_queue c t w = Some ([], t\<lparr>packet_queue := ps @ [p]\<rparr>, w)"
  using assms
  by (subst flush_queue.simps)
    (simp add: decapsulate_def send_queued_packet_def dequeue_packet_def encapsulate_def queue_packet_def
      Tunn_format_handshake_initiation_def)

definition only_initiation :: "Tunn \<Rightarrow> bytes list \<Rightarrow> bool" where
  "only_initiation t ps \<longleftrightarrow>
     (if packet_queue t = [] \<or> is_in_progress (handshake t) then ps = []
      else \<exists>d m. ps = [d] \<and> parse_incoming_packet d = Ok (HandshakeInit m))"

lemma flush_no_session:
  assumes c: "crypto_laws c" and inv: "tunn_inv b t w" and s: "sessions t ! (current t mod N_SESSIONS) = None"
  shows "\<exists>ps t' w'. flush_queue c t w = Some (ps, t', w') \<and> only_initiation t ps \<and>
    packet_queue t' = rotate (if is_in_progress (handshake t) then 1 else 2) (packet_queue t)"
proof (cases "packet_queue t")
  case Nil
  then show ?thesis using flush_empty [of t c w] by (simp add: only_initiation_def)
next
  case (Cons p ps)
  have l: "length (packet_queue t) \<le> MAX_QUEUE_DEPTH" using tunn_invD(1) [OF inv] by (simp add: shape_ok_def)
  show ?thesis
  proof (cases "is_in_progress (handshake t)")
    case True
    then show ?thesis using rotate_pending [OF Cons l s] Cons by (auto simp: only_initiation_def)
  next
    case False
    let ?t = "t\<lparr>packet_queue := ps @ [p]\<rparr>"
    have i: "tunn_inv b ?t w" using inv Cons by (simp add: tunn_inv_def shape_ok_def)
    obtain x t1 w1 st m where e: "Tunn_format_handshake_initiation c ?t MAX_UDP_SIZE False w = Some (WriteToNetwork x, t1, w1)"
      and m: "parse_incoming_packet x = Ok (HandshakeInit m)"
      and h: "hs_state (handshake t1) = InitSent st" and f: "sessions t1 = sessions t" "packet_queue t1 = ps @ [p]" "current t1 = current t"
      by (rule idle_initiates [OF c i, of MAX_UDP_SIZE]) (use False in \<open>auto simp: MAX_UDP_SIZE_def HANDSHAKE_INIT_SZ_def\<close>)
    have d: "decapsulate c t None [] MAX_UDP_SIZE w = Some (WriteToNetwork x, t1, w1)"
      using s Cons l e
      by (simp add: decapsulate_def send_queued_packet_def dequeue_packet_def encapsulate_def queue_packet_def)
    obtain q qs where q: "packet_queue t1 = q # qs" by (cases "packet_queue t1") (use f(2) in simp_all)
    have "flush_queue c t1 w1 = Some ([], t1\<lparr>packet_queue := qs @ [q]\<rparr>, w1)"
      by (rule rotate_pending [OF q]) (use f l s h Cons in \<open>auto simp: is_in_progress_def\<close>)
    then have "flush_queue c t w = Some ([x], t1\<lparr>packet_queue := qs @ [q]\<rparr>, w1)"
      using d by (subst flush_queue.simps) simp
    moreover have "qs @ [q] = rotate 2 (packet_queue t)"
      using f(2) q Cons by (simp add: numeral_2_eq_2) (metis rotate1.simps(2))
    ultimately show ?thesis using False Cons m by (simp add: only_initiation_def)
  qed
qed

text \<open>
  C24.  Flushing ends.  The loop that empties the queue of a tunnel after a handshake message returns from every consistent
  state in which every queued packet fits a datagram (a longer one makes it panic).  With a session it sends the queued
  packets, each sealed under the session and in their order, and leaves the queue empty.  Without one it sends nothing,
  or a single handshake initiation if there are packets and none is pending; every packet stays in the queue, whose
  order is rotated by one or by two.
\<close>

theorem flush_queue_returns:
  assumes c: "crypto_laws c" and inv: "tunn_inv b t w"
    and f: "\<forall>p \<in> set (packet_queue t). length p + DATA_OVERHEAD_SZ \<le> MAX_UDP_SIZE"
  shows "\<exists>ps t' w'. flush_queue c t w = Some (ps, t', w') \<and>
    (case sessions t ! (current t mod N_SESSIONS) of
       Some s \<Rightarrow> packet_queue t' = [] \<and> (\<exists>s'. format_all c s MAX_UDP_SIZE (packet_queue t) = Some (ps, s') \<and>
         sessions t' ! (current t' mod N_SESSIONS) = Some s')
     | None \<Rightarrow> only_initiation t ps \<and>
         packet_queue t' = rotate (if is_in_progress (handshake t) then 1 else 2) (packet_queue t))"
proof (cases "sessions t ! (current t mod N_SESSIONS)")
  case None
  with flush_no_session [OF c inv] show ?thesis by simp
next
  case (Some s)
  with flush_session [OF c inv Some f] show ?thesis by auto
qed

theorem flush_queue_returns_witness:
  "\<exists>t w ps t' w'. sample_tunn [1] [2] = Some (t, w) \<and>
     flush_queue sample_crypto (t\<lparr>packet_queue := [[1], [2], [3]]\<rparr>) w = Some (ps, t', w') \<and>
     length ps = 1 \<and> packet_queue t' = [[3], [1], [2]]"
proof (rule sample_tunn [of "[1]" "[2]"])
  fix t w assume t: "sample_tunn [1] [2] = Some (t, w)" and i: "tunn_inv 7 t w" and h: "hs_state (handshake t) = HsNone"
  let ?t = "t\<lparr>packet_queue := [[1], [2], [3]]\<rparr>"
  have i': "tunn_inv 7 ?t w" using i by (simp add: tunn_inv_def shape_ok_def MAX_QUEUE_DEPTH_def)
  have "sessions ?t ! (current ?t mod N_SESSIONS) = None"
    using Tunn_new_fields [OF t [unfolded sample_tunn_def]] by (simp add: N_SESSIONS_def)
  then show ?thesis
    using flush_queue_returns [OF sample_crypto_laws i'] t h
    by (auto simp: DATA_OVERHEAD_SZ_def MAX_UDP_SIZE_def only_initiation_def is_in_progress_def numeral_2_eq_2)
qed

text \<open>The sample device after a packet for its peer came from the interface: an initiation is pending.\<close>

lemma sample_pending:
  obtains d w s where "dev_reachable sample_libs (d, w)" "(replicate 32 2, 0) \<in> set (peers d)"
    "hs_state (handshake (tunnel (peer_store w ! 0))) = InitSent s"
proof (rule sample_peer)
  fix d w
  assume r: "dev_reachable sample_libs (d, w)" and p: "peers d = [(replicate 32 2, 0)]" and u: "udp4 d = Some 3" "udp6 d = Some 7"
    and m: "mtu d = 1420" and l: "length (peer_store w) = 1"
    and f: "AllowedIps_find sample_table (peers_by_ip d) (V4 [10, 0, 0, 5]) = Some 0"
    and t: "sessions (tunnel (peer_store w ! 0)) = replicate N_SESSIONS None" "packet_queue (tunnel (peer_store w ! 0)) = []"
      "hs_state (handshake (tunnel (peer_store w ! 0))) = HsNone"
  let ?t = "tunnel (peer_store w ! 0)"
  define src where "src = (0x45 :: u8) # replicate 15 0 @ [10, 0, 0, 5]"
  have a: "dst_address (take (mtu d) src) = Some (V4 [10, 0, 0, 5])" "take (mtu d) src = src" unfolding m src_def by code_simp+
  have i: "tunn_inv (peer_idx (peer_store w ! 0)) (queue_packet ?t src) (tw w)"
    using tunnel_ok [OF dev_invD(2) [OF reachable_inv [OF sample_libs_laws r]], of 0] l by (auto intro: inv_intros)
  obtain x t' v s where e: "Tunn_format_handshake_initiation sample_crypto (queue_packet ?t src) MAX_UDP_SIZE False (tw w) =
      Some (WriteToNetwork x, t', v)" "hs_state (handshake t') = InitSent s"
    by (rule idle_initiates [OF sample_crypto_laws i, of MAX_UDP_SIZE])
      (use t in \<open>auto simp: is_in_progress_def queue_packet_def MAX_UDP_SIZE_def HANDSHAKE_INIT_SZ_def\<close>)
  have "encapsulate sample_crypto ?t src MAX_UDP_SIZE (tw w) = Some (WriteToNetwork x, t', v)"
    using e(1) t(1) by (simp add: encapsulate_def N_SESSIONS_def)
  then have "iface_packet sample_libs 3 7 d src w =
      Some (send_encapsulated 3 7 (endpoint (peer_store w ! 0)) x (put_peer 0 ((peer_store w ! 0)\<lparr>tunnel := t'\<rparr>) (w\<lparr>tw := v\<rparr>)))"
    using a f by (simp add: iface_packet_def sample_libs_def Let_def)
  moreover define w' where
    "w' = send_encapsulated 3 7 (endpoint (peer_store w ! 0)) x (put_peer 0 ((peer_store w ! 0)\<lparr>tunnel := t'\<rparr>) (w\<lparr>tw := v\<rparr>))"
  ultimately have "iface_loop sample_libs 3 7 d (Suc (Suc 98)) [Packet src, Blocked] w = Some (Continue, [], w')"
    using m a(2) unfolding iface_loop.simps by (simp add: MAX_UDP_SIZE_def)
  moreover have "Suc (Suc 98) = MAX_ITR" by (simp add: MAX_ITR_def)
  ultimately have "iface_handler sample_libs d [Packet src, Blocked] w = Some (Continue, [], w')"
    using u by (simp add: iface_handler_def)
  from do_iface_run [OF r this] have "dev_reachable sample_libs (d, w')" .
  moreover have "hs_state (handshake (tunnel (peer_store w' ! 0))) = InitSent s"
    using l e(2) by (simp add: w'_def send_encapsulated_def send_conn_def send_to_def put_peer_def split: option.split)
  ultimately show thesis using that p by simp
qed

theorem replies_reach_their_peer_witness:
  "\<exists>d w s. dev_reachable sample_libs (d, w) \<and> (replicate 32 2, 0) \<in> set (peers d) \<and>
     hs_state (handshake (tunnel (peer_store w ! 0))) = InitSent s \<and>
     peer_of_packet sample_libs d [] [] (HandshakeResponse \<lparr>hr_sender_idx = 9, hr_receiver_idx = is_local_index s,
       hr_unencrypted_ephemeral = [], hr_encrypted_nothing = []\<rparr>) = Some (Some 0)"
proof (rule sample_pending)
  fix d w s
  assume r: "dev_reachable sample_libs (d, w)" and k: "(replicate 32 2, 0) \<in> set (peers d)"
    and s: "hs_state (handshake (tunnel (peer_store w ! 0))) = InitSent s"
  note * = replies_reach_their_peer [OF sample_libs_laws r k, of "[]" "[]", THEN conjunct2, rule_format]
  show ?thesis
    by (intro exI conjI, rule r, rule k, rule s, rule * [of s]) (use s in simp)
qed

text \<open>
  The sample peer with a session, and a data packet for it from 10.0.0.5.  The connected socket delivers it to the interface.
\<close>

lemma sample_delivery:
  fixes inner x :: bytes and w :: "(net, unit) alist dev_world"
  defines "inner \<equiv> [0x45, 0, 0, 20, 0, 0, 0, 0, 0, 0, 0, 0, 10, 0, 0, 5, 10, 0, 0, 1]"
    and "x \<equiv> [4, 0, 0, 0, 1, 0, 0, 0] @ replicate 8 0 @ inner @ replicate 16 0"
  assumes s: "sessions (tunnel (peer_store w ! 0)) ! 1 = Some (Session_new 1 2 (replicate 32 3) (replicate 32 4))"
    and a: "is_allowed_ip sample_table (peer_store w ! 0) (V4 [10, 0, 0, 5])" and l: "length (peer_store w) = 1"
  shows "\<exists>w'. conn_packet sample_libs 5 0 9 (V4 [1, 2, 3, 4]) x w = Some w' \<and> trace w' = trace w @ [WriteTun 5 inner]"
proof -
  let ?p = "peer_store w ! 0"
  define m where "m = \<lparr>pd_receiver_idx = 1, pd_counter = 0, pd_encrypted_encapsulated_packet = inner @ replicate 16 0\<rparr>"
  have m: "parse_incoming_packet x = Ok (PacketData m)" unfolding m_def x_def inner_def by code_simp
  obtain s' where r: "receive_packet_data sample_crypto (Session_new 1 2 (replicate 32 3) (replicate 32 4)) m MAX_UDP_SIZE = Some (Ok inner, s')"
    by (rule receive_packet_data_ok [where S = "{}" and c = sample_crypto and p = m and pt = inner and dst_len = MAX_UDP_SIZE])
      (auto simp: m_def Session_new_def window_inv_default spec_accepts_def MAX_UDP_SIZE_def inner_def sample_crypto_def)
  have q: "ip_version inner = 4" "length inner = 20" "inner \<noteq> []" "(word_of_be (slice inner 2 4) :: u16) = 20"
    "slice inner 12 16 = [10, 0, 0, 5]" unfolding inner_def by code_simp+
  have "fst (validate_decapsulated_packet c u inner) = WriteToTunnelV4 inner [10, 0, 0, 5]" for c u
    using q by (simp add: validate_decapsulated_packet_def ip_const_defs Let_def)
  then obtain t where h: "handle_data sample_crypto (tunnel ?p) m MAX_UDP_SIZE = Some (Ok (WriteToTunnelV4 inner [10, 0, 0, 5]), t)"
    using s r by (auto simp: handle_data_def m_def N_SESSIONS_def Let_def split_beta)
  have "verify_packet c rl ad x n v = (Ok (PacketData m), rl, v)" for c rl ad n and v :: tunn_world
    using m by (simp add: verify_packet_def)
  then have "decapsulate sample_crypto (tunnel ?p) (Some (V4 [1, 2, 3, 4])) x MAX_UDP_SIZE (tw w) =
      Some (WriteToTunnelV4 inner [10, 0, 0, 5], t, tw w)"
    using h by (simp add: decapsulate_def limiter_verify_packet_def x_def)
  then show ?thesis
    using a l
    by (simp add: conn_packet_def act_on_result_def sample_libs_def put_peer_def is_allowed_ip_def os_call_def Let_def)
qed

theorem only_allowed_sources_witness:
  "\<exists>w w' x z q k. conn_packet sample_libs 5 0 9 (V4 [1, 2, 3, 4]) x w = Some w' \<and> trace w' = trace w @ [WriteTun 5 z] \<and>
     decrypted sample_libs (peer_store w ! 0) x q \<and> source_allowed sample_libs (peer_store w ! 0) q \<and> z = take k q"
proof (rule sample_peer)
  fix d w0
  assume r: "dev_reachable sample_libs (d, w0)" and l: "length (peer_store w0) = 1"
    and f: "AllowedIps_find sample_table (peers_by_ip d) (V4 [10, 0, 0, 5]) = Some 0"
    and t: "sessions (tunnel (peer_store w0 ! 0)) = replicate N_SESSIONS None"
  let ?p = "peer_store w0 ! 0"
  let ?s = "Session_new 1 2 (replicate 32 3) (replicate 32 4)"
  define w where "w = put_peer 0 (?p\<lparr>tunnel := (tunnel ?p)\<lparr>sessions := (sessions (tunnel ?p))[1 := Some ?s]\<rparr>\<rparr>) w0"
  define z where "z = [0x45, 0, 0, 20, 0, 0, 0, 0, 0, 0, 0, 0, 10, 0, 0, 5, 10, 0, 0, (1 :: u8)]"
  define x where "x = [4, 0, 0, 0, 1, 0, 0, 0] @ replicate 8 0 @ z @ replicate 16 0"
  note inv = reachable_inv [OF sample_libs_laws r]
  obtain n where "entries sample_table (peers_by_ip d) n = Some 0" "in_net (V4 [10, 0, 0, 5]) n"
    using find_entry [OF sample_table_laws f] by blast
  then have "is_allowed_ip sample_table ?p (V4 [10, 0, 0, 5])"
    using dev_invD(5) [OF inv] unfolding routes_ok_def sample_libs_def by (simp only: libs.simps)
  then obtain w' where c: "conn_packet sample_libs 5 0 9 (V4 [1, 2, 3, 4]) x w = Some w'" and tr: "trace w' = trace w @ [WriteTun 5 z]"
    using sample_delivery [of w] l t unfolding x_def z_def by (auto simp: w_def put_peer_def is_allowed_ip_def N_SESSIONS_def)
  from only_allowed_sources [OF libs_lawsD(1) [OF sample_libs_laws], THEN conjunct2, rule_format, OF c] tr
  obtain q k where "decrypted sample_libs (peer_store w ! 0) x q" "source_allowed sample_libs (peer_store w ! 0) q" "z = take k q"
    by auto
  with c tr show ?thesis by blast
qed

end
