(* ===== verification/DeviceSockets.thy ===== *)
theory DeviceSockets
  imports DeviceSample
begin

text \<open>
  What changing the key and the listening port leaves behind: the sessions of every peer are gone after a new key, no
  datagram can be handled before the first key, and the handlers of the previous sockets stay registered when
  the port changes.
\<close>

section \<open>The key\<close>

definition reset_to :: "nat \<Rightarrow> 'u Peer \<Rightarrow> bool" where
  "reset_to r p \<longleftrightarrow> set (sessions (tunnel p)) \<subseteq> {None} \<and> rate_limiter (tunnel p) = r \<and> \<not> should_reset_rr (timers (tunnel p))"

lemma set_static_private_some:
  assumes "pk = x25519_public c sk"
  obtains t' where "Tunn_set_static_private c t sk pk (Some r) w = Some (t', w)" "set (sessions t') \<subseteq> {None}" "rate_limiter t' = r"
    "\<not> should_reset_rr (timers t')" "static_private (params (handshake t')) = sk"
  using assms
  by (auto simp: Tunn_set_static_private_def Handshake_set_static_private_def NoiseParams_set_static_private_def Let_def)

lemma rekey_peers_resets:
  assumes pk: "pk = x25519_public c sk"
  shows "\<forall>(k, i) \<in> set ps. i < length (peer_store w) \<Longrightarrow>
    \<exists>w'. rekey_peers c sk pk r ps w = Some w' \<and> length (peer_store w') = length (peer_store w) \<and>
      (\<forall>i. reset_to r (peer_store w ! i) \<longrightarrow> reset_to r (peer_store w' ! i)) \<and>
      (\<forall>(k, i) \<in> set ps. reset_to r (peer_store w' ! i))"
proof (induction ps arbitrary: w)
  case (Cons x ps)
  obtain k i where x: "x = (k, i)" by force
  let ?p = "peer_store w ! i"
  obtain t where t: "Tunn_set_static_private c (tunnel ?p) sk pk (Some r) (tw w) = Some (t, tw w)"
    and ok: "reset_to r (?p\<lparr>tunnel := t\<rparr>)"
    by (rule set_static_private_some [OF pk, of "tunnel ?p" r "tw w"]) (auto simp: reset_to_def)
  let ?w = "put_peer i (?p\<lparr>tunnel := t\<rparr>) w"
  have i: "i < length (peer_store w)" using Cons.prems x by simp
  have l: "length (peer_store ?w) = length (peer_store w)" by (simp add: put_peer_def)
  obtain w' where w': "rekey_peers c sk pk r ps ?w = Some w'" "length (peer_store w') = length (peer_store w)"
    "\<forall>i. reset_to r (peer_store ?w ! i) \<longrightarrow> reset_to r (peer_store w' ! i)" "\<forall>(k, i) \<in> set ps. reset_to r (peer_store w' ! i)"
    using Cons.IH [of ?w] Cons.prems unfolding l by auto
  have "reset_to r (peer_store ?w ! j)" if "reset_to r (peer_store w ! j) \<or> j = i" for j
    using that ok i by (cases "j = i") (auto simp: put_peer_def)
  then show ?case using w' t x by (auto simp: Let_def)
qed simp

text \<open>
  C23.  A new private key ends every session.  From any state the device reaches, \<^verbatim>\<open>set_key\<close> returns; if the public key
  changes, the device has the new pair, every configured peer has lost all its sessions, and every peer shares the new
  rate limiter of the device and leaves its reset to the device.
\<close>

theorem set_key_ends_sessions:
  assumes L: "libs_laws L" and r: "dev_reachable L (d, w)"
    and k: "map_option snd (key_pair d) \<noteq> Some (x25519_public (lib_crypto L) sk)"
  shows "\<exists>d' w' m. set_key L d sk w = Some (d', w') \<and> key_pair d' = Some (sk, x25519_public (lib_crypto L) sk) \<and>
    dev_rate_limiter d' = Some m \<and> peers d' = peers d \<and>
    (\<forall>(k, i) \<in> set (peers d'). set (sessions (tunnel (peer_store w' ! i))) \<subseteq> {None} \<and>
       rate_limiter (tunnel (peer_store w' ! i)) = m \<and> \<not> should_reset_rr (timers (tunnel (peer_store w' ! i))))"
proof -
  let ?c = "lib_crypto L" let ?pk = "x25519_public (lib_crypto L) sk"
  obtain rl v where rl: "RateLimiter_new ?c ?pk HANDSHAKE_RATE_LIMIT (tw w) = (rl, v)" by force
  obtain m v1 where m: "Arc_new rl v = (m, v1)" by force
  have s: "set (hash_order L (peers d)) = set (peers d)" by (rule libs_lawsD(5) [OF L])
  have "\<forall>(k, i) \<in> set (hash_order L (peers d)). i < length (peer_store (w\<lparr>tw := v1\<rparr>))"
    unfolding s using tables_okD(3) [OF dev_invD(1) [OF reachable_inv [OF L r]]] by force
  from rekey_peers_resets [OF refl this, of ?c sk m] obtain w' where w':
    "rekey_peers ?c sk ?pk m (hash_order L (peers d)) (w\<lparr>tw := v1\<rparr>) = Some w'"
    "\<forall>(k, i) \<in> set (peers d). reset_to m (peer_store w' ! i)" unfolding s by auto
  have "set_key L d sk w = Some (d\<lparr>key_pair := Some (sk, ?pk), dev_rate_limiter := Some m\<rparr>, w')"
    using rl m w'(1) k [symmetric] by (simp add: set_key_def Let_def)
  with w'(2) show ?thesis by (auto simp: reset_to_def)
qed

theorem set_key_ends_sessions_witness:
  "\<exists>d w d' w'. dev_reachable sample_libs (d, w) \<and> peers d = [(replicate 32 2, 0)] \<and>
     set_key sample_libs d (replicate 32 7) w = Some (d', w') \<and> set (sessions (tunnel (peer_store w' ! 0))) \<subseteq> {None}"
proof (rule sample_peer)
  fix d w
  assume r: "dev_reachable sample_libs (d, w)" and p: "peers d = [(replicate 32 2, 0)]"
    and k: "key_pair d = Some (replicate 32 1, replicate 32 1)"
  have "map_option snd (key_pair d) \<noteq> Some (x25519_public (lib_crypto sample_libs) (replicate 32 7))"
    unfolding k by (simp add: sample_libs_def sample_crypto_def pad_to_def)
  from set_key_ends_sessions [OF sample_libs_laws r this]
  obtain d' w' where "set_key sample_libs d (replicate 32 7) w = Some (d', w')" "set (sessions (tunnel (peer_store w' ! 0))) \<subseteq> {None}"
    using p by auto
  with r p show ?thesis by blast
qed

text \<open>
  C36.  No datagram can be handled before a key is set.  In every state the device reaches, the handler of a listening
  socket panics if there is no key, whatever has arrived, and with a key it has what it needs.  The sockets are opened
  before the first key arrives, so a datagram in between stops the thread that handles it.
\<close>

theorem udp_handler_needs_key:
  assumes "libs_laws L" and "dev_reachable L (d, w)"
  shows "(key_pair d = None \<longrightarrow> udp_handler L ifc udp d inbox w = None) \<and>
    (key_pair d \<noteq> None \<longrightarrow> udp_handler L ifc udp d [] w = Some (Continue, [], d, w))"
  using reachable_keys [OF assms] by (auto simp: udp_handler_def)

theorem udp_handler_needs_key_witness:
  "\<exists>d w. dev_reachable sample_libs (d, w) \<and> udp4 d = Some 3 \<and> udp_handler sample_libs 5 3 d [(SockV4 [1, 2, 3, 4] 99, [4])] w = None"
proof (rule sample_listen)
  fix d w
  assume o: "open_listen_socket sample_libs sample_dev 7 sample_dw = Some (Ok (), d, w)" "udp4 d = Some 3" "key_pair d = None"
  have "dev_reachable sample_libs (d, w)"
    using sample_start do_listen [OF o(1)] unfolding dev_reachable_def by blast
  with udp_handler_needs_key [OF sample_libs_laws this] o show ?thesis by blast
qed

section \<open>The listening port\<close>

text \<open>
  What happens between two environments: the system calls made, each with its result.  \<open>handed w w'\<close> are the descriptors
  the system handed out, or -1 for a call that failed.
\<close>

definition os_le :: "'a os_world_scheme \<Rightarrow> 'a os_world_scheme \<Rightarrow> bool" where
  "os_le w w' \<longleftrightarrow> os w' = os w \<and> (\<exists>xs. trace w' = trace w @ xs \<and> os_pos w' = os_pos w + length xs)"

definition calls :: "'a os_world_scheme \<Rightarrow> 'a os_world_scheme \<Rightarrow> (os_op \<times> int) list" where
  "calls w w' = zip (drop (length (trace w)) (trace w')) (map (os w) [os_pos w..<os_pos w'])"

fun hands_out :: "os_op \<Rightarrow> bool" where
  "hands_out (SocketNew _ _) = True"
| "hands_out (Dup _) = True"
| "hands_out _ = False"

definition handed :: "'a os_world_scheme \<Rightarrow> 'a os_world_scheme \<Rightarrow> int list" where
  "handed w w' = map snd (filter (\<lambda>(x, _). hands_out x) (calls w w'))"

definition descriptors :: "int list \<Rightarrow> bool" where
  "descriptors rs \<longleftrightarrow> (\<forall>r \<in> set rs. r = -1 \<or> 0 \<le> r \<and> r < 2 ^ 31)"

lemma os_le_refl [simp]: "os_le w w"
  by (simp add: os_le_def)

lemma os_le_trans: "os_le a b \<Longrightarrow> os_le b d \<Longrightarrow> os_le a d"
  by (auto simp: os_le_def)

lemma calls_trans:
  assumes "os_le a b" "os_le b d"
  shows "calls a d = calls a b @ calls b d"
proof -
  obtain xs ys where x: "os b = os a" "trace b = trace a @ xs" "os_pos b = os_pos a + length xs"
    and y: "trace d = trace b @ ys" "os_pos d = os_pos b + length ys"
    using assms by (auto simp: os_le_def)
  have "[os_pos a..<os_pos d] = [os_pos a..<os_pos b] @ [os_pos b..<os_pos d]"
    using upt_add_eq_append [of "os_pos a" "os_pos b" "length ys"] x(3) y(2) by simp
  then show ?thesis using x y by (simp add: calls_def)
qed

lemma handed_trans: "os_le a b \<Longrightarrow> os_le b d \<Longrightarrow> handed a d = handed a b @ handed b d"
  using calls_trans [of a b d] by (simp add: handed_def)

lemma os_le_one: "os_le w (snd (os_call x w))"
  by (simp add: os_le_def os_call_def)

lemma calls_one: "calls w (snd (os_call x w)) = [(x, fst (os_call x w))]"
  by (simp add: calls_def os_call_def)

lemma os_le_call: "os_le w w' \<Longrightarrow> os_le w (snd (os_call x w'))"
  using os_le_trans os_le_one by blast

lemma os_le_all: "os_le w w' \<Longrightarrow> os_le w (snd (os_all xs w'))"
proof (induction xs arbitrary: w')
  case (Cons x xs)
  then show ?case using os_le_call [OF Cons.prems, of x] by (auto simp: Let_def split_beta)
qed simp

lemma os_le_put: "os_le w w' \<Longrightarrow> os_le w (put_peer i p w')"
  by (simp add: os_le_def put_peer_def)

lemma os_le_shutdown: "shutdown_endpoint p w = Some (p', w') \<Longrightarrow> os_le w w'"
  by (auto simp: shutdown_endpoint_def drop_conn_def Let_def split_beta intro!: os_le_call
      split: option.splits bind_splits if_splits)

lemma os_le_shutdown_peers: "shutdown_peers ps w = Some w' \<Longrightarrow> os_le w w'"
proof (induction ps arbitrary: w)
  case (Cons x ps)
  obtain k i where x: "x = (k, i)" by force
  obtain p w1 where s: "shutdown_endpoint (peer_store w ! i) w = Some (p, w1)"
    and r: "shutdown_peers ps (put_peer i p w1) = Some w'"
    using Cons.prems by (auto simp: x bind_eq_Some_conv)
  from os_le_trans [OF os_le_put [OF os_le_shutdown [OF s]] Cons.IH [OF r]] show ?case .
qed simp

lemma udp_socket_handed:
  assumes u: "udp_socket family any port w = (r, w')"
  shows "os_le w w'" "r = Ok s \<Longrightarrow> s \<in> set (handed w w')"
proof -
  define v where "v = snd (os_call (SocketNew family ''DGRAM'') w)"
  have "os_le v w'"
    using u by (auto simp: udp_socket_def Let_def split_beta v_def [symmetric] simp del: os_all.simps
        intro!: os_le_call os_le_all split: if_splits)
  moreover have v: "os_le w v" by (simp add: v_def os_le_one)
  ultimately show "os_le w w'" by (rule os_le_trans [rotated])
  assume "r = Ok s"
  then have "s = fst (os_call (SocketNew family ''DGRAM'') w)"
    using u by (auto simp: udp_socket_def Let_def split_beta simp del: os_all.simps split: if_splits)
  then have "s \<in> set (handed w v)" by (simp add: handed_def v_def calls_one)
  then show "s \<in> set (handed w w')" using handed_trans [OF v \<open>os_le v w'\<close>] by simp
qed

lemma fd_index_neq:
  assumes "0 \<le> a" "a < 2 ^ 31" "0 \<le> b" "b < 2 ^ 31" "b \<noteq> (a :: int)"
  shows "fd_index a \<noteq> fd_index b"
  using assms by (simp add: fd_index_def nat_eq_iff)

lemma close_udp_keeps:
  assumes c: "close_udp s d w = Some (d', w')"
  shows "os_le w w' \<and> udp6 d' = udp6 d \<and>
    (s \<noteq> Some fd \<longrightarrow> 0 \<le> fd \<longrightarrow> fd < 2 ^ 31 \<longrightarrow> registered (queue d') fd = registered (queue d) fd)"
proof (cases s)
  case (Some x)
  obtain q w1 where q: "clear_event_by_fd (queue d) x w = Some (q, w1)" "d' = d\<lparr>queue := q\<rparr>" "w' = snd (os_call (Close x) w1)"
    using c Some by (auto simp: close_udp_def bind_eq_Some_conv)
  have "0 \<le> x" "os_le w w1" using q(1) os_le_call [of w w "EpollDel x"]
    by (auto simp: clear_event_by_fd_def bind_eq_Some_conv split: if_splits)
  moreover have "fd_index fd \<noteq> nat x" if "s \<noteq> Some fd" "0 \<le> fd" "fd < 2 ^ 31"
    using that Some \<open>0 \<le> x\<close> by (auto simp: fd_index_def nat_eq_iff)
  ultimately show ?thesis using registered_clear [OF q(1)] q(2,3) by (auto intro: os_le_call)
qed (use c in \<open>auto simp: close_udp_def\<close>)

text \<open>The event of a handler of datagrams, and what registering one on a duplicate does.\<close>

definition udp_event :: "int \<Rightarrow> Handler Event" where
  "udp_event c = \<lparr>ev_flags = EPOLLIN OR EPOLLONESHOT, ev_fd = c, ev_handler = UdpHandler c, ev_notifier = False, ev_needs_read = False\<rparr>"

lemma register_clone_effect:
  assumes r: "register_clone d s w = Some (r, d', w')"
  obtains c where "c \<noteq> -1" "os_le w w'" "(Dup s, c) \<in> set (calls w w')" "c \<in> set (handed w w')"
    "\<And>fd. registered (queue d') fd = (if fd_index fd = fd_index c then Some (udp_event c) else registered (queue d) fd)"
proof -
  define c v where "c = fst (os_call (Dup s) w)" and "v = snd (os_call (Dup s) w)"
  obtain r1 q where e: "register_event (queue d) (udp_event c) v = (r1, q, w')" "queue d' = q"
    using r by (auto simp: register_clone_def register_udp_handler_def new_event_def udp_event_def c_def v_def Let_def split_beta
        prod_eq_iff split: if_splits)
  have v: "os_le w v" "(Dup s, c) \<in> set (calls w v)" "c \<in> set (handed w v)"
    by (simp_all add: v_def c_def os_le_one calls_one handed_def)
  have "w' = snd (snd (register_event (queue d) (udp_event c) v))" by (simp add: e(1))
  then have l: "os_le v w'"
    by (auto simp: register_event_def insert_at_def Let_def split_beta intro!: os_le_call)
  show thesis
  proof (rule that)
    show "c \<noteq> -1" using r by (auto simp: register_clone_def c_def Let_def split_beta split: if_splits)
    show "registered (queue d') fd = (if fd_index fd = fd_index c then Some (udp_event c) else registered (queue d) fd)" for fd
      using registered_register [OF e(1), of fd] e(2) by (simp add: udp_event_def)
  qed (use v l os_le_trans calls_trans [OF v(1) l] handed_trans [OF v(1) l] in auto)
qed

definition dup_events :: "'p Device \<Rightarrow> int list \<Rightarrow> 'p Device \<Rightarrow> bool" where
  "dup_events d cs d' \<longleftrightarrow> (\<forall>fd. registered (queue d') fd =
     (case find (\<lambda>c. fd_index fd = fd_index c) cs of Some c \<Rightarrow> Some (udp_event c) | None \<Rightarrow> registered (queue d) fd))"

lemma register_sockets_cases:
  assumes r: "register_sockets d s4 s6 port w = Some (r, d', w')"
  obtains (failed) e cs where "r = Err e" "os_le w w'" "set cs \<subseteq> set (handed w w') - {-1}" "dup_events d cs d'"
    | (registered) c4 c6 where "os_le w w'" "udp4 d' = Some s4" "udp6 d' = Some s6" "dup_events d [c6, c4] d'"
      "(Dup s4, c4) \<in> set (calls w w')" "(Dup s6, c6) \<in> set (calls w w')" "{c4, c6} \<subseteq> set (handed w w') - {-1}"
      "distinct (handed w w') \<Longrightarrow> c4 \<noteq> c6"
proof -
  obtain r1 d1 w1 where r1: "register_clone d s4 w = Some (r1, d1, w1)"
    using r by (auto simp: register_sockets_def Let_def bind_eq_Some_conv)
  obtain c4 where c4: "c4 \<noteq> -1" "os_le w w1" "(Dup s4, c4) \<in> set (calls w w1)" "c4 \<in> set (handed w w1)"
    "\<And>fd. registered (queue d1) fd = (if fd_index fd = fd_index c4 then Some (udp_event c4) else registered (queue d) fd)"
    by (rule register_clone_effect [OF r1]) (rule that)
  show thesis
  proof (cases r1)
    case (Err e)
    then have d': "queue d' = queue d1" "r = result.Err e" "os_le w1 w'"
      using r r1 by (auto simp: register_sockets_def Let_def intro!: os_le_call)
    show thesis using d' c4 handed_trans [OF c4(2) d'(3)] os_le_trans [OF c4(2) d'(3)]
      by (intro failed [of e "[c4]"]) (auto simp: dup_events_def)
  next
    case (Ok _)
    then obtain r2 d2 w2 where r2: "register_clone d1 s6 w1 = Some (r2, d2, w2)"
      using r r1 by (auto simp: register_sockets_def Let_def bind_eq_Some_conv)
    obtain c6 where c6: "c6 \<noteq> -1" "os_le w1 w2" "(Dup s6, c6) \<in> set (calls w1 w2)" "c6 \<in> set (handed w1 w2)"
      "\<And>fd. registered (queue d2) fd = (if fd_index fd = fd_index c6 then Some (udp_event c6) else registered (queue d1) fd)"
      by (rule register_clone_effect [OF r2]) (rule that)
    have d': "queue d' = queue d2" "os_le w2 w'" "(\<exists>e. r = result.Err e) \<or> udp4 d' = Some s4 \<and> udp6 d' = Some s6"
      using r r1 r2 Ok by (cases r2; auto simp: register_sockets_def Let_def intro!: os_le_call)+
    note l = os_le_trans [OF c6(2) d'(2)]
    have h: "handed w w' = handed w w1 @ handed w1 w2 @ handed w2 w'" and ca: "calls w w' = calls w w1 @ calls w1 w2 @ calls w2 w'"
      using handed_trans [OF c4(2) l] handed_trans [OF c6(2) d'(2)] calls_trans [OF c4(2) l] calls_trans [OF c6(2) d'(2)] by simp_all
    have e: "dup_events d [c6, c4] d'" using c4(5) c6(5) d'(1) by (simp add: dup_events_def)
    have s: "{c4, c6} \<subseteq> set (handed w w') - {-1}" "(Dup s4, c4) \<in> set (calls w w')" "(Dup s6, c6) \<in> set (calls w w')"
      using c4(1,3,4) c6(1,3,4) by (auto simp: h ca)
    have n: "c4 \<noteq> c6" if "distinct (handed w w')" using that c4(4) c6(4) by (auto simp: h)
    from d'(3) show thesis
      using failed [of _ "[c6, c4]", OF _ os_le_trans [OF c4(2) l] _ e] registered [OF os_le_trans [OF c4(2) l] _ _ e s(2,3,1) n] s(1)
      by auto
  qed
qed

lemma register_sockets_le: "register_sockets d s4 s6 port w = Some (r, d', w') \<Longrightarrow> os_le w w'"
  by (elim register_sockets_cases)

lemma register_sockets_keeps:
  assumes r: "register_sockets d s4 s6 port w = Some (r, d', w')"
    and fd: "0 \<le> fd" "fd < 2 ^ 31" "descriptors (handed w w')" "fd \<notin> set (handed w w')"
  shows "registered (queue d') fd = registered (queue d) fd"
proof -
  have keep: "registered (queue d') fd = registered (queue d) fd"
    if "set cs \<subseteq> set (handed w w') - {-1}" "dup_events d cs d'" for cs
  proof -
    have "fd_index fd \<noteq> fd_index c" if "c \<in> set cs" for c
      using that fd \<open>set cs \<subseteq> _\<close> by (intro fd_index_neq) (auto simp: descriptors_def)
    then have "find (\<lambda>c. fd_index fd = fd_index c) cs = None" by (auto simp: find_None_iff)
    with that(2) show ?thesis by (simp add: dup_events_def)
  qed
  from r show ?thesis
  proof (cases rule: register_sockets_cases)
    case (registered c4 c6)
    then show ?thesis using keep [of "[c6, c4]"] by simp
  qed (use keep in blast)
qed

text \<open>The cases of \<^verbatim>\<open>bind_sockets\<close>: it fails with the registry unchanged, or registers two sockets.\<close>

lemma bind_sockets_cases:
  assumes b: "bind_sockets d port w = Some (r, d', w')"
  obtains (failed) e where "r = Err e" "d' = d"
    | (bound) s4 s6 p w1 where "register_sockets d s4 s6 p w1 = Some (r, d', w')" "os_le w w1" "{s4, s6} \<subseteq> set (handed w w1)"
proof -
  obtain r4 w1 where u4: "udp_socket ''IPV4'' (replicate 4 0) port w = (r4, w1)" by force
  note l1 = udp_socket_handed(1) [OF u4]
  show ?thesis
  proof (cases r4)
    case (Ok s4)
    define rp w2 where "rp = fst (if port = 0 then os_call (LocalPort s4) w1 else (uint port, w1))"
      and "w2 = snd (if port = 0 then os_call (LocalPort s4) w1 else (uint port, w1))"
    have l2: "os_le w1 w2" by (simp add: w2_def os_le_one)
    obtain r6 w3 where u6: "udp_socket ''IPV6'' (replicate 16 0) (of_int rp) w2 = (r6, w3)" by force
    note l3 = udp_socket_handed(1) [OF u6]
    have "bind_sockets d port w = (if rp = -1 then Some (Err IoError, d, snd (os_call (Close s4) w2))
      else case r6 of Err e \<Rightarrow> Some (Err e, d, snd (os_call (Close s4) w3))
        | Ok s6 \<Rightarrow> register_sockets d s4 s6 (of_int rp) w3)"
      using u6 unfolding bind_sockets_def u4 Ok
      by (cases r6) (simp_all add: Let_def split_beta rp_def [symmetric] w2_def [symmetric])
    moreover have "handed w w3 = handed w w1 @ handed w1 w2 @ handed w2 w3"
      using handed_trans [OF l1 os_le_trans [OF l2 l3]] handed_trans [OF l2 l3] by simp
    ultimately show ?thesis
      using b os_le_trans [OF l1 os_le_trans [OF l2 l3]] udp_socket_handed(2) [OF u4 Ok] udp_socket_handed(2) [OF u6]
      by (auto split: if_splits result.splits intro: failed bound)
  qed (use b u4 failed in \<open>auto simp: bind_sockets_def\<close>)
qed

text \<open>\<^verbatim>\<open>open_listen_socket\<close> up to binding the new sockets.\<close>

lemma open_listen_cases:
  assumes o: "open_listen_socket L d port w = Some (r, d', w')"
  obtains d1 w1 where "os_le w w1" "bind_sockets d1 port w1 = Some (r, d', w')"
    "\<And>fd. udp4 d \<noteq> Some fd \<Longrightarrow> udp6 d \<noteq> Some fd \<Longrightarrow> 0 \<le> fd \<Longrightarrow> fd < 2 ^ 31 \<Longrightarrow>
       registered (queue d1) fd = registered (queue d) fd"
proof -
  obtain d1 w1 d2 w2 w3 where c: "close_udp (udp4 d) d w = Some (d1, w1)"
      "close_udp (udp6 d1) (d1\<lparr>udp4 := None\<rparr>) w1 = Some (d2, w2)"
    and sh: "shutdown_peers (hash_order L (peers d2)) w2 = Some w3"
    and b: "bind_sockets (d2\<lparr>udp6 := None\<rparr>) port w3 = Some (r, d', w')"
    using o by (auto simp: open_listen_socket_def Let_def bind_eq_Some_conv)
  have "os_le w w3"
    using close_udp_keeps [OF c(1)] close_udp_keeps [OF c(2)] os_le_shutdown_peers [OF sh] os_le_trans by blast
  moreover have "registered (queue d2) fd = registered (queue d) fd"
    if "udp4 d \<noteq> Some fd" "udp6 d \<noteq> Some fd" "0 \<le> fd" "fd < 2 ^ 31" for fd
    using close_udp_keeps [OF c(1), of fd] close_udp_keeps [OF c(2), of fd] that by simp
  ultimately show thesis using that b by simp
qed

lemma open_listen_keeps:
  assumes o: "open_listen_socket L d port w = Some (r, d', w')"
    and s: "udp4 d \<noteq> Some fd" "udp6 d \<noteq> Some fd" "0 \<le> fd" "fd < 2 ^ 31" "descriptors (handed w w')" "fd \<notin> set (handed w w')"
  shows "registered (queue d') fd = registered (queue d) fd"
proof (rule open_listen_cases [OF o])
  fix d1 w1
  assume l: "os_le w w1" and b: "bind_sockets d1 port w1 = Some (r, d', w')"
    and "\<And>fd. udp4 d \<noteq> Some fd \<Longrightarrow> udp6 d \<noteq> Some fd \<Longrightarrow> 0 \<le> fd \<Longrightarrow> fd < 2 ^ 31 \<Longrightarrow>
       registered (queue d1) fd = registered (queue d) fd"
  then have e: "registered (queue d1) fd = registered (queue d) fd" using s by simp
  from b show ?thesis
  proof (cases rule: bind_sockets_cases)
    case (bound s4 s6 p w2)
    note l2 = os_le_trans [OF l bound(2)]
    have "handed w w' = handed w w2 @ handed w2 w'" by (rule handed_trans [OF l2 register_sockets_le [OF bound(1)]])
    then show ?thesis
      using register_sockets_keeps [OF bound(1) s(3,4)] s(5,6) e by (auto simp: descriptors_def)
  qed (use e in simp)
qed

definition listens :: "'p Device \<Rightarrow> int \<Rightarrow> bool" where
  "listens d c \<longleftrightarrow> registered (queue d) c = Some (udp_event c)"

text \<open>
  C37.  Changing the port leaves the old listeners in place.  \<^verbatim>\<open>open_listen_socket\<close> registers its handlers on duplicates of the
  two sockets it keeps in \<^verbatim>\<open>udp4\<close> and \<^verbatim>\<open>udp6\<close>, and when it is called again it removes the handlers of the latter.  So when the
  device listens and is told to listen on another port, the handlers of both duplicates of the old sockets, which still
  receive on the old port, are registered as before.  The system is assumed not to hand out a descriptor that is open.
\<close>

theorem old_listener_stays:
  assumes o1: "open_listen_socket L d port w = Some (Ok (), d1, w1)"
    and o2: "open_listen_socket L d1 port' w1 = Some (r, d2, w2)"
    and fds: "descriptors (handed w w1)" "descriptors (handed w1 w2)" and new: "distinct (handed w w1)"
    and opn: "\<forall>s c. (Dup s, c) \<in> set (calls w w1) \<longrightarrow> c \<notin> set (handed w1 w2)"
  shows "\<exists>s4 s6 c4 c6. udp4 d1 = Some s4 \<and> udp6 d1 = Some s6 \<and>
    (Dup s4, c4) \<in> set (calls w w1) \<and> (Dup s6, c6) \<in> set (calls w w1) \<and> (\<forall>c \<in> {c4, c6}. listens d1 c \<and> listens d2 c)"
proof (rule open_listen_cases [OF o1])
  fix e v assume l: "os_le w v" and b: "bind_sockets e port v = Some (Ok (), d1, w1)"
  from b obtain s4 s6 p u where bound: "register_sockets e s4 s6 p u = Some (Ok (), d1, w1)" "os_le v u" "{s4, s6} \<subseteq> set (handed v u)"
    by (cases rule: bind_sockets_cases) auto
  note lu = os_le_trans [OF l bound(2)] and lr = register_sockets_le [OF bound(1)]
  have h: "handed w w1 = handed w v @ handed v u @ handed u w1" and ca: "calls w w1 = calls w u @ calls u w1"
    using handed_trans [OF lu lr] handed_trans [OF l bound(2)] calls_trans [OF lu lr] by simp_all
  obtain c4 c6 where c: "udp4 d1 = Some s4" "udp6 d1 = Some s6" "dup_events e [c6, c4] d1"
    "(Dup s4, c4) \<in> set (calls u w1)" "(Dup s6, c6) \<in> set (calls u w1)" "{c4, c6} \<subseteq> set (handed u w1) - {-1}" "c4 \<noteq> c6"
    using bound(1) new h by (cases rule: register_sockets_cases) auto
  have r: "0 \<le> k" "k < 2 ^ 31" "k \<notin> {s4, s6}" "k \<notin> set (handed w1 w2)" if "k \<in> {c4, c6}" for k
  proof -
    have "k \<in> set (handed u w1)" "k \<noteq> -1" using c(6) that by auto
    then show "0 \<le> k" "k < 2 ^ 31" "k \<notin> {s4, s6}" using fds(1) new bound(3) unfolding h by (auto simp: descriptors_def)
    show "k \<notin> set (handed w1 w2)" using opn c(4,5) that ca by auto
  qed
  have "fd_index c4 \<noteq> fd_index c6" using r [of c4] r [of c6] c(7) by (intro fd_index_neq) auto
  then have "listens d1 k" if "k \<in> {c4, c6}" for k using that c(3) by (auto simp: listens_def dup_events_def)
  moreover have "listens d2 k" if "k \<in> {c4, c6}" "listens d1 k" for k
    using open_listen_keeps [OF o2 _ _ r(1,2) [OF that(1)] fds(2) r(4) [OF that(1)]] c(1,2) r(3) [OF that(1)] that(2)
    by (auto simp: listens_def)
  ultimately show ?thesis using c(1,2,4,5) ca by (metis Un_iff set_append)
qed

definition sample_fds :: "(net, unit) alist dev_world" where
  "sample_fds = sample_dw\<lparr>os := (\<lambda>k. if k < 60 then int k else 0)\<rparr>"

lemmas listen_defs = open_listen_socket_def sample_libs_def close_udp_def clear_event_by_fd_def slot_def bind_sockets_def
  udp_socket_def os_call_def register_sockets_def register_clone_def register_udp_handler_def new_event_def register_event_def
  insert_at_def fd_index_def Let_def

lemma sample_reopen:
  obtains d1 w1 d2 w2 where "open_listen_socket sample_libs sample_dev 7 sample_fds = Some (Ok (), d1, w1)"
    "open_listen_socket sample_libs d1 8 w1 = Some (Ok (), d2, w2)" "listen_port d2 = 8" "udp4 d1 = Some 3" "udp6 d1 = Some 7"
    "handed sample_fds w1 = [3, 7, 11, 13]" "handed w1 w2 = [17, 21, 25, 27]"
    "filter (\<lambda>(x, _). case x of Dup _ \<Rightarrow> True | _ \<Rightarrow> False) (calls sample_fds w1) = [(Dup 3, 11), (Dup 7, 13)]"
proof -
  have "\<exists>d1 w1. open_listen_socket sample_libs sample_dev 7 sample_fds = Some (Ok (), d1, w1) \<and>
    udp4 d1 = Some 3 \<and> udp6 d1 = Some 7 \<and> peers d1 = [] \<and> os w1 = os sample_fds \<and> os_pos w1 = 15 \<and>
    length (events (queue d1)) = 14 \<and> events (queue d1) ! 3 = None \<and> events (queue d1) ! 7 = None \<and>
    trace w1 = trace sample_fds @ [SocketNew ''IPV4'' ''DGRAM'', SetReuseAddress 3, Bind 3 (replicate 4 0) 7, SetNonblocking 3,
      SocketNew ''IPV6'' ''DGRAM'', SetReuseAddress 7, Bind 7 (replicate 16 0) 7, SetNonblocking 7,
      Dup 3, EpollAdd 11 (EPOLLIN OR EPOLLONESHOT), Dup 7, EpollAdd 13 (EPOLLIN OR EPOLLONESHOT)]"
    by (simp add: listen_defs sample_dev_def Device_init_def sample_fds_def sample_dw_def nth_append)
  then obtain d1 w1 where o: "open_listen_socket sample_libs sample_dev 7 sample_fds = Some (Ok (), d1, w1)"
    and f: "udp4 d1 = Some 3" "udp6 d1 = Some 7" "peers d1 = []" "os w1 = os sample_fds" "os_pos w1 = 15"
      "length (events (queue d1)) = 14" "events (queue d1) ! 3 = None" "events (queue d1) ! 7 = None"
    and tr: "trace w1 = trace sample_fds @ [SocketNew ''IPV4'' ''DGRAM'', SetReuseAddress 3, Bind 3 (replicate 4 0) 7, SetNonblocking 3,
      SocketNew ''IPV6'' ''DGRAM'', SetReuseAddress 7, Bind 7 (replicate 16 0) 7, SetNonblocking 7,
      Dup 3, EpollAdd 11 (EPOLLIN OR EPOLLONESHOT), Dup 7, EpollAdd 13 (EPOLLIN OR EPOLLONESHOT)]" by blast
  have "\<exists>d2 w2. open_listen_socket sample_libs d1 8 w1 = Some (Ok (), d2, w2) \<and> listen_port d2 = 8 \<and> os_pos w2 = 29 \<and>
    trace w2 = trace w1 @ [Close 3, Close 7, SocketNew ''IPV4'' ''DGRAM'', SetReuseAddress 17, Bind 17 (replicate 4 0) 8, SetNonblocking 17,
      SocketNew ''IPV6'' ''DGRAM'', SetReuseAddress 21, Bind 21 (replicate 16 0) 8, SetNonblocking 21,
      Dup 17, EpollAdd 25 (EPOLLIN OR EPOLLONESHOT), Dup 21, EpollAdd 27 (EPOLLIN OR EPOLLONESHOT)]"
    using f by (simp add: listen_defs sample_fds_def nth_append)
  then obtain d2 w2 where o2: "open_listen_socket sample_libs d1 8 w1 = Some (Ok (), d2, w2)" "listen_port d2 = 8"
    "handed w1 w2 = [17, 21, 25, 27]"
    using f(4,5) by (auto simp: handed_def calls_def sample_fds_def)
  have "calls sample_fds w1 = zip (drop (length (trace sample_fds)) (trace w1)) (map int [3..<15])"
    using f by (simp add: calls_def sample_fds_def sample_dw_def)
  then show thesis
    using that [OF o o2(1,2) f(1,2) _ o2(3)] tr by (simp add: handed_def)
qed

theorem old_listener_stays_witness:
  "\<exists>d1 w1 d2 w2. open_listen_socket sample_libs sample_dev 7 sample_fds = Some (Ok (), d1, w1) \<and>
     open_listen_socket sample_libs d1 8 w1 = Some (Ok (), d2, w2) \<and> listen_port d2 = 8 \<and> listens d2 11 \<and> listens d2 13"
proof (rule sample_reopen)
  fix d1 w1 d2 w2
  assume o: "open_listen_socket sample_libs sample_dev 7 sample_fds = Some (Ok (), d1, w1)"
    "open_listen_socket sample_libs d1 8 w1 = Some (Ok (), d2, w2)" "listen_port d2 = 8" "udp4 d1 = Some 3" "udp6 d1 = Some 7"
    and h: "handed sample_fds w1 = [3, 7, 11, 13]" "handed w1 w2 = [17, 21, 25, 27]"
    and c: "filter (\<lambda>(x, _). case x of Dup _ \<Rightarrow> True | _ \<Rightarrow> False) (calls sample_fds w1) = [(Dup 3, 11), (Dup 7, 13)]"
  have d: "(Dup s, x) \<in> set (calls sample_fds w1) \<Longrightarrow> (Dup s, x) \<in> {(Dup 3, 11), (Dup 7, 13)}" for s x
    using arg_cong [OF c, of "\<lambda>l. (Dup s, x) \<in> set l"] by simp
  have "listens d2 11 \<and> listens d2 13"
    using old_listener_stays [OF o(1,2)] h d o(4,5) by (fastforce simp: descriptors_def)
  with o show ?thesis by blast
qed

end
