(* ===== verification/DevLock.thy ===== *)
theory DevLock
  imports Prelude
begin

text \<open>
  The read/write lock around the device (\<^verbatim>\<open>device/dev_lock.rs\<close>), as threads that take atomic steps.

  \<^item> The mutex, the condition variable and the inner lock come from \<open>parking_lot\<close> and are modelled by their
    documented behaviour: the mutex has one holder; the inner lock has readers or one writer, and a reader waits
    while a writer holds the lock or waits for it; waiting on the condition variable releases the mutex, and a thread
    that is woken takes the mutex again.
  \<^item> A value of \<open>lpc\<close> is the point a thread has reached in \<^verbatim>\<open>read\<close> or \<^verbatim>\<open>try_writeable\<close>.  \<open>UpgWrite\<close> and \<open>Writing\<close>
    remember the value that the thread's \<^verbatim>\<open>prep_func\<close> was given.
  \<^item> A step of a thread that cannot move is \<open>None\<close>.
\<close>

section \<open>State\<close>

datatype 'a lpc =
    Idle
  | ReadLock
  | ReadCheck
  | ReadWait
  | ReadAcquire
  | Guard
  | UpgLock
  | UpgHeld
  | UpgCheck
  | UpgWait
  | UpgRelock
  | UpgMarked
  | UpgPrep
  | UpgWrite 'a
  | Writing 'a
  | UpgReread
  | UpgSignal
  | UpgClear

record 'a Lock =
  wants_write :: bool
  mutex_held :: bool
  inner_readers :: nat
  inner_writing :: bool
  inner_pending :: nat
  user_data :: 'a
  pcs :: "'a lpc list"

definition Lock_new :: "nat \<Rightarrow> 'a \<Rightarrow> 'a Lock" where
  "Lock_new n x = \<lparr>wants_write = False, mutex_held = False, inner_readers = 0, inner_writing = False, inner_pending = 0,
     user_data = x, pcs = replicate n Idle\<rparr>"

definition goto :: "nat \<Rightarrow> 'a lpc \<Rightarrow> 'a Lock \<Rightarrow> 'a Lock" where
  "goto i p s = s\<lparr>pcs := (pcs s)[i := p]\<rparr>"

text \<open>Whether the inner lock admits a reader now.\<close>

definition can_read :: "'a Lock \<Rightarrow> bool" where
  "can_read s \<longleftrightarrow> \<not> inner_writing s \<and> inner_pending s = 0"

fun woken :: "'a lpc \<Rightarrow> 'a lpc" where
  "woken ReadWait = ReadLock"
| "woken UpgWait = UpgRelock"
| "woken p = p"

definition notify_all :: "'a Lock \<Rightarrow> 'a Lock" where
  "notify_all s = s\<lparr>pcs := map woken (pcs s)\<rparr>"

section \<open>Steps\<close>

text \<open>\<^verbatim>\<open>Lock::read\<close>: check under the mutex that nobody wants to write, wait if somebody does, then read.\<close>

fun read_next :: "nat \<Rightarrow> 'a lpc \<Rightarrow> 'a Lock \<Rightarrow> 'a Lock option" where
  "read_next i ReadLock s = (if mutex_held s then None else Some (goto i ReadCheck (s\<lparr>mutex_held := True\<rparr>)))"
| "read_next i ReadCheck s =
     (if wants_write s then Some (goto i ReadWait (s\<lparr>mutex_held := False\<rparr>)) else Some (goto i ReadAcquire s))"
| "read_next i ReadAcquire s =
     (if can_read s
      then Some (goto i Guard (s\<lparr>mutex_held := False, inner_readers := inner_readers s + 1\<rparr>)) else None)"
| "read_next i _ s = None"

text \<open>
  \<^verbatim>\<open>try_writeable\<close>: mark the intention under the mutex with the read lock given up, take the read lock again and run
  \<^verbatim>\<open>prep_func\<close>, give it up and write, take it once more, and clear the mark.
\<close>

fun try_writeable_next :: "('a \<Rightarrow> 'a) \<Rightarrow> nat \<Rightarrow> 'a lpc \<Rightarrow> 'a Lock \<Rightarrow> 'a Lock option" where
  "try_writeable_next f i UpgLock s = (if mutex_held s then None else Some (goto i UpgHeld (s\<lparr>mutex_held := True\<rparr>)))"
| "try_writeable_next f i UpgHeld s = Some (goto i UpgCheck (s\<lparr>inner_readers := inner_readers s - 1\<rparr>))"
| "try_writeable_next f i UpgCheck s =
     (if wants_write s then Some (goto i UpgWait (s\<lparr>mutex_held := False\<rparr>))
      else Some (goto i UpgMarked (s\<lparr>wants_write := True, mutex_held := False\<rparr>)))"
| "try_writeable_next f i UpgRelock s = (if mutex_held s then None else Some (goto i UpgCheck (s\<lparr>mutex_held := True\<rparr>)))"
| "try_writeable_next f i UpgMarked s =
     (if can_read s then Some (goto i UpgPrep (s\<lparr>inner_readers := inner_readers s + 1\<rparr>)) else None)"
| "try_writeable_next f i UpgPrep s =
     Some (goto i (UpgWrite (user_data s))
       (s\<lparr>inner_readers := inner_readers s - 1, inner_pending := inner_pending s + 1\<rparr>))"
| "try_writeable_next f i (UpgWrite v) s =
     (if inner_readers s = 0 \<and> \<not> inner_writing s
      then Some (goto i (Writing v) (s\<lparr>inner_writing := True, inner_pending := inner_pending s - 1\<rparr>)) else None)"
| "try_writeable_next f i (Writing v) s =
     Some (goto i UpgReread (s\<lparr>inner_writing := False, user_data := f (user_data s)\<rparr>))"
| "try_writeable_next f i UpgReread s =
     (if can_read s then Some (goto i UpgSignal (s\<lparr>inner_readers := inner_readers s + 1\<rparr>)) else None)"
| "try_writeable_next f i UpgSignal s = (if mutex_held s then None else Some (goto i UpgClear (s\<lparr>mutex_held := True\<rparr>)))"
| "try_writeable_next f i UpgClear s =
     Some (goto i Guard (notify_all (s\<lparr>wants_write := False, mutex_held := False\<rparr>)))"
| "try_writeable_next f i _ s = None"

definition lock_next :: "('a \<Rightarrow> 'a) \<Rightarrow> nat \<Rightarrow> 'a Lock \<Rightarrow> 'a Lock option" where
  "lock_next f i s =
     (let p = pcs s ! i
      in if p \<in> {ReadLock, ReadCheck, ReadAcquire} then read_next i p s else try_writeable_next f i p s)"

text \<open>Any interleaving: threads call \<^verbatim>\<open>read\<close>, drop their guards, call \<^verbatim>\<open>try_writeable\<close> with any function, and take steps.\<close>

inductive lock_step :: "'a Lock \<Rightarrow> 'a Lock \<Rightarrow> bool" where
  call_read: "i < length (pcs s) \<Longrightarrow> pcs s ! i = Idle \<Longrightarrow> lock_step s (goto i ReadLock s)"
| drop_guard: "i < length (pcs s) \<Longrightarrow> pcs s ! i = Guard \<Longrightarrow>
    lock_step s (goto i Idle (s\<lparr>inner_readers := inner_readers s - 1\<rparr>))"
| call_write: "i < length (pcs s) \<Longrightarrow> pcs s ! i = Guard \<Longrightarrow> lock_step s (goto i UpgLock s)"
| run: "i < length (pcs s) \<Longrightarrow> lock_next f i s = Some s' \<Longrightarrow> lock_step s s'"

inductive_cases lock_stepE: "lock_step s s'"

section \<open>Invariant\<close>

definition count :: "('a \<Rightarrow> bool) \<Rightarrow> 'a list \<Rightarrow> nat" where
  "count P xs = length (filter P xs)"

lemma count_update:
  "i < length xs \<Longrightarrow> count P (xs[i := y]) + (if P (xs ! i) then 1 else 0) = count P xs + (if P y then 1 else 0)"
proof (induction xs arbitrary: i)
  case (Cons x xs)
  then show ?case by (cases i) (auto simp: count_def)
qed simp

lemma count_pos: "0 < count P xs \<longleftrightarrow> (\<exists>x \<in> set xs. P x)"
  by (auto simp: count_def filter_empty_conv)

lemma count_map: "(\<And>x. P (g x) = P x) \<Longrightarrow> count P (map g xs) = count P xs"
  by (simp add: count_def filter_map comp_def)

fun has_mutex :: "'a lpc \<Rightarrow> bool" where
  "has_mutex p \<longleftrightarrow> p \<in> {ReadCheck, ReadAcquire, UpgHeld, UpgCheck, UpgClear}"

fun has_read :: "'a lpc \<Rightarrow> bool" where
  "has_read p \<longleftrightarrow> p \<in> {Guard, UpgLock, UpgHeld, UpgPrep, UpgSignal, UpgClear}"

fun is_writing :: "'a lpc \<Rightarrow> bool" where
  "is_writing (Writing _) = True"
| "is_writing _ = False"

fun is_pending :: "'a lpc \<Rightarrow> bool" where
  "is_pending (UpgWrite _) = True"
| "is_pending _ = False"

text \<open>Between marking the intention to write and clearing the mark.\<close>

fun is_owner :: "'a lpc \<Rightarrow> bool" where
  "is_owner p \<longleftrightarrow> p \<in> {UpgMarked, UpgPrep, UpgReread, UpgSignal, UpgClear} \<or> is_pending p \<or> is_writing p"

definition lock_inv :: "'a Lock \<Rightarrow> bool" where
  "lock_inv s \<longleftrightarrow>
     count has_mutex (pcs s) = of_bool (mutex_held s) \<and>
     count has_read (pcs s) = inner_readers s \<and>
     count is_writing (pcs s) = of_bool (inner_writing s) \<and>
     count is_pending (pcs s) = inner_pending s \<and>
     count is_owner (pcs s) = of_bool (wants_write s) \<and>
     (ReadAcquire \<in> set (pcs s) \<longrightarrow> \<not> wants_write s) \<and>
     (ReadWait \<in> set (pcs s) \<or> UpgWait \<in> set (pcs s) \<longrightarrow> wants_write s) \<and>
     (inner_writing s \<longrightarrow> inner_readers s = 0) \<and>
     (\<forall>v. UpgWrite v \<in> set (pcs s) \<or> Writing v \<in> set (pcs s) \<longrightarrow> user_data s = v)"

lemma lock_inv_new: "lock_inv (Lock_new n x)"
  by (auto simp: lock_inv_def Lock_new_def count_def)

lemma count_single:
  assumes "count P xs \<le> 1" "i < length xs" "P (xs ! i)" "x \<in> set (xs[i := y])" "P x"
  shows "x = y"
proof -
  let ?A = "{j. j < length xs \<and> P (xs ! j)}"
  have "card ?A \<le> Suc 0" "finite ?A" using assms(1) by (simp_all add: count_def length_filter_conv_card)
  then have eq: "j = k" if "j \<in> ?A" "k \<in> ?A" for j k using that by (simp add: card_le_Suc0_iff_eq)
  obtain j where j: "j < length xs" "xs[i := y] ! j = x" using assms(4) by (auto simp: in_set_conv_nth)
  show ?thesis
  proof (cases "j = i")
    case False
    then have "j \<in> ?A" "i \<in> ?A" using j assms by auto
    then show ?thesis using eq False by blast
  qed (use j in auto)
qed

lemma lock_invD:
  assumes "lock_inv s"
  shows "count has_mutex (pcs s) = of_bool (mutex_held s)" "count has_read (pcs s) = inner_readers s"
    "count is_writing (pcs s) = of_bool (inner_writing s)" "count is_pending (pcs s) = inner_pending s"
    "count is_owner (pcs s) = of_bool (wants_write s)" "ReadAcquire \<in> set (pcs s) \<Longrightarrow> \<not> wants_write s"
    "ReadWait \<in> set (pcs s) \<or> UpgWait \<in> set (pcs s) \<Longrightarrow> wants_write s" "inner_writing s \<Longrightarrow> inner_readers s = 0"
    "UpgWrite v \<in> set (pcs s) \<or> Writing v \<in> set (pcs s) \<Longrightarrow> user_data s = v"
  using assms unfolding lock_inv_def by blast+

text \<open>What one thread's move must satisfy for the invariant to be kept; the counters follow the thread.\<close>

lemma move_inv:
  assumes inv: "lock_inv s" and i: "i < length (pcs s)" and p: "pcs s ! i = p"
    and e: "pcs s' = (map g (pcs s))[i := q]" and g: "g = id \<or> g = woken"
    and m: "of_bool (mutex_held s') + of_bool (has_mutex p) = of_bool (mutex_held s) + (of_bool (has_mutex q) :: nat)"
    and r: "inner_readers s' + of_bool (has_read p) = inner_readers s + of_bool (has_read q)"
    and wr: "of_bool (inner_writing s') + of_bool (is_writing p) = of_bool (inner_writing s) + (of_bool (is_writing q) :: nat)"
    and pe: "inner_pending s' + of_bool (is_pending p) = inner_pending s + of_bool (is_pending q)"
    and ow: "of_bool (wants_write s') + of_bool (is_owner p) = of_bool (wants_write s) + (of_bool (is_owner q) :: nat)"
    and a: "ReadAcquire \<in> set (pcs s') \<Longrightarrow> \<not> wants_write s'"
    and wt: "ReadWait \<in> set (pcs s') \<or> UpgWait \<in> set (pcs s') \<Longrightarrow> wants_write s'"
    and x: "inner_writing s' \<Longrightarrow> inner_readers s' = 0"
    and v: "\<And>v. UpgWrite v \<in> set (pcs s') \<or> Writing v \<in> set (pcs s') \<Longrightarrow> user_data s' = v"
  shows "lock_inv s'"
proof -
  note preds = has_mutex.simps has_read.simps is_owner.simps
  have w: "has_mutex (g y) = has_mutex y" "has_read (g y) = has_read y" "is_writing (g y) = is_writing y"
    "is_pending (g y) = is_pending y" "is_owner (g y) = is_owner y" for y
    using g by (cases y; auto)+
  have c: "count P (pcs s') + of_bool (P p) = count P (pcs s) + of_bool (P q)" if "\<And>y. P (g y) = P y" for P
    using count_update [of i "map g (pcs s)" P q] i that by (simp add: e p count_map of_bool_def)
  show ?thesis
    unfolding lock_inv_def
    using c [of has_mutex, OF w(1)] c [of has_read, OF w(2)] c [of is_writing, OF w(3)] c [of is_pending, OF w(4)]
      c [of is_owner, OF w(5)] lock_invD(1-5) [OF inv] m r wr pe ow a wt x v
    by (auto simp del: preds)
qed

lemma set_upd: "x \<in> set (xs[i := y]) \<Longrightarrow> x = y \<or> x \<in> set xs"
  using set_update_subset_insert [of xs i y] by auto

lemma thread_facts:
  assumes inv: "lock_inv s" and i: "i < length (pcs s)"
  shows "has_mutex (pcs s ! i) \<Longrightarrow> mutex_held s" "has_read (pcs s ! i) \<Longrightarrow> 0 < inner_readers s"
    "is_writing (pcs s ! i) \<Longrightarrow> inner_writing s" "is_pending (pcs s ! i) \<Longrightarrow> 0 < inner_pending s"
    "is_owner (pcs s ! i) \<Longrightarrow> wants_write s"
proof -
  have "0 < count P (pcs s)" if "P (pcs s ! i)" for P using that i count_pos [of P "pcs s"] nth_mem by blast
  from this [of has_mutex] this [of has_read] this [of is_writing] this [of is_pending] this [of is_owner]
  show "has_mutex (pcs s ! i) \<Longrightarrow> mutex_held s" "has_read (pcs s ! i) \<Longrightarrow> 0 < inner_readers s"
    "is_writing (pcs s ! i) \<Longrightarrow> inner_writing s" "is_pending (pcs s ! i) \<Longrightarrow> 0 < inner_pending s"
    "is_owner (pcs s ! i) \<Longrightarrow> wants_write s"
    using lock_invD(1-5) [OF inv] by (auto simp del: has_mutex.simps has_read.simps is_owner.simps)
qed

text \<open>A move that leaves the mark and the data alone.\<close>

lemma quiet_move:
  assumes inv: "lock_inv s" and i: "i < length (pcs s)" and p: "pcs s ! i = p"
    and s': "pcs s' = (pcs s)[i := q]" "wants_write s' = wants_write s" "user_data s' = user_data s"
    and c: "of_bool (mutex_held s') + of_bool (has_mutex p) = of_bool (mutex_held s) + (of_bool (has_mutex q) :: nat)"
      "inner_readers s' + of_bool (has_read p) = inner_readers s + of_bool (has_read q)"
      "of_bool (inner_writing s') + of_bool (is_writing p) = of_bool (inner_writing s) + (of_bool (is_writing q) :: nat)"
      "inner_pending s' + of_bool (is_pending p) = inner_pending s + of_bool (is_pending q)" "is_owner p \<longleftrightarrow> is_owner q"
    and q: "q = ReadAcquire \<Longrightarrow> \<not> wants_write s" "q = ReadWait \<or> q = UpgWait \<Longrightarrow> wants_write s"
      "inner_writing s' \<Longrightarrow> inner_readers s' = 0" "\<And>v. q = UpgWrite v \<or> q = Writing v \<Longrightarrow> user_data s = v"
  shows "lock_inv s'"
proof (rule move_inv [OF inv i p, where g = id and q = q])
  fix v assume "UpgWrite v \<in> set (pcs s') \<or> Writing v \<in> set (pcs s')"
  then show "user_data s' = v" using q(4) [of v] lock_invD(9) [OF inv, of v] by (auto simp: s' dest!: set_upd)
next
  show "ReadAcquire \<in> set (pcs s') \<Longrightarrow> \<not> wants_write s'"
    using q(1) lock_invD(6) [OF inv] by (auto simp: s' dest!: set_upd)
  show "ReadWait \<in> set (pcs s') \<or> UpgWait \<in> set (pcs s') \<Longrightarrow> wants_write s'"
    using q(2) lock_invD(7) [OF inv] by (auto simp: s' dest!: set_upd)
qed (simp_all add: s' c q(3) del: has_mutex.simps has_read.simps is_owner.simps)

text \<open>Where a thread goes that only takes or gives up a lock.\<close>

fun quiet_succ :: "'a lpc \<Rightarrow> 'a lpc" where
  "quiet_succ ReadLock = ReadCheck"
| "quiet_succ ReadAcquire = Guard"
| "quiet_succ UpgLock = UpgHeld"
| "quiet_succ UpgHeld = UpgCheck"
| "quiet_succ UpgRelock = UpgCheck"
| "quiet_succ UpgMarked = UpgPrep"
| "quiet_succ (UpgWrite v) = Writing v"
| "quiet_succ UpgReread = UpgSignal"
| "quiet_succ UpgSignal = UpgClear"
| "quiet_succ p = p"

lemma quiet_next_inv:
  assumes inv: "lock_inv s" and i: "i < length (pcs s)" and n: "lock_next f i s = Some s'"
    and q: "quiet_succ (pcs s ! i) \<noteq> pcs s ! i"
  shows "lock_inv s'"
  by (rule quiet_move [OF inv i refl, where q = "quiet_succ (pcs s ! i)"]; cases "pcs s ! i")
    (use n q thread_facts [OF inv i] lock_invD(8) [OF inv] lock_invD(9) [OF inv] nth_mem [OF i] in
      \<open>auto simp: lock_next_def goto_def can_read_def split: if_splits\<close>)

text \<open>The move that marks the intention to write: no reader is between the check and the inner lock.\<close>

lemma mark_inv:
  assumes inv: "lock_inv s" and i: "i < length (pcs s)" and p: "pcs s ! i = UpgCheck" and w: "\<not> wants_write s"
    and s': "s' = goto i UpgMarked (s\<lparr>wants_write := True, mutex_held := False\<rparr>)"
  shows "lock_inv s'"
proof -
  have "count has_mutex (pcs s) \<le> 1" by (simp add: lock_invD(1) [OF inv])
  then have "ReadAcquire \<notin> set (pcs s')"
    using count_single [of has_mutex "pcs s" i ReadAcquire UpgMarked] i p by (auto simp: s' goto_def)
  then show ?thesis
    by (intro move_inv [OF inv i p, where g = id and q = UpgMarked])
      (use s' thread_facts [OF inv i] w p lock_invD(8,9) [OF inv] in \<open>auto simp: goto_def dest!: set_upd\<close>)
qed

text \<open>The move that writes: the writer is the only owner, so nobody else remembers the old value.\<close>

lemma write_inv:
  assumes inv: "lock_inv s" and i: "i < length (pcs s)" and p: "pcs s ! i = Writing v"
    and s': "s' = goto i UpgReread (s\<lparr>inner_writing := False, user_data := y\<rparr>)"
  shows "lock_inv s'"
proof -
  have "count is_owner (pcs s) \<le> 1" "is_owner (pcs s ! i)" using lock_invD(5) [OF inv] p by (simp_all add: of_bool_def)
  note only = count_single [OF this(1) i this(2), of _ UpgReread]
  have "UpgWrite u \<notin> set (pcs s')" "Writing u \<notin> set (pcs s')" for u
    using only [of "UpgWrite u"] only [of "Writing u"] by (auto simp: s' goto_def)
  then show ?thesis
    by (intro move_inv [OF inv i p, where g = id and q = UpgReread])
      (use s' thread_facts [OF inv i] p lock_invD(6,7) [OF inv] in \<open>auto simp: goto_def dest!: set_upd\<close>)
qed

text \<open>The move that clears the mark: every waiting thread is woken.\<close>

lemma clear_inv:
  assumes inv: "lock_inv s" and i: "i < length (pcs s)" and p: "pcs s ! i = UpgClear"
    and s': "s' = goto i Guard (notify_all (s\<lparr>wants_write := False, mutex_held := False\<rparr>))"
  shows "lock_inv s'"
proof -
  have "woken x \<noteq> ReadWait" "woken x \<noteq> UpgWait" for x :: "'a lpc" by (cases x; simp)+
  then have "ReadWait \<notin> set (pcs s') \<and> UpgWait \<notin> set (pcs s')"
    by (auto simp: s' goto_def notify_all_def dest!: set_upd) metis+
  moreover have "UpgWrite v = woken x \<longleftrightarrow> x = UpgWrite v" "Writing v = woken x \<longleftrightarrow> x = Writing v" for v and x :: "'a lpc"
    by (cases x; auto)+
  ultimately show ?thesis
    by (intro move_inv [OF inv i p, where g = woken and q = Guard])
      (use s' thread_facts [OF inv i] p lock_invD(8,9) [OF inv] in \<open>auto simp: goto_def notify_all_def dest!: set_upd\<close>)
qed

lemma lock_next_inv:
  assumes inv: "lock_inv s" and i: "i < length (pcs s)" and n: "lock_next f i s = Some s'"
  shows "lock_inv s'"
proof (cases "quiet_succ (pcs s ! i) = pcs s ! i")
  case True
  note facts = thread_facts [OF inv i] lock_invD(8) [OF inv]
  from True n consider (prep) "pcs s ! i = UpgPrep" | (check) "pcs s ! i = ReadCheck" | (busy) "pcs s ! i = UpgCheck" "wants_write s"
    | (mark) "pcs s ! i = UpgCheck" "\<not> wants_write s" | (clear) "pcs s ! i = UpgClear"
    | (written) v where "pcs s ! i = Writing v"
    by (cases "pcs s ! i") (auto simp: lock_next_def)
  then show ?thesis
  proof cases
    case prep
    with n show ?thesis
      by (intro quiet_move [OF inv i prep, where q = "UpgWrite (user_data s)"])
        (use facts prep in \<open>auto simp: lock_next_def goto_def\<close>)
  next
    case check
    with n show ?thesis
      by (intro quiet_move [OF inv i check, where q = "if wants_write s then ReadWait else ReadAcquire"])
        (use facts check in \<open>auto simp: lock_next_def goto_def split: if_splits\<close>)
  next
    case busy
    with n show ?thesis
      by (intro quiet_move [OF inv i busy(1), where q = UpgWait])
        (use facts busy in \<open>auto simp: lock_next_def goto_def\<close>)
  next
    case mark
    with n show ?thesis by (intro mark_inv [OF inv i mark]) (simp add: lock_next_def)
  next
    case (written v)
    with n show ?thesis by (intro write_inv [OF inv i written, where y = "f (user_data s)"]) (simp add: lock_next_def)
  next
    case clear
    with n show ?thesis by (intro clear_inv [OF inv i clear]) (simp add: lock_next_def)
  qed
qed (rule quiet_next_inv [OF inv i n])

lemma lock_step_inv:
  assumes s: "lock_step s s'" and inv: "lock_inv s"
  shows "lock_inv s'"
  using s
proof (cases rule: lock_step.cases)
  case (call_read i)
  then show ?thesis
    using lock_invD(8) [OF inv] by (intro quiet_move [OF inv call_read(2,3), where q = ReadLock]) (auto simp: goto_def)
next
  case (drop_guard i)
  then show ?thesis
    using thread_facts(2) [OF inv drop_guard(2)] lock_invD(8) [OF inv]
    by (intro quiet_move [OF inv drop_guard(2,3), where q = Idle]) (auto simp: goto_def)
next
  case (call_write i)
  then show ?thesis
    using lock_invD(8) [OF inv] by (intro quiet_move [OF inv call_write(2,3), where q = UpgLock]) (auto simp: goto_def)
next
  case (run i f)
  then show ?thesis using lock_next_inv [OF inv] by blast
qed

lemma lock_steps_inv: "lock_step\<^sup>*\<^sup>* (Lock_new n x) s \<Longrightarrow> lock_inv s"
  by (induction rule: rtranclp_induct) (auto intro: lock_inv_new lock_step_inv)

section \<open>Properties\<close>

lemma owner_unique:
  assumes inv: "lock_inv s" and q: "q \<in> set (pcs s)" "is_owner q" and r: "r \<in> set (pcs s)" "is_owner r"
  shows "r = q"
proof -
  obtain i where i: "i < length (pcs s)" "pcs s ! i = q" using q(1) by (auto simp: in_set_conv_nth)
  have "count is_owner (pcs s) \<le> 1" by (simp add: lock_invD(5) [OF inv] del: is_owner.simps)
  then show ?thesis
    using count_single [of is_owner "pcs s" i r q] i q r list_update_id [of "pcs s" i] by simp
qed

lemma owner_wants:
  assumes "lock_inv s" and "q \<in> set (pcs s)" and "is_owner q"
  shows "wants_write s"
  using count_pos [of is_owner "pcs s"] lock_invD(5) [OF assms(1)] assms(2,3) by (auto simp del: is_owner.simps)

lemma acquire_moves:
  assumes inv: "lock_inv s"
    and st: "\<And>q. q \<in> set (pcs s) \<Longrightarrow>
      \<exists>i. (if q \<in> {ReadLock, ReadCheck, ReadAcquire} then read_next i q s else try_writeable_next f i q s) = None"
  shows "ReadAcquire \<notin> set (pcs s)"
proof
  assume a: "ReadAcquire \<in> set (pcs s)"
  then have "\<not> wants_write s" by (rule lock_invD(6) [OF inv])
  then have none: "\<not> is_owner q" if "q \<in> set (pcs s)" for q using owner_wants [OF inv that] by blast
  have "count is_writing (pcs s) = 0" "count is_pending (pcs s) = 0"
    using none by (auto simp: count_def filter_empty_conv)
  then have "can_read s" using lock_invD(3,4) [OF inv] by (simp add: can_read_def)
  then show False using st [OF a] by simp
qed

lemma mutex_moves:
  assumes inv: "lock_inv s"
    and st: "\<And>q. q \<in> set (pcs s) \<Longrightarrow>
      \<exists>i. (if q \<in> {ReadLock, ReadCheck, ReadAcquire} then read_next i q s else try_writeable_next f i q s) = None"
  shows "\<not> mutex_held s"
proof
  assume "mutex_held s"
  then obtain q where q: "q \<in> set (pcs s)" "has_mutex q"
    using count_pos [of has_mutex "pcs s"] lock_invD(1) [OF inv] by auto
  then have "q \<noteq> ReadAcquire" using acquire_moves [OF inv st] by blast
  with q(2) st [OF q(1)] show False by (auto split: if_splits)
qed

text \<open>
  C7.  Writing is exclusive.  Whatever the interleaving, while a thread runs its \<^verbatim>\<open>mut_func\<close> no thread holds a read
  guard and no other thread is anywhere between marking its intention to write and clearing the mark, and the value is
  still the one that the thread's \<^verbatim>\<open>prep_func\<close> was given.
\<close>

theorem writing_exclusive:
  assumes s: "lock_step\<^sup>*\<^sup>* (Lock_new n x) s" and i: "i < length (pcs s)" "pcs s ! i = Writing v"
  shows "user_data s = v \<and> (\<forall>j < length (pcs s). j \<noteq> i \<longrightarrow> \<not> has_read (pcs s ! j) \<and> \<not> is_owner (pcs s ! j))"
proof -
  note inv = lock_steps_inv [OF s]
  have "user_data s = v" using lock_invD(9) [OF inv, of v] nth_mem [OF i(1)] i(2) by simp
  moreover have "\<not> has_read (pcs s ! j)" if "j < length (pcs s)" for j
    using thread_facts(2) [OF inv that] thread_facts(3) [OF inv i(1)] i(2) lock_invD(8) [OF inv] by auto
  moreover have "\<not> is_owner (pcs s ! j)" if "j < length (pcs s)" "j \<noteq> i" for j
  proof
    assume o: "is_owner (pcs s ! j)"
    have "count is_owner (pcs s) \<le> 1" by (simp add: lock_invD(5) [OF inv] del: is_owner.simps)
    then have "pcs s ! j = Idle"
      using count_single [of is_owner "pcs s" i "pcs s ! j" Idle] i that o nth_mem [of j "(pcs s)[i := Idle]"] by simp
    with o show False by simp
  qed
  ultimately show ?thesis by blast
qed

text \<open>
  C21.  No deadlock.  Whatever the interleaving, if some thread is inside \<^verbatim>\<open>read\<close> or \<^verbatim>\<open>try_writeable\<close>, then some such
  thread can move, unless a writer is waiting and all that holds it up are plain read guards, which their owners
  give up when \<^verbatim>\<open>prep_func\<close> makes them yield.
\<close>

theorem lock_progress:
  assumes s: "lock_step\<^sup>*\<^sup>* (Lock_new n x) s" and p: "p \<in> set (pcs s)" "p \<noteq> Idle" "p \<noteq> Guard"
  shows "(\<exists>i < length (pcs s). lock_next f i s \<noteq> None) \<or>
    (\<exists>v. UpgWrite v \<in> set (pcs s)) \<and> Guard \<in> set (pcs s)"
proof (rule ccontr)
  note inv = lock_steps_inv [OF s]
  assume no: "\<not> ?thesis"
  have stuck: "\<exists>i. (if q \<in> {ReadLock, ReadCheck, ReadAcquire} then read_next i q s else try_writeable_next f i q s) = None"
    if q: "q \<in> set (pcs s)" for q
  proof -
    obtain i where i: "i < length (pcs s)" "pcs s ! i = q" using q by (auto simp: in_set_conv_nth)
    then have "lock_next f i s = None" using no by blast
    then show ?thesis unfolding lock_next_def Let_def i(2) by (rule exI)
  qed
  have "\<not> mutex_held s" by (rule mutex_moves [OF inv]) (rule stuck)
  then have gone: "q \<notin> {ReadLock, ReadCheck, UpgLock, UpgHeld, UpgCheck, UpgRelock, UpgPrep, UpgSignal, UpgClear}" "q \<noteq> Writing v"
    if "q \<in> set (pcs s)" for q v
    using stuck [OF that] by (auto split: if_splits)
  have nw: "\<not> inner_writing s"
    using count_pos [of is_writing "pcs s"] lock_invD(3) [OF inv] gone(2) by (auto elim!: is_writing.elims)
  have "p \<noteq> ReadAcquire" using acquire_moves [OF inv stuck] p(1) by blast
  then have "p = ReadWait \<or> p = UpgWait \<or> is_owner p" using p(2,3) gone [OF p(1)] by (cases p) auto
  then have "wants_write s" using p(1) lock_invD(7) [OF inv] owner_wants [OF inv p(1)] by blast
  then obtain q where q: "q \<in> set (pcs s)" "is_owner q"
    using count_pos [of is_owner "pcs s"] lock_invD(5) [OF inv] by auto
  have pend: "inner_pending s = 0" if "\<not> is_pending q"
    using count_pos [of is_pending "pcs s"] lock_invD(4) [OF inv] owner_unique [OF inv q] that by auto
  show False
  proof (cases "is_pending q")
    case True
    then obtain v where v: "q = UpgWrite v" by (cases q) auto
    then have "0 < count has_read (pcs s)"
      using stuck [OF q(1)] nw lock_invD(2) [OF inv] by (auto split: if_splits)
    then obtain r where r: "r \<in> set (pcs s)" "has_read r" unfolding count_pos [of has_read "pcs s"] by blast
    then have "r \<noteq> Guard" using no v q(1) by blast
    with r gone(1) [OF r(1)] show False by simp
  next
    case False
    with q(2) gone [OF q(1)] stuck [OF q(1)] pend nw show False
      by (cases q) (auto simp: can_read_def split: if_splits)
  qed
qed

section \<open>Sample runs\<close>

text \<open>Two threads: the first upgrades its guard, the second takes a guard as well.\<close>

datatype lock_act = Read nat | Drop nat | Upgrade nat | Run nat

fun lock_run :: "('a \<Rightarrow> 'a) \<Rightarrow> lock_act list \<Rightarrow> 'a Lock \<Rightarrow> 'a Lock option" where
  "lock_run f [] s = Some s"
| "lock_run f (Read i # as) s =
     (if i < length (pcs s) \<and> pcs s ! i = Idle then lock_run f as (goto i ReadLock s) else None)"
| "lock_run f (Drop i # as) s =
     (if i < length (pcs s) \<and> pcs s ! i = Guard
      then lock_run f as (goto i Idle (s\<lparr>inner_readers := inner_readers s - 1\<rparr>)) else None)"
| "lock_run f (Upgrade i # as) s =
     (if i < length (pcs s) \<and> pcs s ! i = Guard then lock_run f as (goto i UpgLock s) else None)"
| "lock_run f (Run i # as) s =
     (if i < length (pcs s) then case lock_next f i s of Some s' \<Rightarrow> lock_run f as s' | None \<Rightarrow> None else None)"

lemma lock_run_steps: "lock_run f as s = Some s' \<Longrightarrow> lock_step\<^sup>*\<^sup>* s s'"
proof (induction f as s rule: lock_run.induct)
  case (5 f i as s)
  then obtain s1 where "i < length (pcs s)" "lock_next f i s = Some s1" "lock_step\<^sup>*\<^sup>* s1 s'"
    by (auto split: if_splits option.splits)
  then show ?case using converse_rtranclp_into_rtranclp [of lock_step s s1 s'] run [of i s f s1] by blast
qed (auto split: if_splits intro: converse_rtranclp_into_rtranclp call_read drop_guard call_write)

definition sample_lock :: "nat Lock option" where
  "sample_lock = lock_run Suc ([Read 0, Read 1] @ replicate 3 (Run 0) @ replicate 3 (Run 1) @ Upgrade 0 # replicate 5 (Run 0))
     (Lock_new 2 7)"

theorem writing_exclusive_witness:
  "\<exists>s. lock_step\<^sup>*\<^sup>* (Lock_new 2 (7 :: nat)) s \<and> pcs s ! 0 = Writing 7 \<and> user_data s = 7 \<and> \<not> has_read (pcs s ! 1)"
proof -
  define s where "s = the (lock_run Suc [Drop 1, Run 0] (the sample_lock))"
  have r: "lock_run Suc [Drop 1, Run 0] (the sample_lock) = Some s" "sample_lock = Some (the sample_lock)"
    "pcs s = [Writing 7, Idle]" unfolding s_def by code_simp+
  have st: "lock_step\<^sup>*\<^sup>* (Lock_new 2 (7 :: nat)) s"
    using lock_run_steps [OF r(2) [unfolded sample_lock_def]] lock_run_steps [OF r(1)] by (simp add: sample_lock_def)
  from writing_exclusive [OF st, of 0 7] r(3) st show ?thesis by auto
qed

theorem lock_progress_witness:
  "\<exists>s. lock_step\<^sup>*\<^sup>* (Lock_new 2 (7 :: nat)) s \<and> pcs s = [UpgWrite 7, Guard] \<and>
     (\<forall>i < 2. lock_next Suc i s = None) \<and> Guard \<in> set (pcs s)"
proof -
  define s where "s = the sample_lock"
  have r: "sample_lock = Some s" "pcs s = [UpgWrite 7, Guard]" "lock_next Suc 0 s = None" "lock_next Suc 1 s = None"
    unfolding s_def by code_simp+
  have st: "lock_step\<^sup>*\<^sup>* (Lock_new 2 (7 :: nat)) s" by (rule lock_run_steps [OF r(1) [unfolded sample_lock_def]])
  have "\<forall>i < 2. lock_next Suc i s = None" using r by (auto simp: less_2_cases_iff)
  with lock_progress [OF st, of "UpgWrite 7" Suc] r st show ?thesis by auto
qed

end
