(* ===== verification/Api.thy ===== *)
theory Api
  imports DeviceSample
begin

text \<open>
  The configuration protocol (\<^verbatim>\<open>device/api.rs\<close>): reading lines, \<^verbatim>\<open>get=1\<close> and \<^verbatim>\<open>set=1\<close>.  The handlers
  that serve the sockets are in theory \<open>EventLoop\<close>.

  \<^item> The stream is the bytes still to come, and whether it then ends or fails.
  \<^item> Text is UTF-8 bytes, as in \<^verbatim>\<open>StdParse\<close>.  The replies are built as text; errors of writing are ignored, as in the
    source.
  \<^item> The function that encodes bytes as hexadecimal text is a parameter.
  \<^item> \<^verbatim>\<open>api_set\<close> runs under \<^verbatim>\<open>try_writeable\<close>: \<^verbatim>\<open>trigger_yield\<close> is its first function and the rest its second, and
    theory \<open>DevLock\<close> shows that no other thread comes in between.
\<close>

section \<open>Reading lines\<close>

record api_reader =
  input :: bytes
  broken :: bool

text \<open>
  \<^verbatim>\<open>read_line\<close> appends up to and including the newline to an empty string.  It fails on text that is not UTF-8.
  At the end of the stream it returns what is left, possibly nothing.
\<close>

definition read_line :: "api_reader \<Rightarrow> bytes option \<times> api_reader" where
  "read_line r =
     (let line = takeWhile (\<lambda>b. b \<noteq> 10) (input r)
      in if length line < length (input r) then
           (let l = line @ [10]
            in (if valid_utf8 l then Some l else None, r\<lparr>input := drop (length l) (input r)\<rparr>))
         else if broken r then (None, r\<lparr>input := []\<rparr>)
         else (if valid_utf8 line then Some line else None, r\<lparr>input := []\<rparr>))"

text \<open>\<^verbatim>\<open>String::pop\<close>: the last character goes, whatever it is.\<close>

definition pop :: "bytes \<Rightarrow> bytes" where
  "pop s = rev (drop 1 (dropWhile is_cont (rev s)))"

lemma read_line_shorter:
  assumes "read_line r = (Some l, r')" "l \<noteq> []"
  shows "length (input r') < length (input r)"
  using assms by (auto simp: read_line_def Let_def split: if_splits)

lemma pop_nil [simp]: "pop [] = []"
  by (simp add: pop_def)

section \<open>Printing\<close>

fun show_nat :: "nat \<Rightarrow> bytes" where
  "show_nat n = (let last = [48 + of_nat (n mod 10)] in if n div 10 = 0 then last else show_nat (n div 10) @ last)"

definition show_word :: "'a::len word \<Rightarrow> bytes" where
  "show_word x = show_nat (unat x)"

fun show_hex :: "nat \<Rightarrow> bytes" where
  "show_hex n = (if n < 16 then [to_char (of_nat n)] else show_hex (n div 16) @ [to_char (of_nat (n mod 16))])"

definition join :: "u8 \<Rightarrow> bytes list \<Rightarrow> bytes" where
  "join sep xs = (case xs of [] \<Rightarrow> [] | y # ys \<Rightarrow> y @ concat (map (\<lambda>z. sep # z) ys))"

definition show_ipv4 :: "bytes \<Rightarrow> bytes" where
  "show_ipv4 a = join 46 (map show_word a)"

definition segments :: "bytes \<Rightarrow> u16 list" where
  "segments a = map (\<lambda>i. word_of_be (slice a (2 * i) (2 * i + 2))) [0..<8]"

text \<open>The first longest run of zeros, as start and length.\<close>

fun longest_zeros :: "nat \<Rightarrow> nat \<times> nat \<Rightarrow> nat \<times> nat \<Rightarrow> u16 list \<Rightarrow> nat \<times> nat" where
  "longest_zeros i best cur [] = best"
| "longest_zeros i best cur (x # xs) =
     (if x = 0
      then let cur = (if snd cur = 0 then i else fst cur, snd cur + 1)
           in longest_zeros (i + 1) (if snd best < snd cur then cur else best) cur xs
      else longest_zeros (i + 1) best (0, 0) xs)"

definition show_ipv6 :: "bytes \<Rightarrow> bytes" where
  "show_ipv6 a =
     (let segs = segments a;
          hex = (\<lambda>xs. join 58 (map (\<lambda>x. show_hex (unat x)) xs))
      in if take 10 a = replicate 10 0 \<and> slice a 10 12 = [255, 255] then ascii ''::ffff:'' @ show_ipv4 (drop 12 a)
         else let (start, len) = longest_zeros 0 (0, 0) (0, 0) segs
         in if 1 < len then hex (take start segs) @ ascii ''::'' @ hex (drop (start + len) segs) else hex segs)"

fun show_ip :: "ip_addr \<Rightarrow> bytes" where
  "show_ip (V4 a) = show_ipv4 a"
| "show_ip (V6 a) = show_ipv6 a"

fun show_socket :: "socket_addr \<Rightarrow> bytes" where
  "show_socket (SockV4 a p) = show_ipv4 a @ [58] @ show_word p"
| "show_socket (SockV6 a p _ scope) =
     (if scope = 0 then [91] @ show_ipv6 a @ [93, 58] @ show_word p
      else [91] @ show_ipv6 a @ [37] @ show_word scope @ [93, 58] @ show_word p)"

text \<open>\<^verbatim>\<open>writeln!(writer, "key={value}")\<close>.\<close>

definition field :: "string \<Rightarrow> bytes \<Rightarrow> bytes" where
  "field k v = ascii k @ [61] @ v @ [10]"

definition opt_field :: "string \<Rightarrow> ('a \<Rightarrow> bytes) \<Rightarrow> 'a option \<Rightarrow> bytes" where
  "opt_field k f v = (case v of Some x \<Rightarrow> field k (f x) | None \<Rightarrow> [])"

section \<open>The get command\<close>

definition get_peer ::
  "(bytes \<Rightarrow> bytes) \<Rightarrow> ('u, 'p) libs \<Rightarrow> bytes \<Rightarrow> nat \<Rightarrow> 'u dev_world \<Rightarrow> (bytes \<times> 'u dev_world) panics" where
  "get_peer hex L k i w = do {
     let p = peer_store w ! i;
     (time, v) \<leftarrow> Peer_last_handshake_time p (tw w);
     ((_, tx, rx, _), v) \<leftarrow> Tunn_stats (tunnel p) v;
     Some (field ''public_key'' (hex k) @
       opt_field ''preshared_key'' hex (preshared_key p) @
       opt_field ''persistent_keepalive_interval'' show_word (Peer_persistent_keepalive p) @
       opt_field ''endpoint'' show_socket (ep_addr (endpoint p)) @
       concat (map (\<lambda>(ip, cidr). field ''allowed_ip'' (show_ip ip @ [47] @ show_word cidr)) (Peer_allowed_ips (peer_table L) p)) @
       opt_field ''last_handshake_time_sec'' (\<lambda>t. show_nat (as_secs t)) time @
       opt_field ''last_handshake_time_nsec'' (\<lambda>t. show_nat (subsec_nanos t)) time @
       field ''rx_bytes'' (show_word rx) @ field ''tx_bytes'' (show_word tx), w\<lparr>tw := v\<rparr>)
   }"

fun get_peers ::
  "(bytes \<Rightarrow> bytes) \<Rightarrow> ('u, 'p) libs \<Rightarrow> (bytes \<times> nat) list \<Rightarrow> 'u dev_world \<Rightarrow> (bytes \<times> 'u dev_world) panics" where
  "get_peers hex L [] w = Some ([], w)"
| "get_peers hex L ((k, i) # ps) w = do {
     (out, w) \<leftarrow> get_peer hex L k i w;
     (outs, w) \<leftarrow> get_peers hex L ps w;
     Some (out @ outs, w)
   }"

definition api_get ::
  "(bytes \<Rightarrow> bytes) \<Rightarrow> ('u, 'p) libs \<Rightarrow> 'p Device \<Rightarrow> 'u dev_world \<Rightarrow> (int \<times> bytes \<times> 'u dev_world) panics" where
  "api_get hex L d w = do {
     (outs, w) \<leftarrow> get_peers hex L (hash_order L (peers d)) w;
     Some (0, opt_field ''private_key'' (\<lambda>k. hex (fst k)) (key_pair d) @
       (if listen_port d \<noteq> 0 then field ''listen_port'' (show_word (listen_port d)) else []) @
       opt_field ''fwmark'' show_word (fwmark d) @ outs, w)
   }"

section \<open>The set command\<close>

definition EIO :: int where "EIO = 5"
definition EINVAL :: int where "EINVAL = 22"
definition EPROTO :: int where "EPROTO = 71"
definition EADDRINUSE :: int where "EADDRINUSE = 98"

text \<open>The variables of \<^verbatim>\<open>api_set_peer\<close>.\<close>

record peer_section =
  sec_public_key :: bytes
  sec_remove :: bool
  sec_replace_ips :: bool
  sec_endpoint :: "socket_addr option"
  sec_keepalive :: "u16 option"
  sec_preshared_key :: "bytes option"
  sec_allowed_ips :: "AllowedIP list"

definition section_start :: "bytes \<Rightarrow> peer_section" where
  "section_start pub_key =
     \<lparr>sec_public_key = pub_key, sec_remove = False, sec_replace_ips = False, sec_endpoint = None, sec_keepalive = None,
      sec_preshared_key = None, sec_allowed_ips = []\<rparr>"

definition commit_section ::
  "('u, 'p) libs \<Rightarrow> peer_section \<Rightarrow> 'p Device \<Rightarrow> 'u dev_world \<Rightarrow> (peer_section \<times> 'p Device \<times> 'u dev_world) panics" where
  "commit_section L sec d w = do {
     (d, w) \<leftarrow> update_peer L d (sec_public_key sec) (sec_remove sec) (sec_replace_ips sec) (sec_endpoint sec)
       (sec_allowed_ips sec) (sec_keepalive sec) (sec_preshared_key sec) w;
     Some (sec\<lparr>sec_allowed_ips := []\<rparr>, d, w)
   }"

text \<open>One line of a peer section.  \<open>Err\<close> is the status with which the function returns.\<close>

definition parsed :: "'b option \<Rightarrow> ('b \<Rightarrow> peer_section) \<Rightarrow> (peer_section, int) result" where
  "parsed v f = (case v of Some x \<Rightarrow> Ok (f x) | None \<Rightarrow> Err EINVAL)"

definition peer_field ::
  "('u, 'p) libs \<Rightarrow> peer_section \<Rightarrow> bytes \<Rightarrow> bytes \<Rightarrow> 'p Device \<Rightarrow> 'u dev_world
     \<Rightarrow> ((peer_section, int) result \<times> 'p Device \<times> 'u dev_world) panics" where
  "peer_field L sec key val d w =
     (if key = ascii ''remove'' then Some (parsed (parse_bool val) (\<lambda>b. sec\<lparr>sec_remove := b\<rparr>), d, w)
      else if key = ascii ''preshared_key'' then do {
        k \<leftarrow> KeyBytes_from_str (lib_base64 L) val;
        Some ((case k of Ok k \<Rightarrow> Ok (sec\<lparr>sec_preshared_key := Some k\<rparr>) | Err _ \<Rightarrow> Err EINVAL), d, w)
      }
      else if key = ascii ''endpoint'' then
        Some (parsed (parse_socket_addr val) (\<lambda>a. sec\<lparr>sec_endpoint := Some a\<rparr>), d, w)
      else if key = ascii ''persistent_keepalive_interval'' then
        Some (parsed (parse_u16 val) (\<lambda>n. sec\<lparr>sec_keepalive := Some n\<rparr>), d, w)
      else if key = ascii ''replace_allowed_ips'' then Some (parsed (parse_bool val) (\<lambda>b. sec\<lparr>sec_replace_ips := b\<rparr>), d, w)
      else if key = ascii ''allowed_ip'' then
        Some (parsed (AllowedIP_from_str val) (\<lambda>ip. sec\<lparr>sec_allowed_ips := sec_allowed_ips sec @ [ip]\<rparr>), d, w)
      else if key = ascii ''public_key'' then do {
        (sec, d, w) \<leftarrow> commit_section L sec d w;
        k \<leftarrow> KeyBytes_from_str (lib_base64 L) val;
        Some ((case k of Ok k \<Rightarrow> Ok (sec\<lparr>sec_public_key := k\<rparr>) | Err _ \<Rightarrow> Err EINVAL), d, w)
      }
      else if key = ascii ''protocol_version'' then Some ((if parse_u32 val = Some 1 then Ok sec else Err EINVAL), d, w)
      else Some (Err EINVAL, d, w))"

function api_set_peer ::
  "('u, 'p) libs \<Rightarrow> api_reader \<Rightarrow> peer_section \<Rightarrow> 'p Device \<Rightarrow> 'u dev_world \<Rightarrow> (int \<times> 'p Device \<times> 'u dev_world) panics" where
  "api_set_peer L r sec d w =
     (case read_line r of
        (None, _) \<Rightarrow> Some (0, d, w)
      | (Some cmd, r) \<Rightarrow>
          (let cmd = pop cmd
           in if cmd = [] then do { (_, d, w) \<leftarrow> commit_section L sec d w; Some (0, d, w) }
              else case splitn2 61 cmd of
                [key, val] \<Rightarrow> do {
                  (res, d, w) \<leftarrow> peer_field L sec key val d w;
                  case res of Ok sec \<Rightarrow> api_set_peer L r sec d w | Err status \<Rightarrow> Some (status, d, w)
                }
              | _ \<Rightarrow> Some (EPROTO, d, w)))"
  by pat_completeness auto
termination
  by (relation "measure (\<lambda>(L, r, sec, d, w). length (input r))") (auto dest!: read_line_shorter [OF sym])

text \<open>One line outside peer sections.\<close>

datatype set_outcome = Proceed | Return int | PeerSection bytes

definition set_field ::
  "('u, 'p) libs \<Rightarrow> bytes \<Rightarrow> bytes \<Rightarrow> 'p Device \<Rightarrow> 'u dev_world \<Rightarrow> (set_outcome \<times> 'p Device \<times> 'u dev_world) panics" where
  "set_field L key val d w =
     (let invalid = Some (Return EINVAL, d, w);
          status = (\<lambda>r. case r of Ok _ \<Rightarrow> Proceed | Err _ \<Rightarrow> Return EADDRINUSE)
      in if key = ascii ''private_key'' then do {
        k \<leftarrow> KeyBytes_from_str (lib_base64 L) val;
        case k of Ok k \<Rightarrow> do { (d, w) \<leftarrow> set_key L d k w; Some (Proceed, d, w) } | Err _ \<Rightarrow> invalid
      }
      else if key = ascii ''listen_port'' then
        (case parse_u16 val of
           Some port \<Rightarrow> do { (r, d, w) \<leftarrow> open_listen_socket L d port w; Some (status r, d, w) }
         | None \<Rightarrow> invalid)
      else if key = ascii ''fwmark'' then
        (case parse_u32 val of
           Some mark \<Rightarrow> (let (r, d, w) = set_fwmark L d mark w in Some (status r, d, w))
         | None \<Rightarrow> invalid)
      else if key = ascii ''replace_peers'' then
        (case parse_bool val of
           Some b \<Rightarrow> Some (Proceed, if b then clear_peers L d else d, w)
         | None \<Rightarrow> invalid)
      else if key = ascii ''public_key'' then do {
        k \<leftarrow> KeyBytes_from_str (lib_base64 L) val;
        case k of Ok k \<Rightarrow> Some (PeerSection k, d, w) | Err _ \<Rightarrow> invalid
      }
      else invalid)"

function api_set_loop ::
  "('u, 'p) libs \<Rightarrow> api_reader \<Rightarrow> 'p Device \<Rightarrow> 'u dev_world \<Rightarrow> (int \<times> 'p Device \<times> 'u dev_world) panics" where
  "api_set_loop L r d w =
     (case read_line r of
        (None, _) \<Rightarrow> Some (0, d, w)
      | (Some cmd, r) \<Rightarrow>
          (let cmd = pop cmd
           in if cmd = [] then Some (0, d, w)
              else case split_on 61 cmd of
                [key, val] \<Rightarrow> do {
                  (res, d, w) \<leftarrow> set_field L key val d w;
                  case res of
                    Proceed \<Rightarrow> api_set_loop L r d w
                  | Return status \<Rightarrow> Some (status, d, w)
                  | PeerSection k \<Rightarrow> api_set_peer L r (section_start k) d w
                }
              | _ \<Rightarrow> Some (EPROTO, d, w)))"
  by pat_completeness auto
termination
  by (relation "measure (\<lambda>(L, r, d, w). length (input r))") (auto dest!: read_line_shorter [OF sym])

definition api_set ::
  "('u, 'p) libs \<Rightarrow> api_reader \<Rightarrow> 'p Device \<Rightarrow> 'u dev_world \<Rightarrow> (int \<times> 'p Device \<times> 'u dev_world) panics" where
  "api_set L r d w = do {
     w \<leftarrow> trigger_yield d w;
     w \<leftarrow> cancel_yield d w;
     api_set_loop L r d w
   }"

declare show_nat.simps [simp del] show_hex.simps [simp del] api_set_peer.simps [simp del] api_set_loop.simps [simp del]

end
