(* ===== verification/Tun.thy ===== *)
theory Tun
  imports EventPoll StdParse
begin

text \<open>
  The tunnel interface on Linux (\<^verbatim>\<open>device/tun_linux.rs\<close>) and giving up privileges
  (\<^verbatim>\<open>device/drop_privileges.rs\<close>).

  \<^item> A name that reads as a number is an open descriptor.
  \<^item> An \<^verbatim>\<open>ioctl\<close> is its request and the interface name in its argument.  \<^verbatim>\<open>SIOCGIFMTU\<close> returns the MTU through its
    argument; here the result of the call is the MTU, negative on failure.
  \<^item> The entry of the password database for the login name is a parameter.
\<close>

section \<open>The interface\<close>

record TunSocket =
  tun_fd :: int
  tun_name :: bytes

definition IFNAMSIZ :: nat where "IFNAMSIZ = 16"
definition O_NONBLOCK :: int where "O_NONBLOCK = 2048"

definition TunSocket_drop :: "TunSocket \<Rightarrow> 'a os_world_scheme \<Rightarrow> 'a os_world_scheme" where
  "TunSocket_drop t w = snd (os_call (Close (tun_fd t)) w)"

definition TunSocket_new :: "bytes \<Rightarrow> 'a os_world_scheme \<Rightarrow> (TunSocket, Error) result \<times> 'a os_world_scheme" where
  "TunSocket_new name w =
     (case parse_i32 name of
        Some fd \<Rightarrow> (Ok \<lparr>tun_fd = fd, tun_name = name\<rparr>, w)
      | None \<Rightarrow>
          (let (fd, w) = os_call (Open (ascii ''/dev/net/tun'')) w
           in if fd = -1 then (Err SocketErr, w)
              else if IFNAMSIZ \<le> length name then (Err InvalidTunnelName, w)
              else let (r, w) = os_call (Ioctl fd ''TUNSETIFF'' name) w
              in if r < 0 then (Err IOCtl, w) else (Ok \<lparr>tun_fd = fd, tun_name = name\<rparr>, w)))"

text \<open>It consumes the socket, which is closed when a call fails.\<close>

definition set_non_blocking :: "TunSocket \<Rightarrow> 'a os_world_scheme \<Rightarrow> (TunSocket, Error) result \<times> 'a os_world_scheme" where
  "set_non_blocking t w =
     (let (flags, w) = os_call (GetFlags (tun_fd t)) w
      in if flags = -1 then (Err FCntl, TunSocket_drop t w)
         else let (r, w) = os_call (SetFlags (tun_fd t) (or flags O_NONBLOCK)) w
         in if r = -1 then (Err FCntl, TunSocket_drop t w) else (Ok t, w))"

definition tun_mtu :: "bytes \<Rightarrow> 'a os_world_scheme \<Rightarrow> ((nat, Error) result \<times> 'a os_world_scheme) panics" where
  "tun_mtu name w =
     (if parse_i32 name \<noteq> None then Some (Ok 1500, w)
      else let (fd, w) = os_call (SocketNew ''AF_INET'' ''SOCK_STREAM'') w
      in if fd = -1 then Some (Err SocketErr, w)
         else if IFNAMSIZ < length name then None
         else let (m, w) = os_call (Ioctl fd ''SIOCGIFMTU'' name) w
         in if m < 0 then Some (Err IOCtl, w) else Some (Ok (nat m), snd (os_call (Close fd) w)))"

text \<open>A packet written is a system call; a packet read is the message that waits, cut to the buffer.\<close>

definition tun_write :: "TunSocket \<Rightarrow> bytes \<Rightarrow> 'a os_world_scheme \<Rightarrow> nat \<times> 'a os_world_scheme" where
  "tun_write t buf w = (let (n, w) = os_call (WriteTun (tun_fd t) buf) w in (if n = -1 then 0 else nat n, w))"

definition tun_read :: "nat \<Rightarrow> bytes option \<Rightarrow> (bytes, Error) result" where
  "tun_read cap message = (case message of None \<Rightarrow> Err IfaceRead | Some m \<Rightarrow> Ok (take cap m))"

section \<open>Privileges\<close>

definition get_saved_ids :: "'n option \<Rightarrow> ('n \<Rightarrow> (int \<times> int) option) \<Rightarrow> (int \<times> int, Error) result" where
  "get_saved_ids login getpwnam =
     (case login of
        None \<Rightarrow> Err DropPrivileges
      | Some uname \<Rightarrow> (case getpwnam uname of None \<Rightarrow> Err DropPrivileges | Some ids \<Rightarrow> Ok ids))"

text \<open>The last test is a lazy \<^verbatim>\<open>||\<close>.\<close>

definition drop_privileges ::
  "'n option \<Rightarrow> ('n \<Rightarrow> (int \<times> int) option) \<Rightarrow> 'a os_world_scheme \<Rightarrow> (unit, Error) result \<times> 'a os_world_scheme" where
  "drop_privileges login getpwnam w =
     (case get_saved_ids login getpwnam of
        Err e \<Rightarrow> (Err e, w)
      | Ok (saved_uid, saved_gid) \<Rightarrow>
          (let (r, w) = os_call (SetGid saved_gid) w
           in if r = -1 then (Err DropPrivileges, w)
              else let (r, w) = os_call (SetUid saved_uid) w
              in if r = -1 then (Err DropPrivileges, w)
              else let (r, w) = os_call (SetGid 0) w
              in if r \<noteq> -1 then (Err DropPrivileges, w)
              else let (r, w) = os_call (SetUid 0) w
              in if r \<noteq> -1 then (Err DropPrivileges, w) else (Ok (), w)))"

section \<open>Properties\<close>

lemma tun_mtu_new:
  assumes "TunSocket_new name w = (Ok t, w1)"
  shows "tun_mtu (tun_name t) w2 \<noteq> None"
  using assms
  by (auto simp: TunSocket_new_def tun_mtu_def Let_def split: option.splits prod.splits if_splits)

text \<open>
  Privileges are given up for good exactly when the login is known, both identities could be set, and neither could be
  set back.
\<close>

lemma drop_privileges_iff:
  "fst (drop_privileges login getpwnam w) = Ok () \<longleftrightarrow>
     (\<exists>u uid gid. login = Some u \<and> getpwnam u = Some (uid, gid)) \<and>
     os w (os_pos w) \<noteq> -1 \<and> os w (os_pos w + 1) \<noteq> -1 \<and> os w (os_pos w + 2) = -1 \<and> os w (os_pos w + 3) = -1"
  by (auto simp: drop_privileges_def get_saved_ids_def os_call_def Let_def numeral_eq_Suc split: option.splits)

lemma drop_privileges_trace:
  assumes "drop_privileges login getpwnam w = (Ok (), w')"
  shows "\<exists>u uid gid. login = Some u \<and> getpwnam u = Some (uid, gid) \<and>
    trace w' = trace w @ [SetGid gid, SetUid uid, SetGid 0, SetUid 0]"
  using assms
  by (auto simp: drop_privileges_def get_saved_ids_def os_call_def Let_def split: option.splits if_splits)

end
