(* ===== verification/EventLoop.thy ===== *)
theory EventLoop
  imports Api Tun
begin

text \<open>
  The handlers of the configuration sockets, the construction of the device, and the loop that its threads run
  (\<^verbatim>\<open>device/api.rs\<close>, \<^verbatim>\<open>device/mod.rs\<close>).

  \<^item> What a handler reads from its descriptor is a \<open>handler_input\<close>: the datagrams, packets or command that wait for it.
  \<^item> A device whose construction fails is dropped; the descriptors closed by that are not in the trace.
  \<^item> A thread is one loop over what the queue reports.  The lock between the threads is in theory \<open>DevLock\<close>.
\<close>

section \<open>Serving a command\<close>

definition api_command ::
  "(bytes \<Rightarrow> bytes) \<Rightarrow> ('u, 'p) libs \<Rightarrow> api_reader \<Rightarrow> 'p Device \<Rightarrow> 'u dev_world
     \<Rightarrow> (bytes option \<times> 'p Device \<times> 'u dev_world) panics" where
  "api_command hex L r d w =
     (case read_line r of
        (None, _) \<Rightarrow> Some (None, d, w)
      | (Some cmd, r) \<Rightarrow> do {
          let cmd = pop cmd;
          (status, out, d, w) \<leftarrow>
            (if cmd = ascii ''get=1'' then do { (status, out, w) \<leftarrow> api_get hex L d w; Some (status, out, d, w) }
             else if cmd = ascii ''set=1'' then do { (status, d, w) \<leftarrow> api_set L r d w; Some (status, [], d, w) }
             else Some (EIO, [], d, w));
          Some (Some (out @ field ''errno'' (show_nat (nat status)) @ [10]), d, w)
        })"

text \<open>The handler of the listening socket; the connection may fail to be accepted.\<close>

definition api_listener_handler ::
  "(bytes \<Rightarrow> bytes) \<Rightarrow> ('u, 'p) libs \<Rightarrow> api_reader option \<Rightarrow> 'p Device \<Rightarrow> 'u dev_world
     \<Rightarrow> (Action \<times> 'p Device \<times> 'u dev_world) panics" where
  "api_listener_handler hex L conn d w =
     (case conn of
        None \<Rightarrow> Some (Continue, d, w)
      | Some r \<Rightarrow> do { (_, d, w) \<leftarrow> api_command hex L r d w; Some (Continue, d, w) })"

definition api_fd_handler ::
  "(bytes \<Rightarrow> bytes) \<Rightarrow> ('u, 'p) libs \<Rightarrow> api_reader \<Rightarrow> 'p Device \<Rightarrow> 'u dev_world
     \<Rightarrow> (Action \<times> 'p Device \<times> 'u dev_world) panics" where
  "api_fd_handler hex L r d w = do {
     (reply, d, w) \<leftarrow> api_command hex L r d w;
     case reply of
       Some _ \<Rightarrow> Some (Continue, d, w)
     | None \<Rightarrow> do { w \<leftarrow> trigger_exit d w; Some (Exit, d, w) }
   }"

definition monitor_handler ::
  "bytes \<Rightarrow> 'p Device \<Rightarrow> 'u dev_world \<Rightarrow> (Action \<times> 'p Device \<times> 'u dev_world) panics" where
  "monitor_handler path d w =
     (let (exists, w) = os_call (PathExists path) w
      in if exists = -1 then do { w \<leftarrow> trigger_exit d w; Some (Exit, d, w) }
         else do {
           (r, w) \<leftarrow> tun_mtu (iface_name d) w;
           Some (Continue, (case r of Ok m \<Rightarrow> d\<lparr>mtu := m\<rparr> | Err _ \<Rightarrow> d), w)
         })"

section \<open>Registering the configuration sockets\<close>

definition SOCK_DIR :: bytes where "SOCK_DIR = ascii ''/var/run/wireguard/''"

definition create_sock_dir :: "(int \<times> int, Error) result \<Rightarrow> 'u dev_world \<Rightarrow> 'u dev_world" where
  "create_sock_dir saved_ids w =
     (let w = snd (os_call (CreateDir SOCK_DIR) w)
      in case saved_ids of Ok (uid, gid) \<Rightarrow> snd (os_call (Chown SOCK_DIR uid gid) w) | Err _ \<Rightarrow> w)"

text \<open>A sequence of registrations, each ending in \<^verbatim>\<open>?\<close>.\<close>

definition then_try ::
  "(unit, Error) result \<times> 'p Device \<times> 'u dev_world
     \<Rightarrow> ('p Device \<Rightarrow> 'u dev_world \<Rightarrow> (unit, Error) result \<times> 'p Device \<times> 'u dev_world)
     \<Rightarrow> (unit, Error) result \<times> 'p Device \<times> 'u dev_world" where
  "then_try x f = (case x of (Ok _, d, w) \<Rightarrow> f d w | (Err e, d, w) \<Rightarrow> (Err e, d, w))"

definition in_queue ::
  "'p Device \<Rightarrow> (int, Error) result \<times> Handler EventPoll \<times> 'u dev_world \<Rightarrow> (unit, Error) result \<times> 'p Device \<times> 'u dev_world" where
  "in_queue d x = (case x of (r, q, w) \<Rightarrow> (case r of Ok _ \<Rightarrow> Ok () | Err e \<Rightarrow> Err e, d\<lparr>queue := q\<rparr>, w))"

definition register_monitor ::
  "bytes \<Rightarrow> 'p Device \<Rightarrow> 'u dev_world \<Rightarrow> (unit, Error) result \<times> 'p Device \<times> 'u dev_world" where
  "register_monitor path d w = in_queue d (new_periodic_event (queue d) (MonitorTimer path) (1, 0) w)"

definition SIGINT :: int where "SIGINT = 2"
definition SIGTERM :: int where "SIGTERM = 15"

definition register_api_signal_handlers ::
  "'p Device \<Rightarrow> 'u dev_world \<Rightarrow> (unit, Error) result \<times> 'p Device \<times> 'u dev_world" where
  "register_api_signal_handlers d w =
     then_try (in_queue d (new_signal_event (queue d) SIGINT SignalExit w))
       (\<lambda>d w. in_queue d (new_signal_event (queue d) SIGTERM SignalExit w))"

definition register_api_handler ::
  "(int \<times> int, Error) result \<Rightarrow> 'p Device \<Rightarrow> 'u dev_world \<Rightarrow> (unit, Error) result \<times> 'p Device \<times> 'u dev_world" where
  "register_api_handler saved_ids d w =
     (let path = SOCK_DIR @ ascii ''/'' @ iface_name d @ ascii ''.sock'';
          w = create_sock_dir saved_ids w;
          w = snd (os_call (RemoveFile path) w);
          (fd, w) = os_call (UnixBind path) w
      in if fd = -1 then (Err ApiSocket, d, w)
         else let d = d\<lparr>cleanup_paths := cleanup_paths d @ [path]\<rparr>
         in then_try (in_queue d (new_event (queue d) fd (ApiListener fd) w))
              (\<lambda>d w. then_try (register_monitor path d w) register_api_signal_handlers))"

definition register_api_fd :: "int \<Rightarrow> 'p Device \<Rightarrow> 'u dev_world \<Rightarrow> (unit, Error) result \<times> 'p Device \<times> 'u dev_world" where
  "register_api_fd fd d w = in_queue d (new_event (queue d) fd (ApiFd fd) w)"

section \<open>Construction\<close>

text \<open>\<^verbatim>\<open>TunSocket::new(name)?.set_non_blocking()?\<close>\<close>

definition open_tun :: "bytes \<Rightarrow> 'u dev_world \<Rightarrow> (TunSocket, Error) result \<times> 'u dev_world" where
  "open_tun name w = (case TunSocket_new name w of (Err e, w) \<Rightarrow> (Err e, w) | (Ok t, w) \<Rightarrow> set_non_blocking t w)"

definition register_all ::
  "(int \<times> int, Error) result \<Rightarrow> 'p Device \<Rightarrow> 'u dev_world \<Rightarrow> (unit, Error) result \<times> 'p Device \<times> 'u dev_world" where
  "register_all saved_ids d w =
     then_try
       (if 0 \<le> cfg_uapi_fd (dev_config d) then register_api_fd (cfg_uapi_fd (dev_config d)) d w
        else register_api_handler saved_ids d w)
       (\<lambda>d w. then_try (register_iface_handler d (iface d) w)
         (\<lambda>d w. then_try (register_notifiers d w) register_timers))"

text \<open>
  \<^verbatim>\<open>Device::new\<close> on Linux.  On macOS it goes on to write the name of the interface to a file if the environment asks for it,
  which is left out.
\<close>

definition Device_new ::
  "('u, 'p) libs \<Rightarrow> (int \<times> int, Error) result \<Rightarrow> bytes \<Rightarrow> DeviceConfig \<Rightarrow> 'u dev_world
     \<Rightarrow> (('p Device, Error) result \<times> 'u dev_world) panics" where
  "Device_new L saved_ids name conf w =
     (case EventPoll_new w of
        (Err e, w) \<Rightarrow> Some (Err e, w)
      | (Ok poll, w) \<Rightarrow>
          (case open_tun name w of
             (Err e, w) \<Rightarrow> Some (Err e, w)
           | (Ok ifc, w) \<Rightarrow> do {
               (m, w) \<leftarrow> tun_mtu (tun_name ifc) w;
               case m of
                 Err e \<Rightarrow> Some (Err e, w)
               | Ok m \<Rightarrow> do {
                   (l, v) \<leftarrow> IndexLfsr_default (tw w);
                   let (r, d, w) = register_all saved_ids (Device_init L poll (tun_fd ifc) (tun_name ifc) m conf l) (w\<lparr>tw := v\<rparr>);
                   Some (case r of Ok _ \<Rightarrow> Ok d | Err e \<Rightarrow> Err e, w)
                 }
             }))"

text \<open>\<^verbatim>\<open>DeviceHandle::new\<close> up to the start of the threads.\<close>

definition DeviceHandle_new ::
  "('u, 'p) libs \<Rightarrow> (int \<times> int, Error) result \<Rightarrow> bytes \<Rightarrow> DeviceConfig \<Rightarrow> 'u dev_world
     \<Rightarrow> (('p Device, Error) result \<times> 'u dev_world) panics" where
  "DeviceHandle_new L saved_ids name conf w = do {
     (r, w) \<leftarrow> Device_new L saved_ids name conf w;
     case r of
       Err e \<Rightarrow> Some (Err e, w)
     | Ok d \<Rightarrow> do {
         (r, d, w) \<leftarrow> open_listen_socket L d 0 w;
         Some ((case r of Ok _ \<Rightarrow> Ok d | Err e \<Rightarrow> Err e), w)
       }
   }"

section \<open>The event loop\<close>

record handler_input =
  in_udp :: "(socket_addr \<times> bytes) list"
  in_conn :: "bytes list"
  in_iface :: "iface_input list"
  in_api :: "api_reader option"

text \<open>The interface queue of a thread: the first thread uses the device's, the others open one of their own.\<close>

definition thread_iface :: "nat \<Rightarrow> 'p Device \<Rightarrow> 'u dev_world \<Rightarrow> (int \<times> 'p Device \<times> 'u dev_world) panics" where
  "thread_iface i d w =
     (if i = 0 \<or> \<not> use_multi_queue (dev_config d) then Some (iface d, d, w)
      else case open_tun (iface_name d) w of
        (Err _, _) \<Rightarrow> None
      | (Ok t, w) \<Rightarrow> (let (_, d, w) = register_iface_handler d (tun_fd t) w in Some (tun_fd t, d, w)))"

fun run_handler ::
  "(bytes \<Rightarrow> bytes) \<Rightarrow> ('u, 'p) libs \<Rightarrow> int \<Rightarrow> Handler \<Rightarrow> handler_input \<Rightarrow> 'p Device \<Rightarrow> 'u dev_world
     \<Rightarrow> (Action \<times> 'p Device \<times> 'u dev_world) panics" where
  "run_handler hex L ifc YieldNotice inp d w = Some (Yield, d, w)"
| "run_handler hex L ifc ExitNotice inp d w = Some (Exit, d, w)"
| "run_handler hex L ifc LimiterTimer inp d w = (let (a, w) = limiter_timer d w in Some (a, d, w))"
| "run_handler hex L ifc PeersTimer inp d w = do { (a, w) \<leftarrow> peers_timer L d w; Some (a, d, w) }"
| "run_handler hex L ifc (UdpHandler udp) inp d w = do { (a, _, d, w) \<leftarrow> udp_handler L ifc udp d (in_udp inp) w; Some (a, d, w) }"
| "run_handler hex L ifc (ConnHandler i udp adr) inp d w = do {
     (a, _, w) \<leftarrow> conn_handler L ifc i udp adr (in_conn inp) w; Some (a, d, w) }"
| "run_handler hex L ifc (IfaceHandler _) inp d w = do { (a, _, w) \<leftarrow> iface_handler L d (in_iface inp) w; Some (a, d, w) }"
| "run_handler hex L ifc (ApiListener _) inp d w = api_listener_handler hex L (in_api inp) d w"
| "run_handler hex L ifc (ApiFd _) inp d w =
     api_fd_handler hex L (case in_api inp of Some r \<Rightarrow> r | None \<Rightarrow> \<lparr>input = [], broken = True\<rparr>) d w"
| "run_handler hex L ifc (MonitorTimer path) inp d w = monitor_handler path d w"
| "run_handler hex L ifc SignalExit inp d w = Some (Exit, d, w)"

text \<open>
  The loop over what is reported; the flag says whether the thread has ended.  Giving up the read lock on
  \<^verbatim>\<open>Yield\<close> and taking it again is the subject of theory \<open>DevLock\<close>.
\<close>

fun event_loop ::
  "(bytes \<Rightarrow> bytes) \<Rightarrow> ('u, 'p) libs \<Rightarrow> int \<Rightarrow> (wait_report \<times> handler_input) list \<Rightarrow> 'p Device \<Rightarrow> 'u dev_world
     \<Rightarrow> (bool \<times> 'p Device \<times> 'u dev_world) panics" where
  "event_loop hex L ifc [] d w = Some (False, d, w)"
| "event_loop hex L ifc ((report, inp) # es) d w = do {
     r \<leftarrow> wait (queue d) report;
     case r of
       WaitOk handler \<Rightarrow> do {
         (action, d, w) \<leftarrow> run_handler hex L ifc (ev_handler handler) inp d w;
         case action of
           Exit \<Rightarrow> do { w \<leftarrow> trigger_exit d w; w \<leftarrow> guard_drop handler w; Some (True, d, w) }
         | _ \<Rightarrow> do { w \<leftarrow> guard_drop handler w; event_loop hex L ifc es d w }
       }
     | WaitEoF handler \<Rightarrow>
         if 0 \<le> cfg_uapi_fd (dev_config d) \<and> cfg_uapi_fd (dev_config d) = ev_fd handler
         then do { w \<leftarrow> trigger_exit d w; w \<leftarrow> guard_drop handler w; Some (True, d, w) }
         else do {
           (q, w) \<leftarrow> guard_cancel (queue d) handler w;
           event_loop hex L ifc es (d\<lparr>queue := q\<rparr>) w
         }
     | WaitError \<Rightarrow> event_loop hex L ifc es d w
   }"

section \<open>The end\<close>

text \<open>\<^verbatim>\<open>DeviceHandle::clean\<close>, and what dropping the handle does.\<close>

definition DeviceHandle_clean :: "'p Device \<Rightarrow> 'u dev_world \<Rightarrow> 'u dev_world" where
  "DeviceHandle_clean d w = fold (\<lambda>path w. snd (os_call (RemoveFile path) w)) (cleanup_paths d) w"

definition DeviceHandle_drop :: "'p Device \<Rightarrow> 'u dev_world \<Rightarrow> 'u dev_world panics" where
  "DeviceHandle_drop d w = do { w \<leftarrow> trigger_exit d w; Some (DeviceHandle_clean d w) }"

end
