(* ===== verification/EventLoopReach.thy ===== *)
theory EventLoopReach
  imports EventLoop
begin

text \<open>
  Everything that the event loop does to a device is a sequence of the steps of theory \<open>DeviceReach\<close>: the
  registrations of the construction, the commands of the configuration protocol, and the handlers.
\<close>

section \<open>Configuration commands\<close>

abbreviation runs :: "('u, 'p) libs \<Rightarrow> 'p Device \<times> 'u dev_world \<Rightarrow> 'p Device \<times> 'u dev_world \<Rightarrow> bool" where
  "runs L \<equiv> (dev_step L)\<^sup>*\<^sup>*"

lemma runs_step: "dev_step L s s' \<Longrightarrow> runs L s s'"
  by (rule r_into_rtranclp)

lemma runs_snoc: "runs L s t \<Longrightarrow> dev_step L t u \<Longrightarrow> runs L s u"
  by (rule rtranclp.rtrancl_into_rtrancl)

lemma get_peer_runs:
  assumes "get_peer hex L k i w = Some (out, w')"
  shows "runs L (d, w) (d, w')"
proof -
  obtain t v x tx rx y v' where h: "Peer_last_handshake_time (peer_store w ! i) (tw w) = Some (t, v)"
    and s: "Tunn_stats (tunnel (peer_store w ! i)) v = Some ((x, tx, rx, y), v')" and w': "w' = w\<lparr>tw := v'\<rparr>"
    using assms by (auto simp: get_peer_def Let_def bind_eq_Some_conv)
  have "Tunn_stats (tunnel (peer_store w ! i)) (tw (w\<lparr>tw := v\<rparr>)) = Some ((x, tx, rx, y), v')" by (simp add: s)
  from do_stats [OF this, of L d] have "dev_step L (d, w\<lparr>tw := v\<rparr>) (d, w')" by (simp add: w')
  with do_handshake_time [OF h, of L d] show ?thesis by (meson converse_rtranclp_into_rtranclp runs_step)
qed

lemma get_peers_runs: "get_peers hex L ps w = Some (out, w') \<Longrightarrow> runs L (d, w) (d, w')"
proof (induction ps arbitrary: w out)
  case (Cons p ps)
  obtain k i where p: "p = (k, i)" by (cases p)
  obtain o1 w1 o2 where g: "get_peer hex L k i w = Some (o1, w1)" "get_peers hex L ps w1 = Some (o2, w')"
    using Cons.prems by (auto simp: p bind_eq_Some_conv)
  show ?case by (rule rtranclp_trans [OF get_peer_runs [OF g(1)] Cons.IH [OF g(2)]])
qed simp

lemma api_get_runs: "api_get hex L d w = Some (st, out, w') \<Longrightarrow> runs L (d, w) (d, w')"
  by (auto simp: api_get_def bind_eq_Some_conv dest: get_peers_runs)

lemma commit_section_runs: "commit_section L sec d w = Some (sec', d', w') \<Longrightarrow> runs L (d, w) (d', w')"
  by (auto simp: commit_section_def bind_eq_Some_conv intro!: runs_step do_update_peer)

lemma peer_field_runs: "peer_field L sec key val d w = Some (r, d', w') \<Longrightarrow> runs L (d, w) (d', w')"
  by (auto simp: peer_field_def bind_eq_Some_conv split: if_splits dest: commit_section_runs)

lemma api_set_peer_runs: "api_set_peer L r sec d w = Some (st, d', w') \<Longrightarrow> runs L (d, w) (d', w')"
proof (induction L r sec d w arbitrary: st d' w' rule: api_set_peer.induct)
  case (1 L r sec d w)
  obtain l r1 where l: "read_line r = (l, r1)" by (cases "read_line r")
  show ?case
  proof (cases l)
    case None
    then show ?thesis using "1.prems" l by (subst (asm) api_set_peer.simps) simp
  next
    case (Some cmd)
    note p = "1.prems" [unfolded api_set_peer.simps [of L r sec d w] l Some prod.case option.case Let_def]
    show ?thesis
    proof (cases "pop cmd = []")
      case True
      then show ?thesis using p by (auto simp: bind_eq_Some_conv dest: commit_section_runs)
    next
      case False
      show ?thesis
      proof (cases "\<exists>key val. splitn2 61 (pop cmd) = [key, val]")
        case True
        then obtain key val where kv: "splitn2 61 (pop cmd) = [key, val]" by blast
        obtain res d1 w1 where f: "peer_field L sec key val d w = Some (res, d1, w1)"
          and q: "(case res of Ok sec \<Rightarrow> api_set_peer L r1 sec d1 w1 | Err status \<Rightarrow> Some (status, d1, w1)) = Some (st, d', w')"
          using p False kv by (auto simp: bind_eq_Some_conv)
        have "runs L (d1, w1) (d', w')"
        proof (cases res)
          case (Ok sec1)
          have a: "api_set_peer L r1 sec1 d1 w1 = Some (st, d', w')" using q Ok by simp
          show ?thesis
            by (rule "1.IH" [OF l [symmetric] Some refl False kv refl refl f refl refl Ok a])
        qed (use q in simp)
        with peer_field_runs [OF f] show ?thesis by (rule rtranclp_trans)
      next
        case nokv: False
        then have "st = EPROTO \<and> d' = d \<and> w' = w" using p False by (auto split: list.splits)
        then show ?thesis by simp
      qed
    qed
  qed
qed

lemma set_field_runs: "set_field L key val d w = Some (r, d', w') \<Longrightarrow> runs L (d, w) (d', w')"
  by (cases "KeyBytes_from_str (lib_base64 L) val"; cases "the (KeyBytes_from_str (lib_base64 L) val)")
    (auto simp: set_field_def Let_def bind_eq_Some_conv split: if_splits option.splits prod.splits
      intro: runs_step do_set_key do_listen do_set_fwmark do_clear_peers)

lemma api_set_loop_runs: "api_set_loop L r d w = Some (st, d', w') \<Longrightarrow> runs L (d, w) (d', w')"
proof (induction L r d w arbitrary: st d' w' rule: api_set_loop.induct)
  case (1 L r d w)
  obtain l r1 where l: "read_line r = (l, r1)" by (cases "read_line r")
  show ?case
  proof (cases l)
    case None
    then show ?thesis using "1.prems" l by (subst (asm) api_set_loop.simps) simp
  next
    case (Some cmd)
    note p = "1.prems" [unfolded api_set_loop.simps [of L r d w] l Some prod.case option.case Let_def]
    show ?thesis
    proof (cases "pop cmd \<noteq> [] \<and> (\<exists>key val. split_on 61 (pop cmd) = [key, val])")
      case True
      then obtain key val where c: "pop cmd \<noteq> []" and kv: "split_on 61 (pop cmd) = [key, val]" by blast
      obtain res d1 w1 where f: "set_field L key val d w = Some (res, d1, w1)"
        and q: "(case res of Proceed \<Rightarrow> api_set_loop L r1 d1 w1 | Return status \<Rightarrow> Some (status, d1, w1)
          | PeerSection k \<Rightarrow> api_set_peer L r1 (section_start k) d1 w1) = Some (st, d', w')"
        using p c kv by (auto simp: bind_eq_Some_conv)
      have "runs L (d1, w1) (d', w')"
      proof (cases res)
        case Proceed
        have a: "api_set_loop L r1 d1 w1 = Some (st, d', w')" using q Proceed by simp
        show ?thesis by (rule "1.IH" [OF l [symmetric] Some refl c kv refl refl f refl refl Proceed a])
      qed (use q in \<open>auto dest: api_set_peer_runs\<close>)
      with set_field_runs [OF f] show ?thesis by (rule rtranclp_trans)
    next
      case False
      then show ?thesis using p by (auto split: if_splits list.splits)
    qed
  qed
qed

lemma api_set_runs:
  assumes "api_set L r d w = Some (st, d', w')"
  shows "runs L (d, w) (d', w')"
proof -
  obtain w1 w2 where y: "trigger_yield d w = Some w1" "cancel_yield d w1 = Some w2" "api_set_loop L r d w2 = Some (st, d', w')"
    using assms by (auto simp: api_set_def bind_eq_Some_conv)
  have "runs L (d, w) (d, w2)"
    by (rule rtranclp_trans [OF runs_step [OF do_trigger_yield [OF y(1)]] runs_step [OF do_cancel_yield [OF y(2)]]])
  then show ?thesis using api_set_loop_runs [OF y(3)] by (rule rtranclp_trans)
qed

lemma api_command_runs: "api_command hex L r d w = Some (reply, d', w') \<Longrightarrow> runs L (d, w) (d', w')"
  by (auto simp: api_command_def Let_def bind_eq_Some_conv split: option.splits prod.splits if_splits
      dest: api_get_runs api_set_runs)

section \<open>Handlers\<close>

lemma trigger_exit_runs: "runs L s (d, w) \<Longrightarrow> trigger_exit d w = Some w' \<Longrightarrow> runs L s (d, w')"
  by (blast intro: runs_snoc do_trigger_exit)

lemma os_runs: "runs L s (d, w) \<Longrightarrow> runs L s (d, snd (os_call x w))"
  by (blast intro: runs_snoc do_os)

lemma tun_mtu_runs: "runs L s (d, w) \<Longrightarrow> tun_mtu name w = Some (r, w') \<Longrightarrow> runs L s (d, w')"
  by (auto simp: tun_mtu_def Let_def split_beta split: if_splits intro!: os_runs)

lemma monitor_handler_runs:
  assumes "monitor_handler path d w = Some (a, d', w')"
  shows "runs L (d, w) (d', w')"
proof -
  let ?w = "snd (os_call (PathExists path) w)"
  have p: "runs L (d, w) (d, ?w)" by (rule os_runs) simp
  show ?thesis
  proof (cases "fst (os_call (PathExists path) w) = -1")
    case True
    then show ?thesis
      using assms trigger_exit_runs [OF p] by (auto simp: monitor_handler_def Let_def split_beta bind_eq_Some_conv)
  next
    case False
    then obtain r where t: "tun_mtu (iface_name d) ?w = Some (r, w')"
      and d': "d' = (case r of Ok m \<Rightarrow> d\<lparr>mtu := m\<rparr> | Err _ \<Rightarrow> d)"
      using assms by (auto simp: monitor_handler_def Let_def split_beta bind_eq_Some_conv)
    show ?thesis
      using tun_mtu_runs [OF p t] by (cases r) (auto simp: d' intro: runs_snoc do_mtu)
  qed
qed

lemma guard_drop_runs: "runs L s (d, w) \<Longrightarrow> guard_drop ev w = Some w' \<Longrightarrow> runs L s (d, w')"
  by (auto simp: guard_drop_def bind_eq_Some_conv split: if_splits intro!: os_runs) (blast intro: runs_snoc do_drain)

lemma guard_cancel_runs: "guard_cancel (queue d) ev w = Some (q, w') \<Longrightarrow> runs L (d, w) (d\<lparr>queue := q\<rparr>, w')"
  by (auto simp: guard_cancel_def intro!: runs_step do_clear_event)

text \<open>A receive buffer bounds what is read from a socket.\<close>

definition input_fits :: "handler_input \<Rightarrow> bool" where
  "input_fits inp \<longleftrightarrow> (\<forall>(a, x) \<in> set (in_udp inp). length x \<le> MAX_UDP_SIZE) \<and> (\<forall>x \<in> set (in_conn inp). length x \<le> MAX_UDP_SIZE)"

lemma run_handler_runs:
  assumes "run_handler hex L ifc (ev_handler ev) inp d w = Some (a, d', w')" "input_fits inp"
    "Some ev \<in> set (events (queue d))"
  shows "runs L (d, w) (d', w')"
proof (cases "ev_handler ev")
  case (UdpHandler udp)
  then show ?thesis using assms by (auto simp: input_fits_def bind_eq_Some_conv intro!: runs_step run_udp)
next
  case (ConnHandler i udp adr)
  then obtain crest where "conn_handler L ifc i udp adr (in_conn inp) w = Some (a, crest, w')" "d' = d"
    using assms(1) by (auto simp: bind_eq_Some_conv)
  then show ?thesis
    using run_conn [OF assms(3) ConnHandler, of "in_conn inp"] assms(2) by (auto simp: input_fits_def intro!: runs_step)
qed (use assms(1) in \<open>auto simp: bind_eq_Some_conv api_listener_handler_def api_fd_handler_def
  split: prod.splits option.splits intro: runs_step run_limiter_timer run_peers_timer run_iface trigger_exit_runs
  dest: api_command_runs monitor_handler_runs\<close>)

lemma wait_registered:
  "wait q report = Some (WaitOk ev) \<Longrightarrow> Some ev \<in> set (events q)"
  by (auto simp: wait_def slot_def bind_eq_Some_conv split: wait_report.splits if_splits dest: nth_mem)

lemma event_loop_runs:
  "event_loop hex L ifc es d w = Some (stopped, d', w') \<Longrightarrow> \<forall>e \<in> set es. input_fits (snd e) \<Longrightarrow> runs L (d, w) (d', w')"
proof (induction es arbitrary: d w)
  case (Cons e es)
  obtain report inp where e: "e = (report, inp)" by (cases e)
  obtain r where r: "wait (queue d) report = Some r" using Cons.prems(1) by (auto simp: e bind_eq_Some_conv)
  show ?case
  proof (cases r)
    case (WaitOk ev)
    obtain a d1 w1 where h: "run_handler hex L ifc (ev_handler ev) inp d w = Some (a, d1, w1)"
      and q: "(case a of Exit \<Rightarrow> do { w \<leftarrow> trigger_exit d1 w1; w \<leftarrow> guard_drop ev w; Some (True, d1, w) }
        | _ \<Rightarrow> do { w \<leftarrow> guard_drop ev w1; event_loop hex L ifc es d1 w }) = Some (stopped, d', w')"
      using Cons.prems(1) r WaitOk by (auto simp: e bind_eq_Some_conv)
    have h1: "runs L (d, w) (d1, w1)"
      using run_handler_runs [OF h] Cons.prems(2) wait_registered [OF r [unfolded WaitOk]] by (simp add: e)
    show ?thesis
    proof (cases "a = Exit")
      case True
      then show ?thesis using q trigger_exit_runs [OF h1] by (auto simp: bind_eq_Some_conv intro: guard_drop_runs)
    next
      case False
      then obtain w2 where g: "guard_drop ev w1 = Some w2" and l: "event_loop hex L ifc es d1 w2 = Some (stopped, d', w')"
        using q by (cases a) (auto simp: bind_eq_Some_conv)
      have "runs L (d1, w2) (d', w')" using Cons.IH [OF l] Cons.prems(2) by simp
      with guard_drop_runs [OF h1 g] show ?thesis by (rule rtranclp_trans)
    qed
  next
    case (WaitEoF ev)
    have d: "runs L (d, w) (d, w)" by simp
    show ?thesis
    proof (cases "0 \<le> cfg_uapi_fd (dev_config d) \<and> cfg_uapi_fd (dev_config d) = ev_fd ev")
      case True
      then show ?thesis
        using Cons.prems r WaitEoF trigger_exit_runs [OF d] by (auto simp: e bind_eq_Some_conv intro: guard_drop_runs)
    next
      case False
      then obtain q w1 where g: "guard_cancel (queue d) ev w = Some (q, w1)"
        and l: "event_loop hex L ifc es (d\<lparr>queue := q\<rparr>) w1 = Some (stopped, d', w')"
        using Cons.prems(1) r WaitEoF by (auto simp: e bind_eq_Some_conv)
      have "runs L (d\<lparr>queue := q\<rparr>, w1) (d', w')" using Cons.IH [OF l] Cons.prems(2) by simp
      with guard_cancel_runs [OF g] show ?thesis by (rule rtranclp_trans)
    qed
  next
    case WaitError
    then show ?thesis using Cons.prems r Cons.IH by (simp add: e)
  qed
qed simp

section \<open>Construction\<close>

text \<open>The result of registering, whether it succeeds or not.\<close>

lemma register_runs:
  "in_queue d (register_event (queue d) ev w) = (r, d', w') \<Longrightarrow> conn_peer (ev_handler ev) = None \<Longrightarrow> runs L s (d, w)
     \<Longrightarrow> runs L s (d', w')"
  by (auto simp: in_queue_def split: prod.splits intro: runs_snoc do_register)

lemma not_registered_runs: "in_queue d (x, queue d, w) = (r, d', w') \<Longrightarrow> runs L s (d, w) \<Longrightarrow> runs L s (d', w')"
  by (auto simp: in_queue_def)

lemma new_event_runs:
  "in_queue d (new_event (queue d) fd h w) = (r, d', w') \<Longrightarrow> conn_peer h = None \<Longrightarrow> runs L s (d, w) \<Longrightarrow> runs L s (d', w')"
  unfolding new_event_def by (erule register_runs) simp_all

lemma new_signal_event_runs:
  "in_queue d (new_signal_event (queue d) sig h w) = (r, d', w') \<Longrightarrow> conn_peer h = None \<Longrightarrow> runs L s (d, w) \<Longrightarrow> runs L s (d', w')"
  by (auto simp: new_signal_event_def Let_def split_beta split: if_splits
      intro!: os_runs elim!: register_runs not_registered_runs)

lemma new_periodic_event_runs:
  "in_queue d (new_periodic_event (queue d) h t w) = (r, d', w') \<Longrightarrow> conn_peer h = None \<Longrightarrow> runs L s (d, w) \<Longrightarrow> runs L s (d', w')"
  by (auto simp: new_periodic_event_def Let_def split_beta split: if_splits
      intro!: os_runs elim!: register_runs not_registered_runs)

lemma then_try_runs:
  assumes "then_try x f = (r, d', w')" and "\<And>r d w. x = (r, d, w) \<Longrightarrow> runs L s (d, w)"
    and "\<And>d w. runs L s (d, w) \<Longrightarrow> f d w = (r, d', w') \<Longrightarrow> runs L s (d', w')"
  shows "runs L s (d', w')"
  using assms by (cases x; cases "fst x") (auto simp: then_try_def)

lemma signal_handlers_runs:
  "runs L s (d, w) \<Longrightarrow> register_api_signal_handlers d w = (r, d', w') \<Longrightarrow> runs L s (d', w')"
  unfolding register_api_signal_handlers_def by (erule then_try_runs) (auto elim!: new_signal_event_runs)

lemma register_api_runs:
  assumes r: "register_api_handler ids d w = (r, d', w')" and s: "runs L s (d, w)"
  shows "runs L s (d', w')"
proof -
  define path where "path = SOCK_DIR @ ascii ''/'' @ iface_name d @ ascii ''.sock''"
  define w1 where "w1 = snd (os_call (RemoveFile path) (create_sock_dir ids w))"
  define fd where "fd = fst (os_call (UnixBind path) w1)"
  define w2 where "w2 = snd (os_call (UnixBind path) w1)"
  have w2: "runs L s (d, w2)"
    unfolding w2_def w1_def create_sock_dir_def Let_def using s by (auto split: result.splits prod.splits intro!: os_runs)
  have e: "register_api_handler ids d w =
      (if fd = -1 then (Err ApiSocket, d, w2)
       else let d = d\<lparr>cleanup_paths := cleanup_paths d @ [path]\<rparr>
       in then_try (in_queue d (new_event (queue d) fd (ApiListener fd) w2))
            (\<lambda>d w. then_try (register_monitor path d w) register_api_signal_handlers))"
    by (simp add: register_api_handler_def path_def w1_def fd_def w2_def Let_def split_beta)
  show ?thesis
  proof (cases "fd = -1")
    case True
    then show ?thesis using r e w2 by simp
  next
    case False
    let ?d = "d\<lparr>cleanup_paths := cleanup_paths d @ [path]\<rparr>"
    have d: "runs L s (?d, w2)" by (rule runs_snoc [OF w2 do_cleanup])
    have t: "then_try (in_queue ?d (new_event (queue ?d) fd (ApiListener fd) w2))
            (\<lambda>d w. then_try (register_monitor path d w) register_api_signal_handlers) = (r, d', w')"
      using r False unfolding e Let_def by simp
    show ?thesis
    proof (rule then_try_runs [OF t])
      fix d1 w1 assume d1: "runs L s (d1, w1)" and m: "then_try (register_monitor path d1 w1) register_api_signal_handlers = (r, d', w')"
      show "runs L s (d', w')"
        by (rule then_try_runs [OF m])
          (use d1 in \<open>auto simp: register_monitor_def elim!: new_periodic_event_runs intro: signal_handlers_runs\<close>)
    next
      fix r d1 w1 assume "in_queue ?d (new_event (queue ?d) fd (ApiListener fd) w2) = (r, d1, w1)"
      then show "runs L s (d1, w1)" by (rule new_event_runs) (simp_all add: d)
    qed
  qed
qed

lemma register_all_runs:
  assumes r: "register_all ids d w = (r, d', w')" and s: "runs L s (d, w)"
  shows "runs L s (d', w')"
proof (rule then_try_runs [OF r [unfolded register_all_def]])
  fix r d1 w1
  assume "(if 0 \<le> cfg_uapi_fd (dev_config d) then register_api_fd (cfg_uapi_fd (dev_config d)) d w
    else register_api_handler ids d w) = (r, d1, w1)"
  then show "runs L s (d1, w1)"
    using s by (auto simp: register_api_fd_def split: if_splits elim!: new_event_runs intro: register_api_runs)
next
  fix d1 w1
  assume d1: "runs L s (d1, w1)"
    and t: "then_try (register_iface_handler d1 (iface d1) w1) (\<lambda>d w. then_try (register_notifiers d w) register_timers) = (r, d', w')"
  show "runs L s (d', w')"
  proof (rule then_try_runs [OF t])
    fix d2 w2 assume d2: "runs L s (d2, w2)" and n: "then_try (register_notifiers d2 w2) register_timers = (r, d', w')"
    show "runs L s (d', w')"
      by (rule then_try_runs [OF n]) (use d2 in \<open>blast intro: runs_snoc do_notifiers do_timers\<close>)+
  qed (use d1 in \<open>blast intro: runs_snoc do_iface\<close>)
qed

lemma EventPoll_new_world:
  "EventPoll_new w = (r, w') \<Longrightarrow> tw w' = tw w \<and> peer_store w' = peer_store w \<and> (\<forall>q. r = Ok q \<longrightarrow> events q = [])"
  by (auto simp: EventPoll_new_def Let_def split_beta split: if_splits)

lemma open_tun_world: "open_tun name w = (r, w') \<Longrightarrow> tw w' = tw w \<and> peer_store w' = peer_store w"
  by (auto simp: open_tun_def TunSocket_new_def set_non_blocking_def TunSocket_drop_def Let_def split_beta
      split: if_splits option.splits)

lemma tun_mtu_world: "tun_mtu name w = Some (r, w') \<Longrightarrow> tw w' = tw w \<and> peer_store w' = peer_store w"
  by (auto simp: tun_mtu_def Let_def split_beta split: if_splits)

lemma random_index_clock:
  fixes w :: "'a world_scheme"
  assumes r: "random_index w = Some (i, w')"
  shows "clock w' = clock w"
proof -
  have "clock (snd (i, w')) = clock w"
  proof (rule random_index.raw_induct [OF _ r, where P = "\<lambda>w r. clock (snd r) = clock w"])
    fix f :: "'a world_scheme \<Rightarrow> (u32 \<times> 'a world_scheme) option" and w :: "'a world_scheme" and y
    have "clock (snd (OsRng_next_u32 w)) = clock w" by (simp add: OsRng_next_u32_def OsRng_bytes_def Let_def)
    moreover assume "\<And>w y. f w = Some y \<Longrightarrow> clock (snd y) = clock w"
      and "(let (r, w) = OsRng_next_u32 w; i = r AND LFSR_MAX in if 0 < i then Some (i, w) else f w) = Some y"
    ultimately show "clock (snd y) = clock w" by (auto simp: Let_def split: prod.splits if_splits)
  qed
  then show ?thesis by simp
qed

lemma Device_new_reachable:
  fixes w :: "'a dev_world"
  assumes n: "Device_new L ids name conf w = Some (Ok d, w')" and m: "monotone_clock (tw w)" and p: "peer_store w = []"
  shows "dev_reachable L (d, w')"
proof -
  let ?new = "EventPoll_new w :: (Handler EventPoll, Error) result \<times> 'a dev_world"
  obtain poll w1 where e: "?new = (Ok poll, w1)"
    using n by (cases ?new; cases "fst ?new") (auto simp: Device_new_def)
  obtain t w2 where t: "open_tun name w1 = (Ok t, w2)"
    using n e by (cases "open_tun name w1"; cases "fst (open_tun name w1)") (auto simp: Device_new_def)
  obtain x w3 where x: "tun_mtu (tun_name t) w2 = Some (x, w3)"
    using n e t by (auto simp: Device_new_def bind_eq_Some_conv)
  then obtain k where k: "tun_mtu (tun_name t) w2 = Some (Ok k, w3)"
    using n e t by (cases x) (auto simp: Device_new_def)
  obtain l v where l: "IndexLfsr_default (tw w3) = Some (l, v)"
    using n e t k by (auto simp: Device_new_def bind_eq_Some_conv)
  obtain r d' w4 where r: "register_all ids (Device_init L poll (tun_fd t) (tun_name t) k conf l) (w3\<lparr>tw := v\<rparr>) = (r, d', w4)"
    by (rule prod_cases3)
  then have d: "(case r of Ok _ \<Rightarrow> Ok d' | Err e \<Rightarrow> Err e) = Ok d" and w4: "w4 = w'"
    using n e t k l by (auto simp: Device_new_def)
  obtain ep where q: "poll = \<lparr>events = [], epoll = ep\<rparr>" using EventPoll_new_world [OF e] by (cases poll) simp
  have "clock v = clock (tw w)" and ps: "peer_store w3 = []"
    using l EventPoll_new_world [OF e] open_tun_world [OF t] tun_mtu_world [OF k] p
    by (auto simp: IndexLfsr_default_def bind_eq_Some_conv dest!: random_index_clock)
  then have "dev_start L (Device_init L poll (tun_fd t) (tun_name t) k conf l, w3\<lparr>tw := v\<rparr>)"
    using m l unfolding dev_start_def q by (simp add: monotone_clock_def) blast
  moreover have "d' = d" using d by (cases r) auto
  moreover note w4
  ultimately show ?thesis
    using register_all_runs [OF r rtranclp.rtrancl_refl] by (auto simp: dev_reachable_def)
qed

lemma DeviceHandle_new_reachable:
  assumes n: "DeviceHandle_new L ids name conf w = Some (Ok d, w')" and m: "monotone_clock (tw w)" and p: "peer_store w = []"
  shows "dev_reachable L (d, w')"
proof -
  obtain x w1 where x: "Device_new L ids name conf w = Some (x, w1)"
    using n by (auto simp: DeviceHandle_new_def bind_eq_Some_conv)
  then obtain d1 where d1: "Device_new L ids name conf w = Some (Ok d1, w1)"
    using n by (cases x) (auto simp: DeviceHandle_new_def)
  obtain r d2 where o: "open_listen_socket L d1 0 w1 = Some (r, d2, w')"
    and c: "(case r of Ok _ \<Rightarrow> Ok d2 | Err e \<Rightarrow> Err e) = Ok d"
    using n d1 by (auto simp: DeviceHandle_new_def bind_eq_Some_conv)
  have "d2 = d" using c by (cases r) auto
  then show ?thesis
    using Device_new_reachable [OF d1 m p] do_listen [OF o] unfolding dev_reachable_def by (blast intro: runs_snoc)
qed

text \<open>
  C6.  The device stays well formed.  After a device has been constructed, whatever the queue of events reports to
  the loop, whatever datagrams and packets arrive and whatever text is written to the configuration socket, the
  device is in a state reached by its operations: every index and every allowed address belongs to a configured peer,
  the tunnels keep their invariant, and a connected socket serves an existing peer.
\<close>

theorem event_loop_well_formed:
  assumes L: "libs_laws L" and n: "DeviceHandle_new L ids name conf w = Some (Ok d, w1)"
    and m: "monotone_clock (tw w)" and p: "peer_store w = []" and f: "\<forall>e \<in> set es. input_fits (snd e)"
    and l: "event_loop hex L ifc es d w1 = Some (stopped, d', w')"
  shows "dev_reachable L (d', w') \<and> dev_inv L d' w'"
proof -
  have "dev_reachable L (d', w')"
    using DeviceHandle_new_reachable [OF n m p] event_loop_runs [OF l f] unfolding dev_reachable_def
    by (blast intro: rtranclp_trans)
  with reachable_inv [OF L this] show ?thesis by simp
qed

section \<open>A sample run\<close>

definition sample_boot :: "(net, unit) alist dev_world" where
  "sample_boot = sample_dw\<lparr>tw := sample_tw1\<rparr>"

definition sample_conf :: DeviceConfig where
  "sample_conf = DeviceConfig_default\<lparr>cfg_uapi_fd := 9\<rparr>"

definition sample_events :: "(wait_report \<times> handler_input) list" where
  "sample_events = [(WaitFailed, \<lparr>in_udp = [], in_conn = [], in_iface = [], in_api = None\<rparr>),
     (Triggered 9 False, \<lparr>in_udp = [], in_conn = [], in_iface = [],
       in_api = Some \<lparr>input = ascii ''set=1'' @ 10 # ascii ''fwmark=9'' @ [10, 10], broken = False\<rparr>\<rparr>)]"

text \<open>Evaluation of the arguments first.\<close>

lemma bind_weak_cong: "x = y \<Longrightarrow> Option.bind x f = Option.bind y f"
  by simp

lemma then_try_weak_cong: "x = y \<Longrightarrow> then_try x f = then_try y f"
  by simp

lemma then_try_pair [simp]: "then_try (Ok u, d, w) f = f d w" "then_try (Err e, d, w) f = (Err e, d, w)"
  by (simp_all add: then_try_def)

lemmas run_congs = let_weak_cong bind_weak_cong then_try_weak_cong if_weak_cong

lemmas boot_defs = DeviceHandle_new_def Device_new_def EventPoll_new_def open_tun_def TunSocket_new_def set_non_blocking_def
  tun_mtu_def register_all_def register_api_fd_def in_queue_def register_iface_handler_def register_notifiers_def
  new_notifier_def register_timers_def new_periodic_event_def open_listen_socket_def close_udp_def bind_sockets_def
  udp_socket_def os_call_def register_sockets_def register_clone_def register_udp_handler_def new_event_def register_event_def
  insert_at_def fd_index_def Let_def

lemmas run_defs = wait_def slot_def registered_def fd_index_def api_fd_handler_def api_command_def api_set_def
  trigger_yield_def cancel_yield_def trigger_notification_def stop_notification_def api_set_loop.simps set_field_def
  set_fwmark_def conns_def os_call_def guard_drop_def Let_def

lemma sample_numbers: "parse_i32 (ascii ''5'') = Some 5" "parse_u32 (ascii ''9'') = Some 9"
  by (simp_all add: parse_i32_def parse_u32_def from_str_radix_def to_digit_def ascii_def of_char_def Let_def)

lemma sample_booted:
  "\<exists>d w. DeviceHandle_new sample_libs (Err DropPrivileges) (ascii ''5'') sample_conf sample_boot = Some (Ok d, w) \<and>
     peers d = [] \<and> udp4 d = Some 18 \<and> udp6 d = Some 23 \<and> yield_notice d = Some 8 \<and>
     (\<exists>ev. registered (queue d) 8 = Some ev \<and> ev_notifier ev) \<and>
     (\<exists>ev. registered (queue d) 9 = Some ev \<and> ev_handler ev = ApiFd 9 \<and> \<not> ev_needs_read ev) \<and> os w = int"
  by (simp add: boot_defs sample_boot_def sample_conf_def DeviceConfig_default_def sample_dw_def sample_lfsr
      Device_init_def sample_libs_def sample_numbers nth_append registered_def cong: run_congs)

lemma sample_lines:
  "read_line \<lparr>input = ascii ''set=1'' @ 10 # ascii ''fwmark=9'' @ [10, 10], broken = False\<rparr> =
     (Some (ascii ''set=1'' @ [10]), \<lparr>input = ascii ''fwmark=9'' @ [10, 10], broken = False\<rparr>)"
  "read_line \<lparr>input = ascii ''fwmark=9'' @ [10, 10], broken = False\<rparr> =
     (Some (ascii ''fwmark=9'' @ [10]), \<lparr>input = [10], broken = False\<rparr>)"
  "read_line \<lparr>input = [10], broken = False\<rparr> = (Some [10], \<lparr>input = [], broken = False\<rparr>)"
  "pop (ascii ''set=1'' @ [10]) = ascii ''set=1''" "pop (ascii ''fwmark=9'' @ [10]) = ascii ''fwmark=9''"
  "pop [10] = []" "split_on 61 (ascii ''fwmark=9'') = [ascii ''fwmark'', ascii ''9'']" "ascii ''fwmark=9'' \<noteq> []"
  "ascii ''set=1'' \<noteq> ascii ''get=1''" "ascii ''fwmark'' \<noteq> ascii ''private_key''" "ascii ''fwmark'' \<noteq> ascii ''listen_port''"
  by code_simp+

lemma sample_run:
  assumes "peers d = []" "udp4 d = Some 18" "udp6 d = Some 23" "yield_notice d = Some 8" "registered (queue d) 8 = Some e"
    "ev_notifier e" "registered (queue d) 9 = Some ev" "ev_handler ev = ApiFd 9" "\<not> ev_needs_read ev" "os w = int"
  shows "\<exists>d' w'. event_loop hex sample_libs 5 sample_events d w = Some (False, d', w') \<and> fwmark d' = Some 9"
  using assms
  by (simp add: sample_events_def sample_libs_def sample_lines sample_numbers run_defs split: if_splits cong: run_congs)

theorem event_loop_well_formed_witness:
  "\<exists>d w d' w'. DeviceHandle_new sample_libs (Err DropPrivileges) (ascii ''5'') sample_conf sample_boot = Some (Ok d, w) \<and>
     event_loop (\<lambda>s. s) sample_libs 5 sample_events d w = Some (False, d', w') \<and> fwmark d' = Some 9 \<and>
     dev_inv sample_libs d' w'"
proof -
  obtain d w e ev where b: "DeviceHandle_new sample_libs (Err DropPrivileges) (ascii ''5'') sample_conf sample_boot = Some (Ok d, w)"
    and f: "peers d = []" "udp4 d = Some 18" "udp6 d = Some 23" "yield_notice d = Some 8" "registered (queue d) 8 = Some e"
      "ev_notifier e" "registered (queue d) 9 = Some ev" "ev_handler ev = ApiFd 9" "\<not> ev_needs_read ev" "os w = int"
    using sample_booted by blast
  obtain d' w' where l: "event_loop (\<lambda>s. s) sample_libs 5 sample_events d w = Some (False, d', w')" "fwmark d' = Some 9"
    using sample_run [OF f] by blast
  have "monotone_clock (tw sample_boot)" "peer_store sample_boot = []"
    using sample_world_monotone [of 1]
    by (simp_all add: sample_boot_def sample_dw_def sample_tw1_def monotone_clock_def world.defs)
  from event_loop_well_formed [OF sample_libs_laws b this _ l(1)] have "dev_inv sample_libs d' w'"
    by (simp add: sample_events_def input_fits_def)
  with b l show ?thesis by blast
qed

end
