(* ===== verification/ApiProperties.thy ===== *)
theory ApiProperties
  imports Api
begin

text \<open>
  What the configuration protocol prints it can read, and what a transaction with several peers does.
\<close>

section \<open>Numbers and lines\<close>

lemma show_nat_digits: "set (show_nat n) \<subseteq> {48..57} \<and> show_nat n \<noteq> []"
proof (induction n rule: show_nat.induct)
  case (1 n)
  have "(48 :: u8) + of_nat k \<in> {48..57}" if "k < 10" for k :: nat
  proof -
    have "k \<in> set [0..<10]" using that by simp
    moreover have "\<forall>k \<in> set [0..<10]. (48 :: u8) + of_nat k \<in> {48..57}" by code_simp
    ultimately show ?thesis by blast
  qed
  then have "(48 :: u8) + of_nat (n mod 10) \<in> {48..57}" by simp
  with 1 [OF refl] show ?case by (subst (1 2) show_nat.simps) (auto simp: Let_def)
qed

lemma digit_value: "n < 10 \<Longrightarrow> to_digit 10 (48 + of_nat n) = Some n"
proof -
  assume "n < 10"
  then have "n \<in> set [0..<10]" by simp
  moreover have "\<forall>k \<in> set [0..<10]. to_digit 10 (48 + of_nat k) = Some k" by code_simp
  ultimately show ?thesis by blast
qed

lemma read_digits_append:
  "read_digits mx r acc (xs @ ys) = Option.bind (read_digits mx r acc xs) (\<lambda>v. read_digits mx r v ys)"
  by (induction xs arbitrary: acc) (auto simp: Let_def split: bind_splits)

lemma read_show_nat: "n \<le> mx \<Longrightarrow> read_digits mx 10 0 (show_nat n) = Some n"
proof (induction n rule: show_nat.induct)
  case (1 n)
  have d: "read_digits mx 10 v [48 + of_nat (n mod 10)] = Some (v * 10 + n mod 10)" if "v * 10 + n mod 10 \<le> mx" for v
    using that by (simp add: digit_value)
  show ?case
  proof (cases "n div 10 = 0")
    case True
    then show ?thesis using d [of 0] "1.prems" by (subst show_nat.simps) (simp add: Let_def)
  next
    case False
    then have "read_digits mx 10 0 (show_nat (n div 10)) = Some (n div 10)" using 1 by simp
    then show ?thesis
      using False d [of "n div 10"] "1.prems" by (subst show_nat.simps) (simp add: Let_def read_digits_append)
  qed
qed

lemma parse_show_nat: "n \<le> mx \<Longrightarrow> from_str_radix mx 10 (show_nat n) = Some n"
  using read_show_nat [of n mx] show_nat_digits [of n] by (cases "show_nat n") (auto simp: from_str_radix_def)

lemma parse_show_word:
  "parse_u16 (show_word p) = Some p" "parse_u32 (show_word m) = Some m"
  using unat_bound [of p] unat_bound [of m] by (simp_all add: parse_u16_def parse_u32_def show_word_def parse_show_nat)

text \<open>Text that can stand between the separators of a line.\<close>

definition plain :: "bytes \<Rightarrow> bool" where
  "plain s \<longleftrightarrow> is_ascii s \<and> 10 \<notin> set s \<and> 61 \<notin> set s"

lemma plain_show_word: "plain (show_word x)"
proof -
  have "\<forall>b \<in> {48..57 :: u8}. b < 128 \<and> b \<noteq> 10 \<and> b \<noteq> 61" by (auto simp: word_le_nat_alt word_less_nat_alt)
  then show ?thesis using show_nat_digits [of "unat x"] by (auto simp: plain_def is_ascii_def show_word_def)
qed

lemma plain_to_lower_hex: "plain (to_lower_hex k)"
proof -
  have "\<forall>n \<in> set (map of_nat [0..<16]). to_char n \<noteq> 10 \<and> to_char n \<noteq> 61" by code_simp
  then have "n < 16 \<Longrightarrow> to_char n \<noteq> 10 \<and> to_char n \<noteq> 61" for n using nibbleE by blast
  then have "10 \<notin> set (to_lower_hex k) \<and> 61 \<notin> set (to_lower_hex k)"
    unfolding to_lower_hex_def using byte_nibbles(1,2) by (auto simp: eq_commute [of "10 :: u8"] eq_commute [of "61 :: u8"])
  then show ?thesis using to_lower_hex_ascii by (simp add: plain_def)
qed

lemma read_line_ascii:
  assumes "is_ascii l" "10 \<notin> set l"
  shows "read_line \<lparr>input = l @ 10 # rest, broken = b\<rparr> = (Some (l @ [10]), \<lparr>input = rest, broken = b\<rparr>)"
proof -
  have "takeWhile (\<lambda>b. b \<noteq> 10) (l @ 10 # rest) = l" using assms(2) by (induction l) auto
  moreover have "valid_utf8 (l @ [10])" using assms(1) by (auto simp: is_ascii_def intro: ascii_valid_utf8)
  ultimately show ?thesis by (simp add: read_line_def Let_def)
qed

lemma pop_newline [simp]: "pop (l @ [10]) = l" "pop [10] = []"
  by (simp_all add: pop_def is_cont_def)

lemma read_field:
  assumes "plain (ascii k)" "is_ascii v" "10 \<notin> set v"
  shows "read_line \<lparr>input = field k v @ rest, broken = b\<rparr> = (Some (ascii k @ 61 # v @ [10]), \<lparr>input = rest, broken = b\<rparr>)"
  using read_line_ascii [of "ascii k @ 61 # v" rest b] assms by (auto simp: field_def plain_def is_ascii_def)

lemma pop_field [simp]: "pop (ascii k @ 61 # v @ [10]) = ascii k @ 61 # v"
  using pop_newline(1) [of "ascii k @ 61 # v"] by simp

lemma set_loop_field:
  assumes k: "plain (ascii k)" and v: "plain v"
  shows "api_set_loop L \<lparr>input = field k v @ rest, broken = b\<rparr> d w = do {
      (res, d, w) \<leftarrow> set_field L (ascii k) v d w;
      case res of
        Proceed \<Rightarrow> api_set_loop L \<lparr>input = rest, broken = b\<rparr> d w
      | Return status \<Rightarrow> Some (status, d, w)
      | PeerSection k \<Rightarrow> api_set_peer L \<lparr>input = rest, broken = b\<rparr> (section_start k) d w }"
proof -
  have "split_on 61 (ascii k @ 61 # v) = [ascii k, v]" using k v by (simp add: plain_def split_on_once)
  with read_field [OF k, of v rest b] v show ?thesis by (subst api_set_loop.simps) (simp add: plain_def Let_def)
qed

lemma set_loop_end: "api_set_loop L \<lparr>input = 10 # rest, broken = b\<rparr> d w = Some (0, d, w)"
  using read_line_ascii [of "[]" rest b] by (subst api_set_loop.simps) (simp add: is_ascii_def)

lemma set_peer_field:
  assumes k: "plain (ascii k)" and v: "is_ascii v" "10 \<notin> set v"
  shows "api_set_peer L \<lparr>input = field k v @ rest, broken = b\<rparr> sec d w = do {
      (res, d, w) \<leftarrow> peer_field L sec (ascii k) v d w;
      case res of Ok sec \<Rightarrow> api_set_peer L \<lparr>input = rest, broken = b\<rparr> sec d w | Err status \<Rightarrow> Some (status, d, w) }"
proof -
  have "splitn2 61 (ascii k @ 61 # v) = [ascii k, v]" using k by (simp add: plain_def splitn2_once)
  with read_field [OF k v, of rest b] show ?thesis by (subst api_set_peer.simps) (simp add: Let_def)
qed

lemma set_peer_end:
  "api_set_peer L \<lparr>input = 10 # rest, broken = b\<rparr> sec d w = do { (_, d, w) \<leftarrow> commit_section L sec d w; Some (0, d, w) }"
  using read_line_ascii [of "[]" rest b] by (subst api_set_peer.simps) (simp add: is_ascii_def)

lemma set_keys:
  "plain (ascii ''private_key'')" "plain (ascii ''listen_port'')" "plain (ascii ''fwmark'')" "plain (ascii ''remove'')"
  "plain (ascii ''public_key'')"
  "ascii ''listen_port'' \<noteq> ascii ''private_key''" "ascii ''fwmark'' \<noteq> ascii ''private_key''"
  "ascii ''fwmark'' \<noteq> ascii ''listen_port''" "ascii ''public_key'' \<noteq> ascii ''remove''"
  "ascii ''public_key'' \<noteq> ascii ''preshared_key''" "ascii ''public_key'' \<noteq> ascii ''endpoint''"
  "ascii ''public_key'' \<noteq> ascii ''persistent_keepalive_interval''" "ascii ''public_key'' \<noteq> ascii ''replace_allowed_ips''"
  "ascii ''public_key'' \<noteq> ascii ''allowed_ip''" "parse_bool (ascii ''true'') = Some True"
  by code_simp+

section \<open>Reading back what get prints\<close>

lemma bind_sockets_port:
  assumes "bind_sockets d port w = Some (Ok u, d', w')" "port \<noteq> 0"
  shows "listen_port d' = port \<and> key_pair d' = key_pair d"
proof -
  obtain r4 w1 where u4: "udp_socket ''IPV4'' (replicate 4 0) port w = (r4, w1)" by force
  obtain r6 w2 where u6: "udp_socket ''IPV6'' (replicate 16 0) port w1 = (r6, w2)" by force
  have "uint port \<noteq> -1" using uint_nonnegative [of port] by linarith
  then obtain s4 s6 where "register_sockets d s4 s6 port w2 = Some (Ok u, d', w')"
    using assms u4 u6 by (cases r4; cases r6) (auto simp: bind_sockets_def Let_def)
  then have "listen_port d' = port"
    by (auto simp: register_sockets_def Let_def bind_eq_Some_conv split: result.splits) (metis result.exhaust old.unit.exhaust)+
  then show ?thesis using bind_sockets_same [OF assms(1)] by (simp add: same_peers_def same_tables_def)
qed

lemma open_listen_socket_port:
  assumes "open_listen_socket L d port w = Some (Ok u, d', w')" "port \<noteq> 0"
  shows "listen_port d' = port \<and> key_pair d' = key_pair d"
  using assms
  by (auto simp: open_listen_socket_def bind_eq_Some_conv Let_def dest!: close_udp_same bind_sockets_port
      simp: same_peers_def same_tables_def)

lemma set_key_public: "set_key L d sk w = Some (d', w') \<Longrightarrow> map_option snd (key_pair d') = Some (x25519_public (lib_crypto L) sk)"
  by (auto simp: set_key_def Let_def bind_eq_Some_conv simp del: map_option_eq_Some split: if_splits prod.splits)

text \<open>
  C22.  The settings that \<^verbatim>\<open>get\<close> prints can be given to \<^verbatim>\<open>set\<close>.  The text printed for a device without peers, followed
  by an empty line, makes \<^verbatim>\<open>set\<close> apply exactly the printed private key, listen port and mark, in this order, to any
  device, stopping at the first that fails.  When it reports success the two devices have the same public key, the same
  port and the same mark.
\<close>

theorem get_set_round_trip:
  assumes hex: "\<forall>s. hex s = to_lower_hex s" and L: "libs_laws L"
    and k: "key_pair d = Some (sk, x25519_public (lib_crypto L) sk)" "length sk = KEY_SIZE"
    and c: "listen_port d \<noteq> 0" "fwmark d = Some mark" "peers d = []"
    and g: "api_get hex L d w = Some (st, out, w1)"
  shows "api_set_loop L \<lparr>input = out @ [10], broken = b\<rparr> d0 w0 = do {
      (d1, w1) \<leftarrow> set_key L d0 sk w0;
      (r, d2, w2) \<leftarrow> open_listen_socket L d1 (listen_port d) w1;
      case r of Err _ \<Rightarrow> Some (EADDRINUSE, d2, w2)
      | Ok _ \<Rightarrow> let (r, d3, w3) = set_fwmark L d2 mark w2
          in Some (case r of Ok _ \<Rightarrow> 0 | Err _ \<Rightarrow> EADDRINUSE, d3, w3) } \<and>
    (\<forall>d' w'. api_set_loop L \<lparr>input = out @ [10], broken = b\<rparr> d0 w0 = Some (0, d', w') \<longrightarrow>
      map_option snd (key_pair d') = map_option snd (key_pair d) \<and> listen_port d' = listen_port d \<and> fwmark d' = fwmark d)"
    (is "?loop = ?ops \<and> _")
proof -
  have "hash_order L [] = []" using L by (metis libs_laws_def mset_zero_iff)
  then have out: "out = field ''private_key'' (to_lower_hex sk) @ field ''listen_port'' (show_word (listen_port d)) @
      field ''fwmark'' (show_word mark)"
    using g k c hex by (simp add: api_get_def opt_field_def)
  have kb: "KeyBytes_from_str (lib_base64 L) (to_lower_hex sk) = Some (Ok sk)"
    using parse_hex_printed [of 0 sk "replicate KEY_SIZE 0"] k(2) by (simp add: KeyBytes_from_str_def KEY_SIZE_def)
  have "?loop = ?ops"
    unfolding out append_assoc
    by (simp add: set_loop_field set_loop_end set_keys plain_show_word plain_to_lower_hex set_field_def kb parse_show_word
        Let_def split_beta split: bind_splits result.splits)
  moreover have "map_option snd (key_pair d') = map_option snd (key_pair d) \<and> listen_port d' = listen_port d \<and> fwmark d' = fwmark d"
    if ok: "?ops = Some (0, d', w')" for d' w'
  proof -
    obtain d1 w1 r d2 w2 where s: "set_key L d0 sk w0 = Some (d1, w1)" "open_listen_socket L d1 (listen_port d) w1 = Some (r, d2, w2)"
      using ok by (auto simp: bind_eq_Some_conv)
    then obtain u where u: "r = Ok u" using ok by (cases r) (auto simp: EADDRINUSE_def)
    then have "d' = d2\<lparr>fwmark := Some mark\<rparr>" using ok s by (auto simp: set_fwmark_def Let_def split_beta)
    then show ?thesis using open_listen_socket_port [OF s(2) [unfolded u] c(1)] set_key_public [OF s(1)] k(1) c(2) by simp
  qed
  ultimately show ?thesis by simp
qed

lemma sample_set_key:
  "\<exists>m v. set_key sample_libs sample_dev sk sample_dw =
     Some (sample_dev\<lparr>key_pair := Some (sk, x25519_public sample_crypto sk), dev_rate_limiter := Some m\<rparr>, sample_dw\<lparr>tw := v\<rparr>)"
  by (simp add: set_key_def sample_libs_def sample_dev_def Device_init_def Let_def RateLimiter_new_def Arc_new_def split_beta) blast

lemma sample_open_listen:
  assumes "udp4 d = None" "udp6 d = None" "peers d = []" "queue d = \<lparr>events = [], epoll = 0\<rparr>" "os w = int" "os_pos w = 3"
  shows "\<exists>d' w'. open_listen_socket sample_libs d 7 w = Some (Ok (), d', w') \<and> os w' = int \<and> peers d' = [] \<and>
    udp4 d' = Some 3 \<and> udp6 d' = Some 7"
  using assms
  by (simp add: open_listen_socket_def sample_libs_def close_udp_def bind_sockets_def udp_socket_def os_call_def
      register_sockets_def register_clone_def register_udp_handler_def new_event_def register_event_def insert_at_def
      Let_def fd_index_def)

theorem get_set_round_trip_witness:
  "\<exists>d out d' w'. api_get to_lower_hex sample_libs d sample_dw = Some (0, out, sample_dw) \<and>
     api_set_loop sample_libs \<lparr>input = out @ [10], broken = False\<rparr> sample_dev sample_dw = Some (0, d', w') \<and>
     listen_port d' = 7 \<and> fwmark d' = Some 9"
proof -
  define sk where "sk = replicate 32 (1 :: u8)"
  define d where "d = sample_dev\<lparr>key_pair := Some (sk, x25519_public (lib_crypto sample_libs) sk), listen_port := 7, fwmark := Some 9\<rparr>"
  obtain out where g: "api_get to_lower_hex sample_libs d sample_dw = Some (0, out, sample_dw)"
    by (simp add: api_get_def d_def sample_libs_def sample_dev_def Device_init_def)
  obtain m v where s: "set_key sample_libs sample_dev sk sample_dw =
     Some (sample_dev\<lparr>key_pair := Some (sk, x25519_public sample_crypto sk), dev_rate_limiter := Some m\<rparr>, sample_dw\<lparr>tw := v\<rparr>)"
    using sample_set_key by blast
  obtain d2 w2 where o: "open_listen_socket sample_libs
      (sample_dev\<lparr>key_pair := Some (sk, x25519_public sample_crypto sk), dev_rate_limiter := Some m\<rparr>) 7 (sample_dw\<lparr>tw := v\<rparr>) =
      Some (Ok (), d2, w2)" and w2: "os w2 = int" "peers d2 = []" "udp4 d2 = Some 3" "udp6 d2 = Some 7"
    using sample_open_listen [of "sample_dev\<lparr>key_pair := Some (sk, x25519_public sample_crypto sk), dev_rate_limiter := Some m\<rparr>"
      "sample_dw\<lparr>tw := v\<rparr>"] by (auto simp: sample_dev_def Device_init_def sample_dw_def)
  obtain w3 where f: "set_fwmark sample_libs d2 9 w2 = (Ok (), d2\<lparr>fwmark := Some 9\<rparr>, w3)"
    using w2 by (simp add: set_fwmark_def conns_def sample_libs_def os_call_def Let_def)
  have h: "\<forall>s. to_lower_hex s = to_lower_hex s" by simp
  have k: "key_pair d = Some (sk, x25519_public (lib_crypto sample_libs) sk)" "length sk = KEY_SIZE" "listen_port d \<noteq> 0"
    "fwmark d = Some 9" "peers d = []" "listen_port d = 7"
    by (simp_all add: d_def sk_def KEY_SIZE_def sample_dev_def Device_init_def)
  note rt = get_set_round_trip [OF h sample_libs_laws k(1-5) g, of False sample_dev sample_dw]
  have l: "api_set_loop sample_libs \<lparr>input = out @ [10], broken = False\<rparr> sample_dev sample_dw = Some (0, d2\<lparr>fwmark := Some 9\<rparr>, w3)"
    using conjunct1 [OF rt] s o f k(6) by simp
  with conjunct2 [OF rt] k g show ?thesis by (metis (no_types, lifting))
qed

section \<open>Several peers in one transaction\<close>

text \<open>
  C38.  A setting of one peer carries over to the next.  In a transaction that removes a first peer and then names a
  second one without any setting, the second peer is removed as well: the variables of \<^verbatim>\<open>api_set_peer\<close> other than the
  allowed addresses keep their values across \<^verbatim>\<open>public_key\<close> lines.
\<close>

theorem remove_carries_over:
  assumes k: "KeyBytes_from_str (lib_base64 L) val = Some (Ok k2)" and v: "is_ascii val" "10 \<notin> set val"
  shows "api_set_peer L \<lparr>input = field ''remove'' (ascii ''true'') @ field ''public_key'' val @ [10], broken = b\<rparr>
      (section_start k1) d w =
    do { (d1, w1) \<leftarrow> remove_peer L d k1 w; (d2, w2) \<leftarrow> remove_peer L d1 k2 w1; Some (0, d2, w2) }"
proof -
  have t: "is_ascii (ascii ''true'')" "10 \<notin> set (ascii ''true'')" by code_simp+
  show ?thesis
    by (simp add: set_peer_field set_peer_end set_keys v t k peer_field_def parsed_def commit_section_def section_start_def
        update_peer_def split_beta split: bind_splits)
qed

theorem remove_carries_over_witness:
  "\<exists>d w d' w'. dev_reachable sample_libs (d, w) \<and> peers d = [(replicate 32 2, 0)] \<and>
     api_set_peer sample_libs \<lparr>input = field ''remove'' (ascii ''true'') @
       field ''public_key'' (to_lower_hex (replicate 32 2)) @ [10], broken = False\<rparr>
       (section_start (replicate 32 3)) d w = Some (0, d', w') \<and> peers d' = []"
proof (rule sample_peer)
  fix d w
  assume r: "dev_reachable sample_libs (d, w)" and p: "peers d = [(replicate 32 2, 0)]"
    and e: "ep_conn (endpoint (peer_store w ! 0)) = None"
  let ?k = "replicate 32 (2 :: u8)"
  have "KeyBytes_from_str (lib_base64 sample_libs) (to_lower_hex ?k) = Some (Ok ?k)"
    using parse_hex_printed [of 0 ?k "replicate 32 0"] by (simp add: KeyBytes_from_str_def KEY_SIZE_def)
  note c = remove_carries_over [OF this, of False "replicate 32 3" d w]
  have "replicate 32 (3 :: u8) \<noteq> ?k" by simp
  then obtain d' w' where rm: "remove_peer sample_libs d (replicate 32 3) w = Some (d, w)"
      "remove_peer sample_libs d ?k w = Some (d', w')" "peers d' = []"
    using p e by (simp add: remove_peer_def shutdown_endpoint_def Let_def)
  show ?thesis
    by (intro exI conjI, rule r, rule p, rule trans [OF c]) (use rm plain_to_lower_hex [of ?k] in \<open>simp_all add: plain_def\<close>)
qed

end
