(* ===== verification/KQueue.thy ===== *)
theory KQueue
  imports EventPoll
begin

text \<open>
  The registry of pollable events on BSD and macOS (\<^verbatim>\<open>device/kqueue.rs\<close>).  It has three vectors: events under
  their descriptor, timers and notifiers under a running number, and signals under the signal number.

  \<^item> A reference to a timer or notifier is negative.  An identifier of the kernel is a \<^verbatim>\<open>usize\<close>, so a negative number is
    sign-extended on the way in and truncated to 32 bits on the way back.
  \<^item> The flags and filters have the values of macOS.  The pointer that the kernel carries back is the event itself.
  \<^item> A call of \<^verbatim>\<open>kevent\<close> with one change is a system call.  What the kernel does with it is the parameter \<open>armed\<close>,
    with the documented behaviour as \<open>kqueue_laws\<close>.
\<close>

section \<open>State\<close>

datatype EventKind = KindFD | KindNotifier | KindSignal | KindTimer

record kevent =
  kev_ident :: nat
  kev_filter :: int
  kev_flags :: u16
  kev_fflags :: u32
  kev_data :: int

record 'h KqEvent =
  kq_event :: kevent
  kq_handler :: 'h
  kq_kind :: EventKind

record 'h KqPoll =
  kq_events :: "'h KqEvent option list"
  kq_custom :: "'h KqEvent option list"
  kq_signals :: "'h KqEvent option list"
  kq_fd :: int

definition EVFILT_READ :: int where "EVFILT_READ = -1"
definition EVFILT_SIGNAL :: int where "EVFILT_SIGNAL = -6"
definition EVFILT_TIMER :: int where "EVFILT_TIMER = -7"
definition EVFILT_USER :: int where "EVFILT_USER = -10"
definition EV_ADD :: u16 where "EV_ADD = 1"
definition EV_DELETE :: u16 where "EV_DELETE = 2"
definition EV_ENABLE :: u16 where "EV_ENABLE = 4"
definition EV_DISABLE :: u16 where "EV_DISABLE = 8"
definition EV_DISPATCH :: u16 where "EV_DISPATCH = 0x80"
definition NOTE_NSECONDS :: u32 where "NOTE_NSECONDS = 4"
definition NOTE_TRIGGER :: u32 where "NOTE_TRIGGER = 0x01000000"

definition kevent_call :: "kevent \<Rightarrow> 'a os_world_scheme \<Rightarrow> int \<times> 'a os_world_scheme" where
  "kevent_call k w = os_call (Kevent (kev_ident k) (kev_filter k) (kev_flags k) (kev_fflags k) (kev_data k)) w"

text \<open>\<^verbatim>\<open>as RawFd\<close> and \<^verbatim>\<open>as isize\<close>.\<close>

definition as_i32 :: "int \<Rightarrow> int" where
  "as_i32 n = (n + 2 ^ 31) mod 2 ^ 32 - 2 ^ 31"

definition as_i64 :: "int \<Rightarrow> int" where
  "as_i64 n = (n + 2 ^ 63) mod 2 ^ 64 - 2 ^ 63"

section \<open>Registration\<close>

definition kq_new :: "'a os_world_scheme \<Rightarrow> ('h KqPoll, Error) result \<times> 'a os_world_scheme" where
  "kq_new w =
     (let (r, w) = os_call KqueueNew w
      in if r = -1 then (Err EventQueue, w)
         else (Ok \<lparr>kq_events = [], kq_custom = [], kq_signals = [], kq_fd = r\<rparr>, w))"

fun kq_table :: "EventKind \<Rightarrow> 'h KqPoll \<Rightarrow> 'h KqEvent option list" where
  "kq_table KindFD q = kq_events q"
| "kq_table KindSignal q = kq_signals q"
| "kq_table _ q = kq_custom q"

fun kq_store :: "EventKind \<Rightarrow> 'h KqEvent option list \<Rightarrow> 'h KqPoll \<Rightarrow> 'h KqPoll" where
  "kq_store KindFD es q = q\<lparr>kq_events := es\<rparr>"
| "kq_store KindSignal es q = q\<lparr>kq_signals := es\<rparr>"
| "kq_store _ es q = q\<lparr>kq_custom := es\<rparr>"

definition kq_register_event ::
  "'h KqPoll \<Rightarrow> 'h KqEvent \<Rightarrow> 'a os_world_scheme \<Rightarrow> (int, Error) result \<times> 'h KqPoll \<times> 'a os_world_scheme" where
  "kq_register_event q ev w =
     (let events = kq_table (kq_kind ev) q;
          (trigger, index) =
            (if kq_kind ev \<in> {KindFD, KindSignal} then (as_i32 (int (kev_ident (kq_event ev))), kev_ident (kq_event ev))
             else (as_i32 (- as_i32 (int (length events)) - 1), length events));
          events = events @ replicate (Suc index - length events) None;
          ev = ev\<lparr>kq_event := (kq_event ev)\<lparr>kev_ident := fd_index trigger\<rparr>\<rparr>;
          (r, w) = kevent_call ((kq_event ev)\<lparr>kev_flags := kev_flags (kq_event ev) OR EV_ADD\<rparr>) w
      in if r = -1 then (Err EventQueue, kq_store (kq_kind ev) events q, w)
         else
           let w = (case events ! index of
                      Some old \<Rightarrow> snd (kevent_call ((kq_event old)\<lparr>kev_flags := EV_DELETE\<rparr>) w)
                    | None \<Rightarrow> w);
               w = (if kq_kind ev = KindSignal then snd (os_call (IgnoreSignal trigger) w) else w)
           in (Ok trigger, kq_store (kq_kind ev) (events[index := Some ev]) q, w))"

definition kq_new_event ::
  "'h KqPoll \<Rightarrow> int \<Rightarrow> 'h \<Rightarrow> 'a os_world_scheme \<Rightarrow> (int, Error) result \<times> 'h KqPoll \<times> 'a os_world_scheme" where
  "kq_new_event q trigger handler w =
     kq_register_event q \<lparr>kq_event = \<lparr>kev_ident = fd_index trigger, kev_filter = EVFILT_READ,
       kev_flags = EV_ENABLE OR EV_DISPATCH, kev_fflags = 0, kev_data = 0\<rparr>, kq_handler = handler, kq_kind = KindFD\<rparr> w"

text \<open>The two checked operations on \<^verbatim>\<open>u64\<close> are unwrapped.\<close>

definition kq_new_periodic_event ::
  "'h KqPoll \<Rightarrow> 'h \<Rightarrow> nat \<times> nat \<Rightarrow> 'a os_world_scheme
     \<Rightarrow> ((int, Error) result \<times> 'h KqPoll \<times> 'a os_world_scheme) panics" where
  "kq_new_periodic_event q handler period w =
     (let ns = fst period * 1000000000 + snd period
      in if 2 ^ 64 \<le> ns then None
         else Some (kq_register_event q \<lparr>kq_event = \<lparr>kev_ident = 0, kev_filter = EVFILT_TIMER,
           kev_flags = EV_ENABLE OR EV_DISPATCH, kev_fflags = NOTE_NSECONDS, kev_data = as_i64 (int ns)\<rparr>, kq_handler = handler,
           kq_kind = KindTimer\<rparr> w))"

definition kq_new_notifier ::
  "'h KqPoll \<Rightarrow> 'h \<Rightarrow> 'a os_world_scheme \<Rightarrow> (int, Error) result \<times> 'h KqPoll \<times> 'a os_world_scheme" where
  "kq_new_notifier q handler w =
     kq_register_event q \<lparr>kq_event = \<lparr>kev_ident = 0, kev_filter = EVFILT_USER, kev_flags = EV_ENABLE, kev_fflags = 0,
       kev_data = 0\<rparr>, kq_handler = handler, kq_kind = KindNotifier\<rparr> w"

definition kq_new_signal_event ::
  "'h KqPoll \<Rightarrow> int \<Rightarrow> 'h \<Rightarrow> 'a os_world_scheme \<Rightarrow> (int, Error) result \<times> 'h KqPoll \<times> 'a os_world_scheme" where
  "kq_new_signal_event q signal handler w =
     kq_register_event q \<lparr>kq_event = \<lparr>kev_ident = fd_index signal, kev_filter = EVFILT_SIGNAL,
       kev_flags = EV_ENABLE OR EV_DISPATCH, kev_fflags = 0, kev_data = 0\<rparr>, kq_handler = handler, kq_kind = KindSignal\<rparr> w"

section \<open>Notifications, removal and guards\<close>

definition kq_notifier :: "'h KqPoll \<Rightarrow> int \<Rightarrow> 'h KqEvent panics" where
  "kq_notifier q ref =
     (let i = fd_index (as_i32 (- ref - 1))
      in if i < length (kq_custom q) then do {
           event_data \<leftarrow> kq_custom q ! i;
           if kq_kind event_data = KindNotifier then Some event_data else None
         } else None)"

definition kq_trigger_notification :: "'h KqPoll \<Rightarrow> int \<Rightarrow> 'a os_world_scheme \<Rightarrow> 'a os_world_scheme panics" where
  "kq_trigger_notification q ref w = do {
     event_data \<leftarrow> kq_notifier q ref;
     Some (snd (kevent_call ((kq_event event_data)\<lparr>kev_fflags := NOTE_TRIGGER\<rparr>) w))
   }"

definition kq_stop_notification :: "'h KqPoll \<Rightarrow> int \<Rightarrow> 'a os_world_scheme \<Rightarrow> 'a os_world_scheme panics" where
  "kq_stop_notification q ref w = do {
     event_data \<leftarrow> kq_notifier q ref;
     Some (snd (kevent_call ((kq_event event_data)\<lparr>kev_flags := EV_DISABLE, kev_fflags := 0\<rparr>) w))
   }"

definition kq_clear_event_by_fd ::
  "'h KqPoll \<Rightarrow> int \<Rightarrow> 'a os_world_scheme \<Rightarrow> ('h KqPoll \<times> 'a os_world_scheme) panics" where
  "kq_clear_event_by_fd q index w =
     (let kind = (if 0 \<le> index then KindFD else KindNotifier);
          events = kq_table kind q;
          i = (if 0 \<le> index then nat index else fd_index (as_i32 (- index - 1)))
      in if i < length events then
           Some (kq_store kind (events[i := None]) q,
             case events ! i of Some old \<Rightarrow> snd (kevent_call ((kq_event old)\<lparr>kev_flags := EV_DELETE\<rparr>) w) | None \<Rightarrow> w)
         else None)"

text \<open>What \<^verbatim>\<open>kevent\<close> reports when waiting: an error, or an event and whether its end-of-file flag is set.\<close>

datatype 'h kq_report = KqFailed | KqTriggered "'h KqEvent" bool

datatype 'h KqWait = KqOk "'h KqEvent" | KqEoF "'h KqEvent" | KqError

fun kq_wait :: "'h kq_report \<Rightarrow> 'h KqWait" where
  "kq_wait KqFailed = KqError"
| "kq_wait (KqTriggered ev eof) = (if eof then KqEoF ev else KqOk ev)"

definition kq_guard_drop :: "'h KqEvent \<Rightarrow> 'a os_world_scheme \<Rightarrow> 'a os_world_scheme" where
  "kq_guard_drop ev w = snd (kevent_call (kq_event ev) w)"

definition kq_guard_cancel ::
  "'h KqPoll \<Rightarrow> 'h KqEvent \<Rightarrow> 'a os_world_scheme \<Rightarrow> ('h KqPoll \<times> 'a os_world_scheme) panics" where
  "kq_guard_cancel q ev w = kq_clear_event_by_fd q (as_i32 (int (kev_ident (kq_event ev)))) w"

definition kq_guard_fd :: "'h KqEvent \<Rightarrow> int" where
  "kq_guard_fd ev = -1"

section \<open>Notifiers stay usable\<close>

lemma as_i32_id [simp]: "- (2 ^ 31) \<le> n \<Longrightarrow> n < 2 ^ 31 \<Longrightarrow> as_i32 n = n"
  by (simp add: as_i32_def)

lemma fd_index_id [simp]: "0 \<le> n \<Longrightarrow> n < 2 ^ 31 \<Longrightarrow> fd_index n = nat n"
  by (simp add: fd_index_def)

definition kq_good :: "'h KqPoll \<Rightarrow> int \<Rightarrow> bool" where
  "kq_good q ref \<longleftrightarrow> - (2 ^ 31) \<le> ref \<and> ref < 0 \<and> nat (- ref - 1) < length (kq_custom q) \<and>
     (\<exists>ev. kq_custom q ! nat (- ref - 1) = Some ev \<and> kq_kind ev = KindNotifier)"

text \<open>A later registration of any kind, or the removal of another event.\<close>

inductive kq_change :: "int \<Rightarrow> 'h KqPoll \<Rightarrow> 'h KqPoll \<Rightarrow> bool" for ref where
  change_register: "kq_register_event q ev (w :: os_world) = (r, q', w') \<Longrightarrow> kq_change ref q q'"
| change_clear: "kq_clear_event_by_fd q fd (w :: os_world) = Some (q', w') \<Longrightarrow> - (2 ^ 31) \<le> fd \<Longrightarrow> fd \<noteq> ref \<Longrightarrow>
    kq_change ref q q'"

lemma kq_good_notifier: "kq_good q ref \<Longrightarrow> kq_notifier q ref \<noteq> None"
  by (auto simp: kq_good_def kq_notifier_def Let_def)

lemma kq_store_custom [simp]:
  "kq_custom (kq_store k es q) = (if k \<in> {KindFD, KindSignal} then kq_custom q else es)"
  by (cases k) auto

lemma kq_table_custom: "k \<notin> {KindFD, KindSignal} \<Longrightarrow> kq_table k q = kq_custom q"
  by (cases k) auto

lemma kq_register_custom:
  assumes "kq_register_event q ev w = (r, q', w')"
  shows "kq_custom q' = kq_custom q \<or> kq_custom q' = kq_custom q @ [None] \<or>
    (\<exists>ev'. kq_custom q' = kq_custom q @ [Some ev'])"
  using assms
  by (auto simp: kq_register_event_def Let_def kq_table_custom split: prod.splits if_splits option.splits)

lemma kq_good_kept:
  assumes c: "kq_change ref q q'" and g: "kq_good q ref"
  shows "kq_good q' ref"
  using c
proof (cases rule: kq_change.cases)
  case (change_register ev w r w')
  from kq_register_custom [OF this] g show ?thesis by (auto simp: kq_good_def nth_append)
next
  case 2: (change_clear fd w w')
  show ?thesis
  proof (cases "0 \<le> fd")
    case True
    then show ?thesis using 2 g by (auto simp: kq_clear_event_by_fd_def kq_good_def Let_def split: if_splits)
  next
    case False
    then have "nat (- fd - 1) \<noteq> nat (- ref - 1)" using 2(3) g by (auto simp: kq_good_def eq_nat_nat_iff)
    then show ?thesis
      using 2 False g by (auto simp: kq_clear_event_by_fd_def kq_good_def Let_def split: if_splits)
  qed
qed

lemma kq_notifier_created:
  assumes "length (kq_custom q) < 2 ^ 31" "kq_new_notifier q h w = (Ok r, q', w')"
  shows "kq_good q' r"
  using assms
  by (auto simp: kq_new_notifier_def kq_register_event_def kq_good_def Let_def split: prod.splits if_splits)

interpretation kqn: notifier_registry kq_good "\<lambda>q. length (kq_custom q) < 2 ^ 31"
  kq_new_notifier kq_trigger_notification kq_stop_notification kq_change
  by unfold_locales
    (rule kq_notifier_created, assumption+, rule kq_good_kept, assumption+,
      use kq_good_notifier in \<open>fastforce simp: kq_trigger_notification_def kq_stop_notification_def\<close>)

section \<open>Registering a descriptor twice\<close>

text \<open>
  What the kernel watches after a sequence of calls: a change names its event by identifier and filter, \<^verbatim>\<open>EV_DELETE\<close>
  removes it, \<^verbatim>\<open>EV_ADD\<close> adds it or changes it in place, and every other call leaves the set of events as it was.
\<close>

definition kqueue_laws :: "(os_op list \<Rightarrow> nat \<Rightarrow> int \<Rightarrow> bool) \<Rightarrow> bool" where
  "kqueue_laws armed \<longleftrightarrow>
     (\<forall>tr i f fl ff dt j g. armed (tr @ [Kevent i f fl ff dt]) j g =
        (if j = i \<and> g = f then fl AND EV_DELETE = 0 \<and> (fl AND EV_ADD \<noteq> 0 \<or> armed tr j g) else armed tr j g))"

lemma kqueue_lawsD:
  "kqueue_laws armed \<Longrightarrow> armed (tr @ [Kevent i f fl ff dt]) j g =
     (if j = i \<and> g = f then fl AND EV_DELETE = 0 \<and> (fl AND EV_ADD \<noteq> 0 \<or> armed tr j g) else armed tr j g)"
  unfolding kqueue_laws_def by blast

lemma kqueue_lawsD_two:
  "kqueue_laws armed \<Longrightarrow> armed (tr @ [x, Kevent i f fl ff dt]) j g =
     (if j = i \<and> g = f then fl AND EV_DELETE = 0 \<and> (fl AND EV_ADD \<noteq> 0 \<or> armed (tr @ [x]) j g) else armed (tr @ [x]) j g)"
  using kqueue_lawsD [of armed "tr @ [x]"] by simp

definition kq_registered :: "'h KqPoll \<Rightarrow> int \<Rightarrow> 'h KqEvent option" where
  "kq_registered q fd = (if nat fd < length (kq_events q) then kq_events q ! nat fd else None)"

text \<open>Every registered descriptor is watched for reading under its own number.\<close>

definition kq_inv :: "'h KqPoll \<Rightarrow> bool" where
  "kq_inv q \<longleftrightarrow> (\<forall>i ev. i < length (kq_events q) \<longrightarrow> kq_events q ! i = Some ev \<longrightarrow>
     kev_ident (kq_event ev) = i \<and> kev_filter (kq_event ev) = EVFILT_READ)"

text \<open>The registrations that the program makes, and removals.\<close>

inductive kq_step :: "'h KqPoll \<Rightarrow> 'h KqPoll \<Rightarrow> bool" where
  step_event: "kq_new_event q fd h (w :: os_world) = (r, q', w') \<Longrightarrow> 0 \<le> fd \<Longrightarrow> fd < 2 ^ 31 \<Longrightarrow> kq_step q q'"
| step_timer: "kq_new_periodic_event q h t (w :: os_world) = Some (r, q', w') \<Longrightarrow> kq_step q q'"
| step_notifier: "kq_new_notifier q h (w :: os_world) = (r, q', w') \<Longrightarrow> kq_step q q'"
| step_signal: "kq_new_signal_event q sig h (w :: os_world) = (r, q', w') \<Longrightarrow> kq_step q q'"
| step_remove: "kq_clear_event_by_fd q fd (w :: os_world) = Some (q', w') \<Longrightarrow> kq_step q q'"

lemma kq_store_events [simp]: "kq_events (kq_store k es q) = (if k = KindFD then es else kq_events q)"
  by (cases k) auto

lemma kq_step_inv:
  assumes "kq_step q q'" "kq_inv q"
  shows "kq_inv q'"
  using assms
  by (cases rule: kq_step.cases)
    (auto simp: kq_new_event_def kq_new_periodic_event_def kq_new_notifier_def kq_new_signal_event_def
      kq_clear_event_by_fd_def kq_register_event_def kq_inv_def Let_def nth_append nth_list_update
      split: prod.splits if_splits option.splits)

lemma kq_steps_inv: "kq_step\<^sup>*\<^sup>* q q' \<Longrightarrow> kq_inv q \<Longrightarrow> kq_inv q'"
  by (induction rule: rtranclp_induct) (auto intro: kq_step_inv)

text \<open>
  C39.  Registering a descriptor again turns its event off on kqueue.  In every state of the registry, \<^verbatim>\<open>new_event\<close> for a
  descriptor that has no event leaves the kernel watching it; for a descriptor that has one, the registry holds the new
  handler and success is reported, but the old event, which has the same identifier and filter, is deleted after the new
  one was added, and the kernel no longer watches the descriptor.
\<close>

theorem kq_second_registration:
  assumes laws: "kqueue_laws armed" and n: "kq_new w0 = (Ok q0, w1)" and s: "kq_step\<^sup>*\<^sup>* q0 q"
    and fd: "0 \<le> fd" "fd < 2 ^ 31" and e: "kq_new_event q fd h w = (Ok r, q', w')"
  shows "r = fd \<and> (\<exists>ev. kq_registered q' fd = Some ev \<and> kq_handler ev = h) \<and>
    (armed (trace w') (nat fd) EVFILT_READ \<longleftrightarrow> kq_registered q fd = None)"
proof -
  have "kq_inv q0" using n by (auto simp: kq_new_def kq_inv_def Let_def split: prod.splits if_splits)
  from kq_steps_inv [OF s this] have i: "kq_inv q" .
  have flags: "(EV_ENABLE OR EV_DISPATCH OR EV_ADD) AND EV_DELETE = 0" "(EV_ENABLE OR EV_DISPATCH OR EV_ADD) AND EV_ADD \<noteq> 0"
    "EV_DELETE AND EV_DELETE \<noteq> 0" by code_simp+
  show ?thesis
  proof (cases "kq_registered q fd")
    case None
    then show ?thesis
      using e fd flags
      by (auto simp: kq_new_event_def kq_register_event_def kq_registered_def kevent_call_def os_call_def Let_def nth_append
          kqueue_lawsD [OF laws] kqueue_lawsD_two [OF laws] or.assoc split: if_splits option.splits)
  next
    case (Some old)
    then have "kev_ident (kq_event old) = nat fd" "kev_filter (kq_event old) = EVFILT_READ"
      using i by (auto simp: kq_inv_def kq_registered_def split: if_splits)
    then show ?thesis
      using e fd flags Some
      by (auto simp: kq_new_event_def kq_register_event_def kq_registered_def kevent_call_def os_call_def Let_def nth_append
          kqueue_lawsD [OF laws] kqueue_lawsD_two [OF laws] or.assoc split: if_splits option.splits)
  qed
qed

text \<open>A kernel with the assumed behaviour, for the witness.\<close>

fun kq_kernel :: "os_op list \<Rightarrow> nat \<Rightarrow> int \<Rightarrow> bool" where
  "kq_kernel [] j g = False"
| "kq_kernel (Kevent i f fl ff dt # tr) j g =
     (if j = i \<and> g = f then fl AND EV_DELETE = 0 \<and> (fl AND EV_ADD \<noteq> 0 \<or> kq_kernel tr j g) else kq_kernel tr j g)"
| "kq_kernel (_ # tr) j g = kq_kernel tr j g"

theorem kq_second_registration_witness:
  "\<exists>q0 w0 q1 w1 q2 w2. kq_new sample_os = (Ok q0, w0) \<and> kq_new_event q0 9 (1 :: nat) w0 = (Ok 9, q1, w1) \<and>
     kq_kernel (rev (trace w1)) 9 EVFILT_READ \<and> kq_new_event q1 9 2 w1 = (Ok 9, q2, w2) \<and>
     \<not> kq_kernel (rev (trace w2)) 9 EVFILT_READ"
proof -
  have laws: "kqueue_laws (\<lambda>tr. kq_kernel (rev tr))" by (simp add: kqueue_laws_def)
  obtain q0 w0 where n: "kq_new sample_os = (Ok q0, w0)" "os w0 = int" "kq_events (q0 :: nat KqPoll) = []"
    by (auto simp: kq_new_def os_call_def sample_os_def)
  obtain q1 w1 where e1: "kq_new_event q0 9 1 w0 = (Ok 9, q1, w1)" "os w1 = int"
    using n by (auto simp: kq_new_event_def kq_register_event_def kevent_call_def os_call_def Let_def)
  obtain q2 w2 where e2: "kq_new_event q1 9 2 w1 = (Ok 9, q2, w2)"
    using e1(2) by (auto simp: kq_new_event_def kq_register_event_def kevent_call_def os_call_def Let_def)
  have r1: "kq_registered q0 9 = None" using n by (simp add: kq_registered_def)
  have 1: "kq_kernel (rev (trace w1)) 9 EVFILT_READ \<and> (\<exists>ev. kq_registered q1 9 = Some ev)"
    using kq_second_registration [OF laws n(1) rtranclp.rtrancl_refl _ _ e1(1)] r1 by auto
  have "kq_step q0 q1" by (rule step_event [OF e1(1)]) simp_all
  then have "\<not> kq_kernel (rev (trace w2)) 9 EVFILT_READ"
    using kq_second_registration [OF laws n(1) r_into_rtranclp _ _ e2] 1 by auto
  with n e1 e2 1 show ?thesis by blast
qed

end
