(* ===== verification/TunBsd.thy ===== *)
theory TunBsd
  imports Tun
begin

text \<open>
  The tunnel interface on macOS (\<^verbatim>\<open>device/tun_darwin.rs\<close>) and on FreeBSD and NetBSD (\<^verbatim>\<open>device/tun_bsd.rs\<close>).

  \<^item> On these systems every packet travels with a header of four bytes that names its address family.  A packet read
    is the message that waits on the descriptor; a packet written is a system call.
  \<^item> The name that macOS gives an interface, and the device name on FreeBSD, come from the system and are parameters.
  \<^item> A \<^verbatim>\<open>CString\<close> is built from the name and unwrapped, so a name with a zero byte is a panic.
\<close>

section \<open>Names on macOS\<close>

text \<open>\<^verbatim>\<open>x + 1\<close> wraps.\<close>

definition parse_utun_name :: "bytes \<Rightarrow> (u32, Error) result" where
  "parse_utun_name name =
     (if take 4 name \<noteq> ascii ''utun'' then Err InvalidTunnelName
      else if drop 4 name = [] then Ok 0
      else case parse_u32 (drop 4 name) of Some x \<Rightarrow> Ok (x + 1) | None \<Rightarrow> Err InvalidTunnelName)"

section \<open>Framing\<close>

definition AF_INET :: u8 where "AF_INET = 2"

definition tun_frame :: "u8 \<Rightarrow> bytes \<Rightarrow> bytes" where
  "tun_frame af src = [0, 0, 0, af] @ src"

text \<open>The result of \<^verbatim>\<open>write\<close>; failure counts as nothing written.\<close>

definition bsd_write :: "int \<Rightarrow> u8 \<Rightarrow> bytes \<Rightarrow> 'a os_world_scheme \<Rightarrow> nat \<times> 'a os_world_scheme" where
  "bsd_write fd af src w =
     (let (n, w) = os_call (WriteTun fd (tun_frame af src)) w in (if n = -1 then 0 else nat n, w))"

definition bsd_write4 :: "int \<Rightarrow> bytes \<Rightarrow> 'a os_world_scheme \<Rightarrow> nat \<times> 'a os_world_scheme" where
  "bsd_write4 fd src w = bsd_write fd AF_INET src w"

text \<open>\<^verbatim>\<open>AF_INET6\<close> differs between the systems and is an argument.\<close>

definition bsd_write6 :: "u8 \<Rightarrow> int \<Rightarrow> bytes \<Rightarrow> 'a os_world_scheme \<Rightarrow> nat \<times> 'a os_world_scheme" where
  "bsd_write6 af_inet6 fd src w = bsd_write fd af_inet6 src w"

text \<open>Reading scatters the message into the header and a buffer of \<open>cap\<close> bytes.\<close>

definition bsd_read :: "nat \<Rightarrow> bytes option \<Rightarrow> (bytes, Error) result" where
  "bsd_read cap message =
     (case message of
        None \<Rightarrow> Err IfaceRead
      | Some m \<Rightarrow> (let n = min (length m) (4 + cap) in if n \<le> 4 then Ok [] else Ok (take (n - 4) (drop 4 m))))"

section \<open>macOS\<close>

definition darwin_new :: "bytes \<Rightarrow> 'a os_world_scheme \<Rightarrow> (int, Error) result \<times> 'a os_world_scheme" where
  "darwin_new name w =
     (case parse_utun_name name of
        Err e \<Rightarrow> (Err e, w)
      | Ok idx \<Rightarrow>
          (let (fd, w) = os_call (SocketNew ''PF_SYSTEM'' ''SOCK_DGRAM'') w
           in if fd = -1 then (Err SocketErr, w)
              else let (r, w) = os_call (Ioctl fd ''CTLIOCGINFO'' (ascii ''com.apple.net.utun_control'')) w
              in if r < 0 then (Err IOCtl, snd (os_call (Close fd) w))
              else let (r, w) = os_call (ConnectUnit fd idx) w
              in if r < 0 then (Err ConnectErr, snd (os_call (Close fd) w)) else (Ok fd, w)))"

text \<open>\<open>len\<close> and \<open>buf\<close> are what \<^verbatim>\<open>getsockopt\<close> reports of the name, which ends in a zero byte.\<close>

definition darwin_name ::
  "(int \<Rightarrow> nat) \<Rightarrow> (int \<Rightarrow> bytes) \<Rightarrow> int \<Rightarrow> 'a os_world_scheme \<Rightarrow> (bytes, Error) result \<times> 'a os_world_scheme" where
  "darwin_name len buf fd w =
     (let (r, w) = os_call (GetName fd) w
      in if r < 0 \<or> len fd = 0 then (Err GetSockOpt, w) else (Ok (utf8_lossy (take (len fd - 1) (buf fd))), w))"

definition darwin_mtu ::
  "(int \<Rightarrow> nat) \<Rightarrow> (int \<Rightarrow> bytes) \<Rightarrow> int \<Rightarrow> 'a os_world_scheme \<Rightarrow> ((nat, Error) result \<times> 'a os_world_scheme) panics" where
  "darwin_mtu len buf tun w =
     (let (fd, w) = os_call (SocketNew ''AF_INET'' ''SOCK_STREAM'') w
      in if fd = -1 then Some (Err SocketErr, w)
         else case darwin_name len buf tun w of
           (Err e, w) \<Rightarrow> Some (Err e, w)
         | (Ok name, w) \<Rightarrow>
             if IFNAMSIZ < length name then None
             else let (m, w) = os_call (Ioctl fd ''SIOCGIFMTU'' name) w
             in if m < 0 then Some (Err IOCtl, w) else Some (Ok (nat m), snd (os_call (Close fd) w)))"

section \<open>FreeBSD and NetBSD\<close>

definition bsd_remove :: "bytes \<Rightarrow> 'a os_world_scheme \<Rightarrow> (unit, Error) result \<times> 'a os_world_scheme" where
  "bsd_remove name w =
     (let (fd, w) = os_call (SocketNew ''AF_INET'' ''SOCK_STREAM'') w
      in if fd = -1 then (Err SocketErr, w)
         else if IFNAMSIZ \<le> length name then (Err InvalidTunnelName, w)
         else let (r, w) = os_call (Ioctl fd ''SIOCIFDESTROY'' name) w
         in if r < 0 then (Err IOCtl, w) else (Ok (), snd (os_call (Close fd) w)))"

definition bsd_drop :: "TunSocket \<Rightarrow> 'a os_world_scheme \<Rightarrow> 'a os_world_scheme" where
  "bsd_drop t w = snd (bsd_remove (tun_name t) (snd (os_call (Close (tun_fd t)) w)))"

definition freebsd_set_name ::
  "bytes \<Rightarrow> bytes \<Rightarrow> 'a os_world_scheme \<Rightarrow> ((bytes, Error) result \<times> 'a os_world_scheme) panics" where
  "freebsd_set_name old_name new_name w =
     (let (fd, w) = os_call (SocketNew ''AF_INET'' ''SOCK_STREAM'') w
      in if fd = -1 then Some (Err SocketErr, w)
         else if 0 \<in> set new_name then None
         else if IFNAMSIZ \<le> length old_name then Some (Err InvalidTunnelName, w)
         else let (r, w) = os_call (Ioctl fd ''SIOCSIFNAME'' old_name) w
         in if r < 0 then Some (Err IOCtl, w) else Some (Ok new_name, snd (os_call (Close fd) w)))"

text \<open>The common start: an interface of that name is removed first.\<close>

definition bsd_replace :: "bytes \<Rightarrow> 'a os_world_scheme \<Rightarrow> ((unit, Error) result \<times> 'a os_world_scheme) panics" where
  "bsd_replace name w =
     (if 0 \<in> set name then None
      else let (i, w) = os_call (IfIndex name) w in Some (if 0 < i then bsd_remove name w else (Ok (), w)))"

definition freebsd_new ::
  "(int \<Rightarrow> bytes) \<Rightarrow> bytes \<Rightarrow> 'a os_world_scheme \<Rightarrow> ((TunSocket, Error) result \<times> 'a os_world_scheme) panics" where
  "freebsd_new devname name w = do {
     (r, w) \<leftarrow> bsd_replace name w;
     case r of
       Err e \<Rightarrow> Some (Err e, w)
     | Ok _ \<Rightarrow>
         (let (fd, w) = os_call (Open (ascii ''/dev/tun'')) w
          in if fd = -1 then Some (Err SocketErr, w)
             else let (r, w) = os_call (Ioctl fd ''TUNSIFHEAD'' []) w
             in if r < 0 then Some (Err IOCtl, w)
             else do {
               (r, w) \<leftarrow> freebsd_set_name (devname fd) name w;
               Some ((case r of Ok name \<Rightarrow> Ok \<lparr>tun_fd = fd, tun_name = name\<rparr> | Err e \<Rightarrow> Err e), w)
             })
   }"

text \<open>
  NetBSD opens \<^verbatim>\<open>/dev/name\<close>.  The path is handed over without a terminating zero byte, so the system may read on; the
  model has the path as written.
\<close>

definition netbsd_new ::
  "bytes \<Rightarrow> 'a os_world_scheme \<Rightarrow> ((TunSocket, Error) result \<times> 'a os_world_scheme) panics" where
  "netbsd_new name w = do {
     (r, w) \<leftarrow> bsd_replace name w;
     case r of
       Err e \<Rightarrow> Some (Err e, w)
     | Ok _ \<Rightarrow>
         (let (fd, w) = os_call (Open (ascii ''/dev/'' @ name)) w
          in if fd = -1 then Some (Err SocketErr, w)
             else let (r, w) = os_call (Ioctl fd ''TUNSLMODE'' []) w
             in if r < 0 then Some (Err IOCtl, w)
             else let (_, w) = os_call (Ioctl fd ''TUNSIFHEAD'' []) w in Some (Ok \<lparr>tun_fd = fd, tun_name = name\<rparr>, w))
   }"

definition bsd_mtu :: "bytes \<Rightarrow> 'a os_world_scheme \<Rightarrow> ((nat, Error) result \<times> 'a os_world_scheme) panics" where
  "bsd_mtu name w =
     (let (fd, w) = os_call (SocketNew ''AF_INET'' ''SOCK_STREAM'') w
      in if fd = -1 then Some (Err SocketErr, w)
         else if IFNAMSIZ < length name then None
         else let (m, w) = os_call (Ioctl fd ''SIOCGIFMTU'' name) w
         in if m < 0 then Some (Err IOCtl, w) else Some (Ok (nat m), snd (os_call (Close fd) w)))"

section \<open>Properties\<close>

text \<open>A packet survives the framing, whatever its family.\<close>

lemma frame_round_trip: "length src \<le> cap \<Longrightarrow> bsd_read cap (Some (tun_frame af src)) = Ok src"
  by (cases src) (simp_all add: bsd_read_def tun_frame_def Let_def)

lemma bsd_read_bound: "bsd_read cap m = Ok p \<Longrightarrow> length p \<le> cap"
  by (auto simp: bsd_read_def Let_def split: option.splits if_splits)

text \<open>The largest number wraps to the unit that asks the system to choose.\<close>

lemma utun_name_wraps: "parse_utun_name (ascii ''utun4294967295'') = parse_utun_name (ascii ''utun'')"
proof -
  have t: "take 4 (ascii ''utun4294967295'') = ascii ''utun''" "drop 4 (ascii ''utun4294967295'') = ascii ''4294967295''"
    "take 4 (ascii ''utun'') = ascii ''utun''" "drop 4 (ascii ''utun'') = []" "ascii ''4294967295'' \<noteq> []"
    by code_simp+
  have "parse_u32 (ascii ''4294967295'') = Some (-1)"
    by (simp add: parse_u32_def from_str_radix_def to_digit_def ascii_def of_char_def Let_def)
  with t show ?thesis by (simp add: parse_utun_name_def)
qed

text \<open>On FreeBSD the MTU of an interface that was opened under a name of legal length can be asked without a panic.\<close>

lemma bsd_mtu_total: "length name \<le> IFNAMSIZ \<Longrightarrow> bsd_mtu name w \<noteq> None"
  by (simp add: bsd_mtu_def Let_def split_beta)

end
