(* ===== verification/Cli.thy ===== *)
theory Cli
  imports EventLoopReach
begin

text \<open>
  The command line program (\<^verbatim>\<open>boringtun-cli/src/main.rs\<close>): from the parsed arguments to the point where it serves.

  \<^item> The arguments are those \<^verbatim>\<open>clap\<close> has parsed and validated.  Asking it for an argument at another type than the
    declared one panics, as documented.
  \<^item> In the background the program writes to a log file and is detached by \<^verbatim>\<open>daemonize\<close>; whether these succeed is an
    argument.  The action handed to \<^verbatim>\<open>daemonize\<close> waits for one byte on a socket, on whose other end the program reports its
    start; as documented, \<^verbatim>\<open>start\<close> runs the action in the detached process before it returns.  What the socket delivers is
    an argument, \<^term>\<open>None\<close> if nothing ever arrives; \<open>recv_law\<close> says that it delivers only what was sent.
  \<^item> \<^verbatim>\<open>exit\<close> ends the process and runs no destructor.
\<close>

record matches =
  foreground :: bool
  arg_uapi_fd :: int
  arg_tun_fd :: int
  interface_name :: bytes
  arg_threads :: nat
  disable_drop_privileges :: bool
  disable_connected_udp :: bool
  disable_multi_queue :: bool

datatype 'p main_end = ExitCode int | Serving "'p Device"

definition main_config :: "matches \<Rightarrow> DeviceConfig" where
  "main_config m =
     \<lparr>n_threads = arg_threads m, use_connected_socket = \<not> disable_connected_udp m,
      use_multi_queue = \<not> disable_multi_queue m, cfg_uapi_fd = arg_uapi_fd m\<rparr>"

text \<open>\<^verbatim>\<open>sock1.send(&[b]).unwrap()\<close>\<close>

definition notify_parent :: "int \<Rightarrow> u8 \<Rightarrow> 'u dev_world \<Rightarrow> 'u dev_world panics" where
  "notify_parent sock b w = (let (r, w) = os_call (SendConn sock [b]) w in if r = -1 then None else Some w)"

text \<open>What the waiting action does with the byte, or without one: it exits with an error unless the byte is one.\<close>

definition privileged_action :: "u8 option \<Rightarrow> int option" where
  "privileged_action b = (if b = Some 1 then None else Some 1)"

type_synonym receive = "int \<Rightarrow> os_op list \<Rightarrow> u8 option option"

definition recv_law :: "receive \<Rightarrow> bool" where
  "recv_law recv \<longleftrightarrow> (\<forall>sock tr b. recv sock tr = Some (Some b) \<longrightarrow> SendConn sock [b] \<in> set tr)"

definition main_device ::
  "('u, 'p) libs \<Rightarrow> 'n option \<Rightarrow> ('n \<Rightarrow> (int \<times> int) option) \<Rightarrow> matches \<Rightarrow> int \<Rightarrow> 'u dev_world
     \<Rightarrow> ('p main_end \<times> 'u dev_world) panics" where
  "main_device L login getpwnam m sock w = do {
     (r, w) \<leftarrow> DeviceHandle_new L (get_saved_ids login getpwnam) (interface_name m) (main_config m) w;
     case r of
       Err _ \<Rightarrow> do { w \<leftarrow> notify_parent sock 0 w; Some (ExitCode 1, w) }
     | Ok device_handle \<Rightarrow> do {
         let (dropped, w) = (if disable_drop_privileges m then (Ok (), w) else drop_privileges login getpwnam w);
         case dropped of
           Err _ \<Rightarrow> do { w \<leftarrow> notify_parent sock 0 w; Some (ExitCode 1, w) }
         | Ok _ \<Rightarrow> do { w \<leftarrow> notify_parent sock 1 w; Some (Serving device_handle, w) }
       }
   }"

definition main ::
  "('u, 'p) libs \<Rightarrow> 'n option \<Rightarrow> ('n \<Rightarrow> (int \<times> int) option) \<Rightarrow> matches \<Rightarrow> bool \<Rightarrow> bool \<Rightarrow> receive \<Rightarrow> 'u dev_world
     \<Rightarrow> ('p main_end \<times> 'u dev_world) panics" where
  "main L login getpwnam m log_created daemonized recv w =
     (if 0 \<le> arg_tun_fd m then None
      else
        let (sock, w) = os_call SocketPair w
        in if sock = -1 then None
           else
             let (_, w) = os_call (SetNonblocking sock) w
             in if foreground m then main_device L login getpwnam m sock w
                else if \<not> log_created then None
                else if \<not> daemonized then Some (ExitCode 1, w)
                else do {
                  b \<leftarrow> recv sock (trace w);
                  case privileged_action b of
                    Some code \<Rightarrow> Some (ExitCode code, w)
                  | None \<Rightarrow> main_device L login getpwnam m sock w
                })"

section \<open>Starting\<close>

lemma notify_parent_world:
  "notify_parent sock b w = Some w' \<Longrightarrow> w' = snd (os_call (SendConn sock [b]) w)"
  by (auto simp: notify_parent_def Let_def split_beta split: if_splits)

lemma reachable_os: "dev_reachable L (d, w) \<Longrightarrow> dev_reachable L (d, snd (os_call x w))"
  unfolding dev_reachable_def by (blast intro: os_runs)

lemma drop_privileges_reachable:
  "dev_reachable L (d, w) \<Longrightarrow> drop_privileges login getpwnam w = (r, w') \<Longrightarrow> dev_reachable L (d, w')"
  by (auto simp: drop_privileges_def Let_def split_beta split: result.splits if_splits intro!: reachable_os)

lemma drop_privileges_lost:
  assumes "drop_privileges login getpwnam w = (Ok (), w')"
  shows "\<exists>uid gid. (\<exists>u. login = Some u \<and> getpwnam u = Some (uid, gid)) \<and>
    trace w' = trace w @ [SetGid gid, SetUid uid, SetGid 0, SetUid 0] \<and>
    2 \<le> os_pos w' \<and> os w' (os_pos w' - 2) = -1 \<and> os w' (os_pos w' - 1) = -1"
  using assms
  by (auto simp: drop_privileges_def get_saved_ids_def os_call_def Let_def split: option.splits if_splits)

text \<open>The environment in which \<^verbatim>\<open>main\<close> sends its report: after the device was made, or after dropping privileges as well.\<close>

definition at_report ::
  "('u, 'p) libs \<Rightarrow> 'n option \<Rightarrow> ('n \<Rightarrow> (int \<times> int) option) \<Rightarrow> matches \<Rightarrow> 'u dev_world \<Rightarrow> 'u dev_world \<Rightarrow> bool" where
  "at_report L login getpwnam m w v \<longleftrightarrow>
     (\<exists>r w1. DeviceHandle_new L (get_saved_ids login getpwnam) (interface_name m) (main_config m) w = Some (r, w1) \<and>
        (v = w1 \<or> v = snd (drop_privileges login getpwnam w1)))"

definition privileges_lost ::
  "'n option \<Rightarrow> ('n \<Rightarrow> (int \<times> int) option) \<Rightarrow> int \<Rightarrow> 'u dev_world \<Rightarrow> bool" where
  "privileges_lost login getpwnam sock w \<longleftrightarrow>
     (\<exists>tr u uid gid. login = Some u \<and> getpwnam u = Some (uid, gid) \<and>
        trace w = tr @ [SetGid gid, SetUid uid, SetGid 0, SetUid 0, SendConn sock [1]] \<and>
        os w (os_pos w - 3) = -1 \<and> os w (os_pos w - 2) = -1)"

lemma main_device_outcome:
  assumes c: "monotone_clock (tw w)" "peer_store w = []"
  shows "case main_device L login getpwnam m sock w of
      Some (Serving d, w') \<Rightarrow> dev_reachable L (d, w') \<and> last (trace w') = SendConn sock [1] \<and>
        (disable_drop_privileges m \<or> privileges_lost login getpwnam sock w')
    | Some (ExitCode x, w') \<Rightarrow> x = 1 \<and> last (trace w') = SendConn sock [0]
    | None \<Rightarrow> DeviceHandle_new L (get_saved_ids login getpwnam) (interface_name m) (main_config m) w = None \<or>
        (\<exists>v. at_report L login getpwnam m w v \<and> os v (os_pos v) = -1)"
proof (cases "DeviceHandle_new L (get_saved_ids login getpwnam) (interface_name m) (main_config m) w")
  case None
  then show ?thesis by (simp add: main_device_def)
next
  case (Some rw)
  obtain r w1 where r: "DeviceHandle_new L (get_saved_ids login getpwnam) (interface_name m) (main_config m) w = Some (r, w1)"
    using Some by (cases rw) simp
  have n: "notify_parent sock b v = (if os v (os_pos v) = -1 then None else Some (snd (os_call (SendConn sock [b]) v)))" for b v
    by (simp add: notify_parent_def os_call_def Let_def)
  define x where "x = (if disable_drop_privileges m then (Ok (), w1) else drop_privileges login getpwnam w1)"
  obtain p w2 where x: "x = (p, w2)" by (cases x)
  have a: "at_report L login getpwnam m w w1" "at_report L login getpwnam m w w2"
    using r x by (auto simp: at_report_def x_def split: if_splits)
  show ?thesis
  proof (cases r)
    case (Err e)
    with r a(1) show ?thesis by (auto simp: main_device_def n os_call_def)
  next
    case (Ok d)
    have d1: "dev_reachable L (d, w1)" by (rule DeviceHandle_new_reachable [OF r [unfolded Ok] c])
    have d2: "dev_reachable L (d, w2)" using d1 drop_privileges_reachable [OF d1] x by (auto simp: x_def split: if_splits)
    have m: "main_device L login getpwnam m sock w = (case p of
        Err _ \<Rightarrow> do { w \<leftarrow> notify_parent sock 0 w2; Some (ExitCode 1, w) }
      | Ok _ \<Rightarrow> do { w \<leftarrow> notify_parent sock 1 w2; Some (Serving d, w) })"
      using r Ok x by (simp add: main_device_def x_def [symmetric])
    have "disable_drop_privileges m \<or> drop_privileges login getpwnam w1 = (p, w2)" using x by (auto simp: x_def split: if_splits)
    then have "p = result.Ok () \<longrightarrow> disable_drop_privileges m \<or> privileges_lost login getpwnam sock (snd (os_call (SendConn sock [1]) w2))"
      by (auto simp: privileges_lost_def os_call_def dest!: drop_privileges_lost)
    with a(2) reachable_os [OF d2, of "SendConn sock [1]"] show ?thesis
      unfolding m by (cases p) (auto simp: n os_call_def)
  qed
qed

text \<open>
  C40.  What the program reports of its start is true, and how every start ends.  In the foreground it comes to serve with
  a device in a reachable state after it reported success and, unless it was asked to keep its privileges, after it set
  both identities to those of the login and failed to become root again; or it exits with code one after reporting
  the failure; or it panics, because a tunnel descriptor was given, there is no socket pair, the construction of the device
  panics or the report cannot be sent.  In the background it never comes to serve: it panics or exits with code one and
  without a report, or it waits forever for the report that it would send itself.
\<close>

theorem start_report:
  fixes w :: "'u dev_world"
  assumes c: "monotone_clock (tw w)" "peer_store w = []" "trace w = []" and recv: "recv_law recv"
  defines "sock \<equiv> os w (os_pos w)" and "w1 \<equiv> snd (os_call (SetNonblocking (os w (os_pos w))) (snd (os_call SocketPair w)))"
  shows "case main L login getpwnam m log daemonized recv w of
      Some (Serving d, w') \<Rightarrow> foreground m \<and> dev_reachable L (d, w') \<and> last (trace w') = SendConn sock [1] \<and>
        (disable_drop_privileges m \<or> privileges_lost login getpwnam sock w')
    | Some (ExitCode x, w') \<Rightarrow> x = 1 \<and>
        (if foreground m then last (trace w') = SendConn sock [0] else \<forall>b. SendConn sock b \<notin> set (trace w'))
    | None \<Rightarrow> 0 \<le> arg_tun_fd m \<or> sock = -1 \<or>
        (if foreground m
         then DeviceHandle_new L (get_saved_ids login getpwnam) (interface_name m) (main_config m) w1 = None \<or>
           (\<exists>v. at_report L login getpwnam m w1 v \<and> os v (os_pos v) = -1)
         else \<not> log \<or> daemonized \<and> recv sock (trace w1) = None)"
proof -
  have w1: "monotone_clock (tw w1)" "peer_store w1 = []" "trace w1 = [SocketPair, SetNonblocking sock]"
    using c by (simp_all add: w1_def sock_def os_call_def)
  have m: "main L login getpwnam m log daemonized recv w =
     (if 0 \<le> arg_tun_fd m \<or> sock = -1 then None
      else if foreground m then main_device L login getpwnam m sock w1
      else if \<not> log then None else if \<not> daemonized then Some (ExitCode 1, w1)
      else do { b \<leftarrow> recv sock (trace w1);
        case privileged_action b of Some code \<Rightarrow> Some (ExitCode code, w1) | None \<Rightarrow> main_device L login getpwnam m sock w1 })"
  proof -
    have s: "fst (os_call SocketPair w) = sock" "snd (os_call (SetNonblocking sock) (snd (os_call SocketPair w))) = w1"
      by (simp_all add: sock_def w1_def os_call_def)
    show ?thesis unfolding main_def Let_def split_beta s by simp
  qed
  have r: "recv sock (trace w1) \<noteq> Some (Some b)" for b
    using recv [unfolded recv_law_def, rule_format, of sock "trace w1" b] w1(3) by auto
  show ?thesis
  proof (cases "foreground m")
    case True
    show ?thesis
      using main_device_outcome [OF w1(1,2), of L login getpwnam m sock] unfolding m
      by (auto simp: True split: option.splits main_end.splits)
  next
    case False
    show ?thesis
      using r w1(3) unfolding m
      by (cases "recv sock (trace w1)") (auto simp: False privileged_action_def split: option.splits)
  qed
qed

text \<open>An environment in which every call succeeds but the two that would bring the privileges back.\<close>

definition sample_login :: "(net, unit) alist dev_world" where
  "sample_login = sample_boot\<lparr>os := (\<lambda>k. if k = 33 \<or> k = 34 then -1 else if k < 3 then 40 else int k), os_pos := 1\<rparr>"

definition sample_matches :: matches where
  "sample_matches = \<lparr>foreground = True, arg_uapi_fd = 9, arg_tun_fd = -1, interface_name = ascii ''5'', arg_threads = 4,
     disable_drop_privileges = False, disable_connected_udp = False, disable_multi_queue = False\<rparr>"

abbreviation sample_paired :: "(net, unit) alist dev_world" where
  "sample_paired \<equiv> sample_login\<lparr>os_pos := 3, trace := [SocketPair, SetNonblocking 40]\<rparr>"

lemma sample_login_booted:
  "\<exists>d w. DeviceHandle_new sample_libs (Ok (1000, 1000)) (ascii ''5'') (main_config sample_matches) sample_paired = Some (Ok d, w) \<and>
     os w = os sample_login \<and> os_pos w = 31"
  by (simp add: boot_defs sample_login_def sample_boot_def sample_matches_def main_config_def sample_dw_def sample_lfsr
      Device_init_def sample_libs_def sample_numbers nth_append cong: run_congs)

theorem start_report_witness:
  "\<exists>d w'. main sample_libs (Some ''joe'') (\<lambda>_. Some (1000, 1000)) sample_matches False False (\<lambda>_ _. None) sample_login =
       Some (Serving d, w') \<and>
     dev_reachable sample_libs (d, w') \<and> last (trace w') = SendConn 40 [1]"
proof -
  obtain d w where b: "DeviceHandle_new sample_libs (Ok (1000, 1000)) (ascii ''5'') (main_config sample_matches) sample_paired =
      Some (Ok d, w)" and w: "os w = os sample_login" "os_pos w = 31"
    using sample_login_booted by blast
  have s: "os_call SocketPair sample_login = (40, sample_login\<lparr>os_pos := 2, trace := [SocketPair]\<rparr>)"
    by (simp add: os_call_def sample_login_def sample_boot_def sample_dw_def)
  have s2: "os_call (SetNonblocking 40) (sample_login\<lparr>os_pos := 2, trace := [SocketPair]\<rparr>) = (40, sample_paired)"
    by (simp add: os_call_def sample_login_def)
  have "\<exists>w'. main_device sample_libs (Some ''joe'') (\<lambda>_. Some (1000, 1000)) sample_matches 40 sample_paired = Some (Serving d, w')"
    using b w
    by (simp add: main_device_def get_saved_ids_def drop_privileges_def notify_parent_def os_call_def Let_def
        sample_matches_def sample_login_def)
  then obtain w' where m: "main sample_libs (Some ''joe'') (\<lambda>_. Some (1000, 1000)) sample_matches False False (\<lambda>_ _. None)
      sample_login = Some (Serving d, w')"
    using s s2 by (auto simp: main_def sample_matches_def)
  have "monotone_clock (tw sample_login)" "peer_store sample_login = []" "trace sample_login = []"
    using sample_world_monotone [of 1]
    by (simp_all add: sample_login_def sample_boot_def sample_dw_def sample_tw1_def monotone_clock_def world.defs)
  from start_report [OF this, where recv = "\<lambda>_ _. None" and L = sample_libs and login = "Some ''joe''"
      and getpwnam = "\<lambda>_. Some (1000, 1000)" and m = sample_matches and log = False and daemonized = False] m
  show ?thesis by (auto simp: recv_law_def sample_login_def sample_boot_def sample_dw_def)
qed

end
