(* ===== verification/Spec2Isabelle.thy ===== *)
theory Spec2Isabelle
  imports Bindings DeviceProperties DeviceSockets DevLock EventLoopReach ApiProperties KQueue TunBsd Cli
begin

text \<open>
  A verification development for boringtun, a userspace implementation of the WireGuard protocol in Rust.  Paths below
  are relative to \<^verbatim>\<open>src/boringtun/src\<close>.

  \<^bold>\<open>The program.\<close>  A \<^emph>\<open>tunnel\<close> (\<^verbatim>\<open>noise\<close>) turns IP packets into encrypted datagrams for one peer and back.  It consists of
  the handshake that agrees on keys, up to eight sessions that use them, a replay window per session, a rate limiter with
  cookies, timers, and a queue for packets that wait for a session.  A \<^emph>\<open>device\<close> (\<^verbatim>\<open>device\<close>) owns a network interface,
  its sockets and one tunnel per peer; it routes packets by address and datagrams by index, and is configured over a text
  protocol.  Its threads run one event loop over a queue of events and share the device through a lock.  Tunnels are also exported
  to other languages (\<^verbatim>\<open>export.rs\<close>, \<^verbatim>\<open>ffi\<close>).

  \<^bold>\<open>Conventions.\<close>
  \<^item> A machine integer is a word of its width and wraps, as in the release profile.  The width of \<^verbatim>\<open>usize\<close> is a parameter,
    32 or 64, where the code counts packets and bytes in it (\<open>usize_bits\<close>); elsewhere a size is a natural number.  A buffer that a
    function fills is its length.  A fallible function returns \<open>result\<close>.
  \<^item> A panic, and a loop that does not end, is \<^term>\<open>None\<close>; a function that can do neither returns no option.  Loops that may
    run on are \<open>partial_function\<close> or \<open>while_option\<close>, and that they return is proved; the two that wait for the environment
    (a nonzero random index, an empty descriptor) return as soon as it supplies it.  No fuel is used.
  \<^item> Clocks and randomness are streams of readings in the environment (\<open>world\<close>).  System calls get their results from a stream as
    well and are recorded in a trace (\<open>os_world\<close>); nothing is assumed of the results except where a property says so.
  \<^item> Shared ownership is a position in a store: \<open>limiters\<close> for rate limiters, \<open>peer_store\<close> for peers.
  \<^item> A panic ends the process under the release profile of the workspace (\<^verbatim>\<open>Cargo.toml\<close>) and unwinds under the other profiles.
    The two differ for callers of the exported object, whose lock is poisoned by unwinding; \<open>panic_profile\<close> selects one.
  \<^item> Code from other crates is a parameter: a record of the functions the program calls, with what it relies on as a
    predicate (\<open>crypto_laws\<close>, \<open>base64_laws\<close>, \<open>ip_table_laws\<close>, and \<open>libs_laws\<close> for all that a device uses; \<open>kqueue_laws\<close> for
    the kernel).  The witnesses instantiate them by concrete functions.  No secrecy or unforgeability is assumed.
    The exception is the lock of \<^verbatim>\<open>parking_lot\<close> under \<^verbatim>\<open>device/dev_lock.rs\<close>, whose documented states are written out in \<open>DevLock\<close>.
  \<^item> The standard library is modelled (\<open>Prelude\<close>, \<open>StdParse\<close>, \<open>NetParse\<close>, and printing in \<open>Api\<close>).

  \<^bold>\<open>The tunnel.\<close>
  \<^item> \<open>Wire\<close>: message layouts and \<^verbatim>\<open>parse_incoming_packet\<close> (\<^verbatim>\<open>noise/mod.rs\<close>).  The parser accepts exactly the encodings of
    well-formed messages.
  \<^item> \<open>Replay\<close>: the bitmap of \<^verbatim>\<open>ReceivingKeyCounterValidator\<close> (\<^verbatim>\<open>noise/session.rs\<close>) refines a filter on the set of received
    counters.  The exact exception is shown too: the largest counter, once accepted, makes the window forget all others, so a
    counter is accepted a second time only if it is the largest one or that was accepted in between.
  \<^item> \<open>Session\<close>: encryption and decryption of data packets, with the phases of concurrent receivers.  Round trip;
    the nonces of the packets, which repeat with the period of \<^verbatim>\<open>usize\<close>; and under every interleaving a counter is delivered
    again only in the case of the exception of \<open>Replay\<close>.
  \<^item> \<open>Crypto\<close>, \<open>Handshake\<close>: \<^verbatim>\<open>noise/handshake.rs\<close>.  Two parties agree on paired sessions; an initiation is accepted once;
    what refused messages leave behind, which is nothing unless the buffer for the answer is too small.
  \<^item> \<open>RateLimiter\<close>: \<^verbatim>\<open>noise/rate_limiter.rs\<close>.  Handshakes without a cookie are bounded; a cookie reply makes the next
    initiation pass.
  \<^item> \<open>SleepyInstant\<close>: the clock (\<^verbatim>\<open>sleepyinstant\<close>).
  \<^item> \<open>Tunn\<close>: the rest of \<^verbatim>\<open>noise/mod.rs\<close> and \<^verbatim>\<open>noise/timers.rs\<close>.  \<open>TunnInvariant\<close> has its invariant and that every operation
    keeps it and returns; \<open>TunnProperties\<close> that no sequence of calls panics, that a datagram that fails leaves the tunnel alone but
    in two described cases, that keys expire, what is handed to the interface, and what the queue does without a session.
  \<^item> \<open>Serialization\<close>: keys as text (\<^verbatim>\<open>serialization.rs\<close>), with their round trip.
  \<^item> \<open>Bindings\<close>: \<^verbatim>\<open>export.rs\<close> and \<^verbatim>\<open>ffi/mod.rs\<close>.  Exactly which calls return: all but one that
    flushes a queued packet of more than 116 bytes, which panics.  When a tunnel can be created from text.

  \<^bold>\<open>The device.\<close>
  \<^item> \<open>AllowedIps\<close>, \<open>Peer\<close>: \<^verbatim>\<open>device/allowed_ips.rs\<close>, \<^verbatim>\<open>device/peer.rs\<close>.  Lookup is longest-prefix match.
  \<^item> \<open>EventPoll\<close>, \<open>KQueue\<close>: the queues of events of Linux (\<^verbatim>\<open>device/epoll.rs\<close>) and of BSD and macOS (\<^verbatim>\<open>device/kqueue.rs\<close>).
    Both implement the contract \<open>notifier_registry\<close> of theory \<open>Prelude\<close>: a notifier stays usable.  On kqueue a second
    registration of a descriptor is shown to be lost.
  \<^item> \<open>Tun\<close>, \<open>TunBsd\<close>: the interface (\<^verbatim>\<open>device/tun_*.rs\<close>) and giving up privileges (\<^verbatim>\<open>device/drop_privileges.rs\<close>).
  \<^item> \<open>Device\<close>: the state and operations of \<^verbatim>\<open>device/mod.rs\<close>, one definition per configuration operation, timer and packet handler.
    \<open>DeviceIndex\<close> shows that peer indices never repeat.
  \<^item> \<open>DeviceInvariant\<close>, \<open>DeviceReach\<close>: the invariant of the device and that every operation and handler keeps it; \<open>dev_step\<close>
    is one of them and \<open>dev_reachable\<close> the states reached.  \<open>DeviceSample\<close> has the device of the witnesses.
  \<^item> \<open>DeviceProperties\<close>, \<open>DeviceSockets\<close>: only packets from allowed sources reach the interface, replies reach their peer, routes
    agree in both directions, what flushing sends, a new key ends every session; and what goes wrong when there is no key yet
    and when the port changes, where the listeners of the old port are followed through the system calls.
  \<^item> \<open>DevLock\<close>: the lock (\<^verbatim>\<open>device/dev_lock.rs\<close>) as threads that take atomic steps in any order: writing is exclusive, and there
    is no deadlock.
  \<^item> \<open>Api\<close>, \<open>ApiProperties\<close>: the configuration protocol (\<^verbatim>\<open>device/api.rs\<close>).  What \<^verbatim>\<open>get\<close> prints of the device \<^verbatim>\<open>set\<close> reads back; a
    setting of one peer carries over to the next.
  \<^item> \<open>EventLoop\<close>, \<open>EventLoopReach\<close>: construction, the handlers of the configuration sockets, and the event loop.  Whatever
    arrives, the device stays in a reachable state, so what is shown of those holds of the running program.
  \<^item> \<open>Cli\<close>: the program (\<^verbatim>\<open>src/boringtun-cli/src/main.rs\<close>) up to the point where it serves, over all of the above.
    Every way a start ends, and what is reported of it; in the background the program never comes to serve.

  \<^bold>\<open>Atomicity.\<close>  A handler runs as one step.  In the program the handlers of different threads interleave where they release the
  lock of a peer; the interleavings that matter inside a tunnel are those of receivers on one session, which \<open>Session\<close>
  covers, and of writers of the device, which \<open>DevLock\<close> covers.

  \<^bold>\<open>Not modelled.\<close>  The loss estimate in the statistics of a tunnel, which is computed in \<^verbatim>\<open>f32\<close> and only reported.  Logging.
  The creation and joining of threads, and the signal mask set before \<^verbatim>\<open>signalfd\<close>.  The two deallocation functions and the logging
  callback of the C interface, whose effect is on memory outside the model.  The declaration of the arguments for
  \<^verbatim>\<open>clap\<close>.  On macOS, \<^verbatim>\<open>Device::new\<close> writing the name of the interface to the file in \<^verbatim>\<open>WG_TUN_NAME_FILE\<close>; the devices
  of the model are those of Linux.  The socket of a peer that is closed when the last reference to the peer is dropped by clearing the
  peers.  The macOS branch of \<^verbatim>\<open>device/tun_bsd.rs\<close>, which the build does not select.  \<^verbatim>\<open>jni.rs\<close>, which is commented out of
  the crate, tests and benchmarks.
\<close>

end
